(* ===== verification/Refract_Prelude.thy ===== *)
theory Refract_Prelude
  imports Complex_Main "HOL-Library.Multiset" "HOL-Library.Monad_Syntax"
begin

text \<open>
  Shared vocabulary of the development: the exceptions the services throw, the
  result type of fallible operations, the JavaScript notions the sources use
  (BigInt division, decimal printing, \<open>Map\<close> with insertion order, stable sort
  by a numeric key) and the generic lemmas on lists that the components share.

  Numbers. A \<open>bigint\<close> is an \<^typ>\<open>int\<close>. A JavaScript \<open>number\<close> that holds a count,
  an identifier, a basis-point value or an epoch time is an \<^typ>\<open>int\<close> as well.
  A \<open>number\<close> that holds a measured quantity is an exact rational or real and the
  component says so; rounding of IEEE doubles is not modelled.
\<close>

named_theorems spec_simps \<open>functional specifications of component operations\<close>
named_theorems inv_intros \<open>preservation of component invariants\<close>

section \<open>Errors and results\<close>

datatype js_error =
    BadRequest string
  | NotFound string
  | Conflict string
  | RangeErr string
  | Err string

type_synonym 'a result = "js_error + 'a"
type_synonym time_ms = int

fun error_message :: "js_error \<Rightarrow> string" where
  "error_message (BadRequest m) = m"
| "error_message (NotFound m) = m"
| "error_message (Conflict m) = m"
| "error_message (RangeErr m) = m"
| "error_message (Err m) = m"

definition is_ok :: "'e + 'a \<Rightarrow> bool" where
  "is_ok r = (case r of Inl _ \<Rightarrow> False | Inr _ \<Rightarrow> True)"

lemma is_ok_simps [simp]: "is_ok (Inr x)" "\<not> is_ok (Inl e)"
  by (simp_all add: is_ok_def)

lemma is_ok_iff: "is_ok r \<longleftrightarrow> (\<exists>x. r = Inr x)"
  by (cases r) (simp_all add: is_ok_def)

definition then_result :: "'e + 'a \<Rightarrow> ('a \<Rightarrow> 'e + 'b) \<Rightarrow> 'e + 'b" where
  "then_result r f = (case r of Inl e \<Rightarrow> Inl e | Inr x \<Rightarrow> f x)"

lemma then_result_simps [simp]:
  "then_result (Inl e) f = Inl e" "then_result (Inr x) f = f x"
  by (simp_all add: then_result_def)

lemma then_result_InrE:
  assumes "then_result r f = Inr y"
  obtains x where "r = Inr x" "f x = Inr y"
  using assms by (cases r) auto

section \<open>BigInt division\<close>

text \<open>BigInt \<open>/\<close> truncates towards zero and \<open>%\<close> takes the sign of the dividend.\<close>

definition big_div :: "int \<Rightarrow> int \<Rightarrow> int" where
  "big_div a b = sgn a * sgn b * (\<bar>a\<bar> div \<bar>b\<bar>)"

definition big_mod :: "int \<Rightarrow> int \<Rightarrow> int" where
  "big_mod a b = a - big_div a b * b"

lemma big_div_nonneg: "0 \<le> a \<Longrightarrow> 0 < b \<Longrightarrow> big_div a b = a div b"
  by (cases "a = 0") (auto simp: big_div_def)

lemma big_mod_nonneg: "0 \<le> a \<Longrightarrow> 0 < b \<Longrightarrow> big_mod a b = a mod b"
  by (simp add: big_mod_def big_div_nonneg minus_div_mult_eq_mod)

lemma le_div_iff_mult_le_int:
  fixes d k m :: int
  assumes "0 < d"
  shows "k \<le> m div d \<longleftrightarrow> k * d \<le> m"
proof
  assume "k \<le> m div d"
  then have "k * d \<le> m div d * d" using assms by (simp add: mult_right_mono)
  also have "\<dots> \<le> m"
    using assms by (metis div_mult_mod_eq le_add_same_cancel1 pos_mod_sign)
  finally show "k * d \<le> m" .
next
  assume "k * d \<le> m"
  then have "k * d div d \<le> m div d" using assms by (rule zdiv_mono1)
  then show "k \<le> m div d" using assms by simp
qed

section \<open>Decimal strings\<close>

definition digit_char :: "nat \<Rightarrow> char" where
  "digit_char d = char_of (48 + d)"

definition is_digit :: "char \<Rightarrow> bool" where
  "is_digit c \<longleftrightarrow> 48 \<le> (of_char c :: nat) \<and> (of_char c :: nat) \<le> 57"

definition digit_val :: "char \<Rightarrow> nat" where
  "digit_val c = of_char c - 48"


fun dec_digits :: "nat \<Rightarrow> string" where
  "dec_digits n = (if n < 10 then [digit_char n]
                   else dec_digits (n div 10) @ [digit_char (n mod 10)])"

declare dec_digits.simps [simp del]

definition dec_value :: "string \<Rightarrow> nat" where
  "dec_value s = foldl (\<lambda>a c. a * 10 + digit_val c) 0 s"

text \<open>\<open>String.padStart\<close>, \<open>String.padEnd\<close> and \<open>BigInt.toString\<close>.\<close>

definition pad_start :: "nat \<Rightarrow> char \<Rightarrow> string \<Rightarrow> string" where
  "pad_start n c s = replicate (n - length s) c @ s"

definition pad_end :: "nat \<Rightarrow> char \<Rightarrow> string \<Rightarrow> string" where
  "pad_end n c s = s @ replicate (n - length s) c"

definition big_to_string :: "int \<Rightarrow> string" where
  "big_to_string z = (if z < 0 then CHR ''-'' # dec_digits (nat (- z)) else dec_digits (nat z))"

text \<open>The digits of an integer without a detour over the natural numbers, for evaluation.\<close>

function int_digits :: "int \<Rightarrow> string" where
  "int_digits z = (if z < 10 then [digit_char (nat z)] else int_digits (z div 10) @ [digit_char (nat (z mod 10))])"
  by auto
termination by (relation "measure nat") auto

declare int_digits.simps [simp del]

lemma dec_digits_int: "0 \<le> z \<Longrightarrow> dec_digits (nat z) = int_digits z"
proof (induction z rule: int_digits.induct)
  case (1 z)
  then have n: "nat z < 10 \<longleftrightarrow> z < 10" by linarith
  show ?case
  proof (cases "z < 10")
    case True
    then show ?thesis by (simp add: int_digits.simps [of z] dec_digits.simps [of "nat z"] n)
  next
    case False
    then show ?thesis using 1
      by (simp add: int_digits.simps [of z] dec_digits.simps [of "nat z"] n nat_div_distrib nat_mod_distrib)
  qed
qed

lemma big_to_string_code [code]: "big_to_string z = (if z < 0 then CHR ''-'' # int_digits (- z) else int_digits z)"
  by (simp add: big_to_string_def dec_digits_int)

lemma digit_val_char [simp]: "d < 10 \<Longrightarrow> digit_val (digit_char d) = d"
  by (simp add: digit_val_def digit_char_def)

lemma is_digit_char [simp]: "d < 10 \<Longrightarrow> is_digit (digit_char d)"
  by (simp add: is_digit_def digit_char_def)

lemma digit_val_zero [simp]: "digit_val (CHR ''0'') = 0"
  by (simp add: digit_val_def)

lemma is_digit_zero [simp]: "is_digit (CHR ''0'')"
  by (simp add: is_digit_def)

lemma not_digit_chars [simp]: "\<not> is_digit (CHR ''.'')" "\<not> is_digit (CHR ''-'')"
  by (simp_all add: is_digit_def)

lemma digit_val_less: "is_digit c \<Longrightarrow> digit_val c < 10"
  by (auto simp: is_digit_def digit_val_def)

lemma dec_value_Nil [simp]: "dec_value [] = 0"
  by (simp add: dec_value_def)

lemma dec_value_snoc: "dec_value (s @ [c]) = dec_value s * 10 + digit_val c"
  by (simp add: dec_value_def)

lemma dec_value_append: "dec_value (s @ t) = dec_value s * 10 ^ length t + dec_value t"
proof (induction t rule: rev_induct)
  case Nil
  then show ?case by simp
next
  case (snoc c t)
  have "dec_value (s @ t @ [c]) = dec_value (s @ t) * 10 + digit_val c"
    using dec_value_snoc [of "s @ t" c] by simp
  then show ?case using snoc by (simp add: dec_value_snoc algebra_simps)
qed

lemma digit_val_pos:
  assumes "is_digit c" "c \<noteq> CHR ''0''"
  shows "0 < digit_val c"
proof -
  have "(of_char c :: nat) \<noteq> of_char (CHR ''0'')" using assms(2) by (simp only: of_char_eq_iff not_False_eq_True)
  then show ?thesis using assms(1) by (simp add: is_digit_def digit_val_def)
qed

lemma dec_value_Cons_pos: "0 < digit_val c \<Longrightarrow> 0 < dec_value (c # t)"
  using dec_value_append [of "[c]" t] by (simp add: dec_value_def)

lemma dec_value_zeros [simp]: "dec_value (replicate n (CHR ''0'')) = 0"
  by (induction n) (simp_all add: dec_value_snoc replicate_append_same [symmetric])

lemma dec_value_pad_start [simp]: "dec_value (pad_start n (CHR ''0'') s) = dec_value s"
  by (simp add: pad_start_def dec_value_append)

lemma digits_pad_start:
  assumes "list_all is_digit s"
  shows "list_all is_digit (pad_start n (CHR ''0'') s)"
proof -
  have "list_all is_digit (replicate m (CHR ''0''))" for m by (induction m) simp_all
  with assms show ?thesis by (simp add: pad_start_def)
qed

lemma dec_value_digits [simp]: "dec_value (dec_digits n) = n"
proof (induction n rule: dec_digits.induct)
  case (1 n)
  then show ?case
    by (subst dec_digits.simps)
       (auto simp: dec_value_append, auto simp: dec_value_def)
qed

lemma digits_dec_digits [simp]: "list_all is_digit (dec_digits n)"
proof (induction n rule: dec_digits.induct)
  case (1 n)
  then show ?case by (subst dec_digits.simps) auto
qed

lemma dec_digits_nonempty [simp]: "dec_digits n \<noteq> []"
  by (subst dec_digits.simps) simp

lemma length_dec_digits: "n < 10 ^ k \<Longrightarrow> 0 < k \<Longrightarrow> length (dec_digits n) \<le> k"
proof (induction n arbitrary: k rule: dec_digits.induct)
  case (1 n)
  show ?case
  proof (cases "n < 10")
    case True
    with "1.prems" show ?thesis by (subst dec_digits.simps) simp
  next
    case False
    with "1.prems" obtain j where k: "k = Suc j"
      by (cases k) auto
    with False "1.prems" have "0 < j" by (cases j) auto
    from "1.prems" k have "n div 10 < 10 ^ j" by (simp add: div_less_iff_less_mult mult.commute)
    with "1.IH" [OF False] \<open>0 < j\<close> have "length (dec_digits (n div 10)) \<le> j" by blast
    with False k show ?thesis by (subst dec_digits.simps) simp
  qed
qed

lemma dec_value_less: "list_all is_digit s \<Longrightarrow> dec_value s < 10 ^ length s"
proof (induction s rule: rev_induct)
  case Nil
  then show ?case by simp
next
  case (snoc c s)
  then have "dec_value s < 10 ^ length s" and "digit_val c < 10"
    by (auto dest: digit_val_less)
  then have "dec_value s * 10 + digit_val c < 10 * 10 ^ length s"
    by simp
  then show ?case by (simp add: dec_value_snoc)
qed

lemma dec_value_take:
  assumes "list_all is_digit s" "d \<le> length s"
  shows "dec_value (take d s) = dec_value s div 10 ^ (length s - d)"
proof -
  have "dec_value s = dec_value (take d s) * 10 ^ (length s - d) + dec_value (drop d s)"
    using dec_value_append [of "take d s" "drop d s"] by simp
  moreover have "dec_value (drop d s) < 10 ^ (length s - d)"
    using dec_value_less [of "drop d s"] assms
    by (metis append_take_drop_id length_drop list_all_append)
  ultimately show ?thesis by simp
qed

section \<open>Tables\<close>

text \<open>An update of the rows that match leaves the columns it does not touch.\<close>

lemma map_if_same:
  assumes "\<And>x. P x \<Longrightarrow> g (f x) = g x"
  shows "map g (map (\<lambda>x. if P x then f x else x) xs) = map g xs"
  using assms by (induction xs) auto

lemma find_distinct:
  assumes "distinct (map f xs)" "x \<in> set xs"
  shows "List.find (\<lambda>y. f y = f x) xs = Some x"
  using assms by (induction xs) (auto simp: image_iff)

lemma find_None_image: "List.find (\<lambda>y. f y = k) xs = None \<longleftrightarrow> k \<notin> f ` set xs"
  by (induction xs) auto

section \<open>Strings and sorting\<close>

text \<open>\<open>Array.join\<close>, and \<open>Array.sort\<close> with a comparator. The sort is stable, so on a
  comparator that is a total preorder its result is that of an insertion sort;
  \<open>le a b\<close> stands for \<open>compare(a, b) <= 0\<close>.\<close>

fun join :: "string \<Rightarrow> string list \<Rightarrow> string" where
  "join sep [] = []"
| "join sep [x] = x"
| "join sep (x # y # ys) = x @ sep @ join sep (y # ys)"

fun js_insert :: "('a \<Rightarrow> 'a \<Rightarrow> bool) \<Rightarrow> 'a \<Rightarrow> 'a list \<Rightarrow> 'a list" where
  "js_insert le x [] = [x]"
| "js_insert le x (y # ys) = (if le x y then x # y # ys else y # js_insert le x ys)"

definition js_sort :: "('a \<Rightarrow> 'a \<Rightarrow> bool) \<Rightarrow> 'a list \<Rightarrow> 'a list" where
  "js_sort le xs = foldr (js_insert le) xs []"

lemma mset_js_insert [simp]: "mset (js_insert le x ys) = add_mset x (mset ys)"
  by (induction le x ys rule: js_insert.induct) auto

lemma js_sort_simps [simp]:
  "js_sort le [] = []" "js_sort le (x # xs) = js_insert le x (js_sort le xs)"
  by (simp_all add: js_sort_def)

lemma mset_js_sort [simp]: "mset (js_sort le xs) = mset xs"
  by (induction xs) auto

lemma set_js_sort [simp]: "set (js_sort le xs) = set xs"
  by (metis mset_js_sort set_mset_mset)

lemma length_js_sort [simp]: "length (js_sort le xs) = length xs"
  by (metis mset_js_sort size_mset)

lemma js_insert_sorted:
  assumes "\<And>a b. le a b \<or> le b a" "\<And>a b c. le a b \<Longrightarrow> le b c \<Longrightarrow> le a c" "sorted_wrt le ys"
  shows "sorted_wrt le (js_insert le x ys)"
  using assms(3)
proof (induction ys)
  case (Cons y ys)
  have "set (js_insert le x ys) = insert x (set ys)" by (metis mset_js_insert set_mset_add_mset_insert set_mset_mset)
  with Cons show ?case using assms(1,2) by auto
qed simp

lemma js_sort_sorted:
  assumes "\<And>a b. le a b \<or> le b a" "\<And>a b c. le a b \<Longrightarrow> le b c \<Longrightarrow> le a c"
  shows "sorted_wrt le (js_sort le xs)"
proof (induction xs)
  case (Cons x xs)
  from js_insert_sorted [OF assms Cons.IH, where x = x] show ?case by simp
qed simp

lemma sort_mset_eq: "mset xs = mset ys \<Longrightarrow> sort xs = sort ys"
  by (metis properties_for_sort sorted_sort mset_sort)

section \<open>Order statistics\<close>

lemma count_above_nth:
  assumes "sorted xs" "i < length xs"
  shows "length (filter (\<lambda>x. xs ! i < x) xs) \<le> length xs - Suc i"
proof -
  have "x \<le> xs ! i" if "x \<in> set (take (Suc i) xs)" for x
  proof -
    from that obtain j where "j < Suc i" "j < length xs" "x = xs ! j"
      by (auto simp: in_set_conv_nth)
    with assms show ?thesis by (simp add: sorted_nth_mono)
  qed
  then have "filter (\<lambda>x. xs ! i < x) (take (Suc i) xs) = []"
    by (auto simp: filter_empty_conv not_less)
  then have "filter (\<lambda>x. xs ! i < x) xs = filter (\<lambda>x. xs ! i < x) (drop (Suc i) xs)"
    by (metis append_Nil append_take_drop_id filter_append)
  then show ?thesis by (metis length_drop length_filter_le)
qed

lemma count_below_nth:
  assumes "sorted xs" "i < length xs"
  shows "length (filter (\<lambda>x. x < xs ! i) xs) \<le> i"
proof -
  have "xs ! i \<le> x" if "x \<in> set (drop i xs)" for x
  proof -
    from that obtain j where "j < length xs - i" "x = xs ! (i + j)"
      by (auto simp: in_set_conv_nth)
    with assms show ?thesis by (simp add: sorted_nth_mono)
  qed
  then have "filter (\<lambda>x. x < xs ! i) (drop i xs) = []"
    by (auto simp: filter_empty_conv not_less)
  then have "filter (\<lambda>x. x < xs ! i) xs = filter (\<lambda>x. x < xs ! i) (take i xs)"
    by (metis append_Nil2 append_take_drop_id filter_append)
  then show ?thesis using length_filter_le [of "\<lambda>x. x < xs ! i" "take i xs"] by simp
qed

text \<open>The middle of a list: the median both the consensus and the smoother take.\<close>

definition mid_of :: "rat list \<Rightarrow> rat" where
  "mid_of xs = (let s = sort xs; m = length s div 2
                in if length s mod 2 = 1 then s ! m else (s ! (m - 1) + s ! m) / 2)"

lemma mid_of_mset: "mset xs = mset ys \<Longrightarrow> mid_of xs = mid_of ys"
  by (simp add: mid_of_def sort_mset_eq [of xs ys])

lemma length_filter_mset: "mset xs = mset ys \<Longrightarrow> length (filter P xs) = length (filter P ys)"
  by (metis mset_filter size_mset)

lemma length_filter_mono:
  assumes "\<And>x. P x \<Longrightarrow> Q x"
  shows "length (filter P xs) \<le> length (filter Q xs)"
  using assms by (induction xs) auto

text \<open>The order statistics next to the middle lie in every interval that holds a strict
  majority of the values.\<close>

lemma majority_nth:
  assumes maj: "length xs < 2 * length (filter (\<lambda>x. a \<le> x \<and> x \<le> b) xs)"
    and i: "i < length xs" "2 * i \<le> length xs" "length xs \<le> 2 * Suc i"
  shows "a \<le> sort xs ! i \<and> sort xs ! i \<le> (b :: rat)"
proof -
  let ?s = "sort xs" and ?Q = "\<lambda>x. a \<le> x \<and> x \<le> b"
  have Q: "length (filter ?Q ?s) = length (filter ?Q xs)" by (rule length_filter_mset) simp
  have "\<not> ?s ! i < a"
  proof
    assume lt: "?s ! i < a"
    have "length (filter ?Q ?s) \<le> length (filter (\<lambda>x. ?s ! i < x) ?s)"
      using lt by (intro length_filter_mono) auto
    with count_above_nth [of ?s i] i maj Q show False by simp
  qed
  moreover have "\<not> b < ?s ! i"
  proof
    assume lt: "b < ?s ! i"
    have "length (filter ?Q ?s) \<le> length (filter (\<lambda>x. x < ?s ! i) ?s)"
      using lt by (intro length_filter_mono) auto
    with count_below_nth [of ?s i] i maj Q show False by simp
  qed
  ultimately show ?thesis by auto
qed

lemma mid_of_majority:
  assumes "length xs < 2 * length (filter (\<lambda>x. a \<le> x \<and> x \<le> b) xs)"
  shows "a \<le> mid_of xs \<and> mid_of xs \<le> b"
proof -
  have ne: "xs \<noteq> []" using assms by auto
  let ?m = "length xs div 2"
  show ?thesis
  proof (cases "odd (length xs)")
    case True
    then have "a \<le> sort xs ! ?m \<and> sort xs ! ?m \<le> b"
      using ne by (intro majority_nth [OF assms]) (auto elim: oddE)
    then show ?thesis using True by (simp add: mid_of_def odd_iff_mod_2_eq_one)
  next
    case False
    with ne have m: "0 < ?m" by (cases xs; cases "tl xs") auto
    have "a \<le> sort xs ! ?m \<and> sort xs ! ?m \<le> b"
      using False ne by (intro majority_nth [OF assms]) auto
    moreover have "a \<le> sort xs ! (?m - 1) \<and> sort xs ! (?m - 1) \<le> b"
      using False ne m by (intro majority_nth [OF assms]) auto
    ultimately show ?thesis using False by (auto simp: mid_of_def Let_def)
  qed
qed

lemma mid_of_bounds:
  assumes "xs \<noteq> []" "\<And>x. x \<in> set xs \<Longrightarrow> a \<le> x \<and> x \<le> b"
  shows "a \<le> mid_of xs \<and> mid_of xs \<le> b"
proof (rule mid_of_majority)
  have "filter (\<lambda>x. a \<le> x \<and> x \<le> b) xs = xs" using assms(2) by (auto simp: filter_id_conv)
  then show "length xs < 2 * length (filter (\<lambda>x. a \<le> x \<and> x \<le> b) xs)" using assms(1) by simp
qed

lemma mid_of_hull:
  assumes "xs \<noteq> []"
  shows "(\<exists>x \<in> set xs. x \<le> mid_of xs) \<and> (\<exists>x \<in> set xs. mid_of xs \<le> x)"
proof -
  have "Min (set xs) \<le> mid_of xs \<and> mid_of xs \<le> Max (set xs)"
    using assms by (intro mid_of_bounds) auto
  moreover have "Min (set xs) \<in> set xs" "Max (set xs) \<in> set xs" using assms by simp_all
  ultimately show ?thesis by blast
qed

section \<open>JavaScript maps\<close>

text \<open>A \<open>Map\<close> iterates in insertion order; setting a present key keeps its place. It is an
  association list with distinct keys, read through \<open>map_of\<close>.\<close>

type_synonym ('k, 'v) jmap = "('k \<times> 'v) list"

fun js_set :: "'k \<Rightarrow> 'v \<Rightarrow> ('k, 'v) jmap \<Rightarrow> ('k, 'v) jmap" where
  "js_set k v [] = [(k, v)]"
| "js_set k v ((k', v') # m) = (if k' = k then (k, v) # m else (k', v') # js_set k v m)"

definition js_has :: "'k \<Rightarrow> ('k, 'v) jmap \<Rightarrow> bool" where
  "js_has k m \<longleftrightarrow> map_of m k \<noteq> None"

definition js_values :: "('k, 'v) jmap \<Rightarrow> 'v list" where
  "js_values m = map snd m"

definition js_delete :: "'k \<Rightarrow> ('k, 'v) jmap \<Rightarrow> ('k, 'v) jmap" where
  "js_delete k m = filter (\<lambda>p. fst p \<noteq> k) m"

lemma map_of_js_set [simp]: "map_of (js_set k v m) = (map_of m)(k \<mapsto> v)"
  by (induction k v m rule: js_set.induct) (auto simp: fun_eq_iff)

lemma map_of_js_delete [simp]: "map_of (js_delete k m) = (map_of m)(k := None)"
  by (induction m) (auto simp: js_delete_def fun_eq_iff)

lemma js_set_fresh: "\<not> js_has k m \<Longrightarrow> js_set k v m = m @ [(k, v)]"
  by (induction k v m rule: js_set.induct) (auto simp: js_has_def split: if_splits)

lemma js_has_set [simp]: "js_has k (js_set k' v m) \<longleftrightarrow> k = k' \<or> js_has k m"
  by (auto simp: js_has_def)

lemma js_has_append [simp]: "js_has k (m @ [(k', v)]) \<longleftrightarrow> k = k' \<or> js_has k m"
  by (cases "map_of m k") (auto simp: js_has_def map_add_def)

lemma keys_js_set: "set (map fst (js_set k v m)) = insert k (set (map fst m))"
  by (induction k v m rule: js_set.induct) auto

lemma distinct_js_set: "distinct (map fst m) \<Longrightarrow> distinct (map fst (js_set k v m))"
proof (induction k v m rule: js_set.induct)
  case (2 k v k' v' m)
  then show ?case using keys_js_set [of k v m] by auto
qed simp

section \<open>JavaScript numbers\<close>

text \<open>Where the code tests for \<open>NaN\<close>, infinities or integrality, a \<open>number\<close> is one of
  these values; the finite ones are exact rationals.\<close>

datatype js_number = Num rat | NaN | PosInf | NegInf

fun isFinite :: "js_number \<Rightarrow> bool" where
  "isFinite (Num _) = True"
| "isFinite _ = False"

fun isInteger :: "js_number \<Rightarrow> bool" where
  "isInteger (Num q) = (snd (quotient_of q) = 1)"
| "isInteger _ = False"

fun js_less :: "js_number \<Rightarrow> js_number \<Rightarrow> bool" where
  "js_less NaN _ = False"
| "js_less _ NaN = False"
| "js_less (Num a) (Num b) = (a < b)"
| "js_less (Num _) PosInf = True"
| "js_less (Num _) NegInf = False"
| "js_less NegInf b = (b \<noteq> NegInf)"
| "js_less PosInf _ = False"

fun js_le :: "js_number \<Rightarrow> js_number \<Rightarrow> bool" where
  "js_le NaN _ = False"
| "js_le _ NaN = False"
| "js_le (Num a) (Num b) = (a \<le> b)"
| "js_le (Num _) PosInf = True"
| "js_le (Num _) NegInf = False"
| "js_le NegInf _ = True"
| "js_le PosInf b = (b = PosInf)"

text \<open>The finite value of a number that has been validated.\<close>

fun num_of :: "js_number \<Rightarrow> rat" where
  "num_of (Num q) = q"
| "num_of _ = 0"

lemma isFinite_num_of: "isFinite x \<Longrightarrow> x = Num (num_of x)"
  by (cases x) auto

lemma isInteger_isFinite: "isInteger x \<Longrightarrow> isFinite x"
  by (cases x) auto

section \<open>Gates that fail safe\<close>

text \<open>
  The contract of every component that may block a payout: an event that must block does
  block, and a blocked gate is left only by one of the release events it declares. The
  lemma is what the settlement path relies on: whatever happens after a block, an allowed
  state is reached only through a release.
\<close>

locale fail_safe_gate =
  fixes step :: "'e \<Rightarrow> 's \<Rightarrow> 's"
    and allowed :: "'s \<Rightarrow> bool"
    and bad :: "'s \<Rightarrow> 'e \<Rightarrow> bool"
    and release :: "'s \<Rightarrow> 'e \<Rightarrow> bool"
  assumes bad_blocks: "bad s e \<Longrightarrow> \<not> allowed (step e s)"
    and blocked_stays: "\<not> allowed s \<Longrightarrow> \<not> release s e \<Longrightarrow> \<not> allowed (step e s)"
begin

lemma allowed_needs_release:
  assumes "\<not> allowed s" "allowed (fold step es s)"
  shows "\<exists>pre e post. es = pre @ e # post \<and> \<not> allowed (fold step pre s) \<and> release (fold step pre s) e"
  using assms
proof (induction es arbitrary: s)
  case Nil
  then show ?case by simp
next
  case (Cons e es)
  show ?case
  proof (cases "release s e")
    case True
    then show ?thesis using Cons.prems(1) by (intro exI [of _ "[]"]) auto
  next
    case False
    have "\<not> allowed (step e s)" by (rule blocked_stays [OF Cons.prems(1) False])
    with Cons.prems(2) obtain pre e' post where
      "es = pre @ e' # post" "\<not> allowed (fold step pre (step e s))"
      "release (fold step pre (step e s)) e'"
      using Cons.IH [of "step e s"] by auto
    then show ?thesis by (intro exI [of _ "e # pre"]) auto
  qed
qed

lemma bad_then_release:
  assumes "bad s e" "allowed (fold step es (step e s))"
  shows "\<exists>pre e' post. es = pre @ e' # post \<and> release (fold step pre (step e s)) e'"
  using allowed_needs_release [OF bad_blocks [OF assms(1)] assms(2)] by blast

end

section \<open>Rows with a life cycle\<close>

text \<open>
  The contract of a table whose rows are never lost and only move on: under every call a
  row of a well-formed state has a successor in the next one. Proposals, disputes and
  review entries provide it; what one call promises then holds of any run.
\<close>

locale row_lifecycle =
  fixes step :: "'c \<Rightarrow> 's \<Rightarrow> 's"
    and ok :: "'s \<Rightarrow> bool"
    and rows :: "'s \<Rightarrow> 'r set"
    and becomes :: "'r \<Rightarrow> 'r \<Rightarrow> bool"
  assumes step_ok: "ok s \<Longrightarrow> ok (step c s)"
    and step_row: "ok s \<Longrightarrow> r \<in> rows s \<Longrightarrow> \<exists>r' \<in> rows (step c s). becomes r r'"
    and becomes_refl: "becomes r r"
    and becomes_trans: "becomes r r' \<Longrightarrow> becomes r' r'' \<Longrightarrow> becomes r r''"
begin

lemma run_ok: "ok s \<Longrightarrow> ok (fold step cs s)"
  by (induction cs arbitrary: s) (auto intro: step_ok)

lemma run_row:
  assumes "ok s" "r \<in> rows s"
  shows "\<exists>r' \<in> rows (fold step cs s). becomes r r'"
  using assms
proof (induction cs arbitrary: s r)
  case Nil
  then show ?case using becomes_refl by auto
next
  case (Cons c cs)
  from step_row [OF Cons.prems] obtain r' where "r' \<in> rows (step c s)" "becomes r r'" by blast
  then show ?case using Cons.IH [OF step_ok [OF Cons.prems(1)]] becomes_trans by fastforce
qed

end

end
