(* ===== verification/Fixed_Point.thy ===== *)
theory Fixed_Point
  imports Refract_Prelude
begin

text \<open>
  Money arithmetic: \<open>common/fixed-point.ts\<close> (1e7 fixed point on BigInt, one
  rounding step per computation, decimal printing and parsing) and
  \<open>pool/share-price.math.ts\<close> (share price, shares minted for a deposit, USDC
  returned for shares). The lemmas show that the rounding primitive is the least
  upper quotient, that printing and parsing are inverse up to the truncation asked
  for, and that a deposit followed by a withdrawal never gains.
\<close>

section \<open>Rounding division\<close>

definition FIXED_POINT_DECIMALS :: int where
  "FIXED_POINT_DECIMALS = 7"

definition FIXED_POINT_ONE :: int where
  "FIXED_POINT_ONE = 10000000"

definition BPS_ONE :: int where
  "BPS_ONE = 10000"

definition divRoundUp :: "int \<Rightarrow> int \<Rightarrow> int result" where
  "divRoundUp numerator denominator =
     (if denominator \<le> 0 then Inl (RangeErr ''divRoundUp: denominator must be positive'')
      else if numerator < 0 then Inl (RangeErr ''divRoundUp: numerator must be non-negative'')
      else Inr (big_div (numerator + denominator - 1) denominator))"

definition mulByBps :: "int \<Rightarrow> int \<Rightarrow> int result" where
  "mulByBps amount bps = divRoundUp (amount * bps) BPS_ONE"

definition mulByScaledRate :: "int \<Rightarrow> int \<Rightarrow> int \<Rightarrow> int result" where
  "mulByScaledRate amount rate scale = divRoundUp (amount * rate) scale"

definition mulDivRoundUp :: "int \<Rightarrow> int \<Rightarrow> int \<Rightarrow> int result" where
  "mulDivRoundUp amount numerator denominator = divRoundUp (amount * numerator) denominator"

section \<open>Printing\<close>

definition formatFixed :: "int \<Rightarrow> int \<Rightarrow> string" where
  "formatFixed v decimals =
     (let negative = v < 0;
          a = (if negative then - v else v);
          whole = big_div a FIXED_POINT_ONE;
          fraction = big_mod a FIXED_POINT_ONE;
          fractionStr = pad_start (nat FIXED_POINT_DECIMALS) (CHR ''0'') (big_to_string fraction);
          trimmed = (if decimals \<ge> FIXED_POINT_DECIMALS then fractionStr
                     else take (nat decimals) fractionStr);
          sign = (if negative then ''-'' else '''')
      in if decimals > 0 then sign @ big_to_string whole @ ''.'' @ trimmed
         else sign @ big_to_string whole)"

definition formatPercent :: "int \<Rightarrow> int \<Rightarrow> string" where
  "formatPercent v decimals =
     (let scaled = v * 100;
          whole = big_div scaled FIXED_POINT_ONE;
          fraction = big_mod scaled FIXED_POINT_ONE;
          fractionStr = pad_start (nat FIXED_POINT_DECIMALS) (CHR ''0'') (big_to_string fraction);
          trimmed = (if decimals \<ge> FIXED_POINT_DECIMALS then fractionStr
                     else take (nat decimals) fractionStr)
      in if decimals > 0 then big_to_string whole @ ''.'' @ trimmed
         else big_to_string whole)"

section \<open>Parsing\<close>

text \<open>\<open>String.trim\<close> on code units below 256, the regular expression
  \<open>^-?\d+(\.\d+)?$\<close> and the first two fields of \<open>split(".")\<close>.\<close>

definition js_space :: "char \<Rightarrow> bool" where
  "js_space c \<longleftrightarrow> (of_char c :: nat) \<in> {9, 10, 11, 12, 13, 32, 160}"

definition js_trim :: "string \<Rightarrow> string" where
  "js_trim s = rev (dropWhile js_space (rev (dropWhile js_space s)))"

definition decimal_body :: "string \<Rightarrow> bool" where
  "decimal_body s =
     (let w = takeWhile is_digit s; r = dropWhile is_digit s
      in w \<noteq> [] \<and>
         (case r of [] \<Rightarrow> True
          | c # f \<Rightarrow> c = CHR ''.'' \<and> f \<noteq> [] \<and> list_all is_digit f))"

definition strip_minus :: "string \<Rightarrow> string" where
  "strip_minus s = (case s of [] \<Rightarrow> [] | c # t \<Rightarrow> if c = CHR ''-'' then t else s)"

definition decimal_re :: "string \<Rightarrow> bool" where
  "decimal_re s = decimal_body (strip_minus s)"

definition split_dot :: "string \<Rightarrow> string \<times> string option" where
  "split_dot s =
     (takeWhile (\<lambda>c. c \<noteq> CHR ''.'') s,
      case dropWhile (\<lambda>c. c \<noteq> CHR ''.'') s of
        [] \<Rightarrow> None
      | _ # t \<Rightarrow> Some (takeWhile (\<lambda>c. c \<noteq> CHR ''.'') t))"

definition parseFixed :: "string \<Rightarrow> int result" where
  "parseFixed v =
     (let trimmed = js_trim v
      in if \<not> decimal_re trimmed then Inl (RangeErr ''parseFixed: invalid decimal string'')
         else let negative = (case trimmed of [] \<Rightarrow> False | c # _ \<Rightarrow> c = CHR ''-'');
                  unsigned = (if negative then tl trimmed else trimmed);
                  (wholePart, fractionField) = split_dot unsigned;
                  fractionPart = (case fractionField of None \<Rightarrow> [] | Some f \<Rightarrow> f);
                  paddedFraction = take (nat FIXED_POINT_DECIMALS)
                    (pad_end (nat FIXED_POINT_DECIMALS) (CHR ''0'') fractionPart);
                  r = int (dec_value wholePart) * FIXED_POINT_ONE
                      + int (dec_value (if paddedFraction = [] then ''0'' else paddedFraction))
              in Inr (if negative then - r else r))"

section \<open>Share price\<close>

definition SHARE_PRICE_SCALE :: int where
  "SHARE_PRICE_SCALE = 10000"

definition divideRoundNearest :: "int \<Rightarrow> int \<Rightarrow> int result" where
  "divideRoundNearest numerator denominator =
     (if denominator \<le> 0 then Inl (RangeErr ''Denominator must be greater than zero'')
      else Inr (big_div (numerator + big_div denominator 2) denominator))"

definition calculatePoolShareValue :: "int \<Rightarrow> int \<Rightarrow> int result" where
  "calculatePoolShareValue shares sharePriceScaled =
     divideRoundNearest (shares * sharePriceScaled) SHARE_PRICE_SCALE"

definition calculateSharesOut :: "int \<Rightarrow> int \<Rightarrow> int \<Rightarrow> int result" where
  "calculateSharesOut amount totalShares totalUsdc =
     (if totalUsdc = 0 then Inl (RangeErr ''Division by zero'')
      else Inr (big_div (amount * totalShares) totalUsdc))"

definition calculateUsdcOut :: "int \<Rightarrow> int \<Rightarrow> int \<Rightarrow> int result" where
  "calculateUsdcOut shares totalUsdc totalShares =
     (if totalShares = 0 then Inl (RangeErr ''Division by zero'')
      else Inr (big_div (shares * totalUsdc) totalShares))"

definition formatFixedPercent :: "int \<Rightarrow> int \<Rightarrow> string result" where
  "formatFixedPercent shares totalShares =
     then_result (divideRoundNearest (shares * 1000000) totalShares)
       (\<lambda>scaledPercent.
          Inr (big_to_string (big_div scaledPercent 10000) @ ''.''
               @ pad_start 4 (CHR ''0'') (big_to_string (big_mod scaledPercent 10000))))"

section \<open>Lemmas\<close>

lemma ceil_div_le_iff:
  fixes n d k :: int
  assumes "0 < d"
  shows "(n + d - 1) div d \<le> k \<longleftrightarrow> n \<le> k * d"
proof -
  have "(n + d - 1) div d \<le> k \<longleftrightarrow> \<not> k + 1 \<le> (n + d - 1) div d" by linarith
  also have "\<dots> \<longleftrightarrow> \<not> (k + 1) * d \<le> n + d - 1"
    using le_div_iff_mult_le_int [OF assms, of "k + 1" "n + d - 1"] by blast
  also have "\<dots> \<longleftrightarrow> n \<le> k * d" by (auto simp: algebra_simps)
  finally show ?thesis .
qed

lemma divRoundUp_ok [spec_simps]:
  "0 < d \<Longrightarrow> 0 \<le> n \<Longrightarrow> divRoundUp n d = Inr ((n + d - 1) div d)"
  by (simp add: divRoundUp_def big_div_nonneg)

lemma js_trim_id:
  "s \<noteq> [] \<Longrightarrow> \<not> js_space (hd s) \<Longrightarrow> \<not> js_space (last s) \<Longrightarrow> js_trim s = s"
  using dropWhile_eq_self_iff [of js_space s] dropWhile_eq_self_iff [of js_space "rev s"]
  by (simp add: js_trim_def hd_rev)

lemma digit_not_space: "is_digit c \<Longrightarrow> \<not> js_space c"
  by (auto simp: is_digit_def js_space_def)

lemma minus_not_space: "\<not> js_space (CHR ''-'')"
  by (simp add: js_space_def)

lemma digits_no_dot: "list_all is_digit s \<Longrightarrow> c \<in> set s \<Longrightarrow> c \<noteq> CHR ''.''"
  by (auto simp: list_all_iff)

lemma digits_no_minus: "list_all is_digit s \<Longrightarrow> s \<noteq> [] \<Longrightarrow> hd s \<noteq> CHR ''-''"
  by (cases s) auto

lemma split_dot_digits:
  "list_all is_digit w \<Longrightarrow> list_all is_digit f \<Longrightarrow>
   split_dot (w @ CHR ''.'' # f) = (w, Some f)"
  by (auto simp: split_dot_def takeWhile_append2 dropWhile_append2 digits_no_dot
        intro!: takeWhile_eq_all_conv [THEN iffD2])

lemma decimal_body_digits:
  "list_all is_digit w \<Longrightarrow> w \<noteq> [] \<Longrightarrow> list_all is_digit f \<Longrightarrow> f \<noteq> [] \<Longrightarrow>
   decimal_body (w @ CHR ''.'' # f)"
  by (simp add: decimal_body_def list_all_iff takeWhile_append2 dropWhile_append2)

lemma formatFixed_shape:
  fixes v d :: int
  assumes "0 < d"
  defines "a \<equiv> nat \<bar>v\<bar>"
  defines "w \<equiv> dec_digits (a div 10 ^ 7)"
    and "f \<equiv> take (nat d) (pad_start 7 (CHR ''0'') (dec_digits (a mod 10 ^ 7)))"
  shows "formatFixed v d = (if v < 0 then ''-'' else '''') @ w @ CHR ''.'' # f"
    and "list_all is_digit w" "w \<noteq> []" "list_all is_digit f" "f \<noteq> []"
    and "dec_value (pad_end 7 (CHR ''0'') f) = a mod 10 ^ 7 div 10 ^ (7 - nat d) * 10 ^ (7 - nat d)"
    and "length (pad_end 7 (CHR ''0'') f) = 7"
proof -
  let ?p = "pad_start 7 (CHR ''0'') (dec_digits (a mod 10 ^ 7))"
  have len: "length ?p = 7"
    using length_dec_digits [of "a mod 10 ^ 7" 7] by (simp add: pad_start_def)
  have dig: "list_all is_digit ?p"
    by (rule digits_pad_start) (rule digits_dec_digits)
  show "list_all is_digit w" "w \<noteq> []" by (simp_all add: w_def)
  show "list_all is_digit f"
    using dig by (auto simp: f_def list_all_iff dest: in_set_takeD)
  show "f \<noteq> []"
    using len assms(1) by (auto simp: f_def)
  have lf: "length f = min (nat d) 7" using len by (simp add: f_def)
  show "length (pad_end 7 (CHR ''0'') f) = 7" using lf by (simp add: pad_end_def)
  have "dec_value f = a mod 10 ^ 7 div 10 ^ (7 - nat d)"
  proof (cases "nat d \<le> 7")
    case True
    then show ?thesis using dec_value_take [OF dig, of "nat d"] len by (simp add: f_def)
  next
    case False
    then show ?thesis using len by (simp add: f_def)
  qed
  moreover have "7 - length f = 7 - nat d" using lf by simp
  ultimately show "dec_value (pad_end 7 (CHR ''0'') f)
      = a mod 10 ^ 7 div 10 ^ (7 - nat d) * 10 ^ (7 - nat d)"
    by (simp add: pad_end_def dec_value_append)
  have "\<bar>v\<bar> div 10000000 = int (a div 10 ^ 7)" "\<bar>v\<bar> mod 10000000 = int (a mod 10 ^ 7)"
    by (simp_all add: a_def zdiv_int zmod_int)
  then have whole: "big_to_string (big_div \<bar>v\<bar> FIXED_POINT_ONE) = w"
    and frac: "big_to_string (big_mod \<bar>v\<bar> FIXED_POINT_ONE) = dec_digits (a mod 10 ^ 7)"
    by (simp_all only: FIXED_POINT_ONE_def big_div_nonneg big_mod_nonneg abs_ge_zero
          zero_less_numeral big_to_string_def of_nat_less_0_iff if_False nat_int w_def)
  have abs: "(if v < 0 then - v else v) = \<bar>v\<bar>" by (rule abs_if [symmetric])
  have trimmed: "(if FIXED_POINT_DECIMALS \<le> d then ?p else take (nat d) ?p) = f"
    using len by (simp add: FIXED_POINT_DECIMALS_def f_def nat_le_eq_zle)
  have seven: "nat FIXED_POINT_DECIMALS = 7" by (simp add: FIXED_POINT_DECIMALS_def)
  show "formatFixed v d = (if v < 0 then ''-'' else '''') @ w @ CHR ''.'' # f"
    unfolding formatFixed_def Let_def abs whole frac seven trimmed
    using assms(1) by (simp only: if_True append_Cons append_Nil)
qed

lemma parseFixed_decimal:
  assumes "list_all is_digit w" "w \<noteq> []" "list_all is_digit f" "f \<noteq> []"
  shows "parseFixed ((if neg then ''-'' else '''') @ w @ CHR ''.'' # f) =
    Inr ((if neg then -1 else 1) *
      (int (dec_value w) * FIXED_POINT_ONE
       + int (dec_value (take 7 (pad_end 7 (CHR ''0'') f)))))"
proof -
  let ?u = "w @ CHR ''.'' # f"
  let ?s = "(if neg then ''-'' else '''') @ ?u"
  have hd: "\<not> js_space (hd ?s)"
    using assms digit_not_space minus_not_space by (cases w) auto
  have "last ?s = last f" using assms by simp
  moreover have "is_digit (last f)" using assms by (simp add: list_all_iff)
  ultimately have last: "\<not> js_space (last ?s)" by (simp add: digit_not_space)
  have trim: "js_trim ?s = ?s" using hd last by (intro js_trim_id) auto
  have nm: "hd ?u \<noteq> CHR ''-''" using digits_no_minus [OF assms(1,2)] assms(2) by simp
  then have strip: "strip_minus ?s = ?u"
    using assms(2) by (cases w) (auto simp: strip_minus_def)
  have neg: "(case ?s of [] \<Rightarrow> False | c # _ \<Rightarrow> c = CHR ''-'') = neg"
    using nm assms(2) by (cases w) auto
  have uns: "(if neg then tl ?s else ?s) = ?u" by simp
  have re: "decimal_re ?s"
    unfolding decimal_re_def strip using assms by (rule decimal_body_digits)
  have ne: "take 7 (pad_end 7 (CHR ''0'') f) \<noteq> []"
    using assms by (simp add: pad_end_def)
  show ?thesis
    unfolding parseFixed_def Let_def trim neg uns split_dot_digits [OF assms(1,3)]
    using re ne by (simp add: FIXED_POINT_DECIMALS_def)
qed

lemma trunc_split:
  fixes a k :: nat
  assumes "k \<le> 7"
  shows "a div 10 ^ 7 * 10 ^ 7 + a mod 10 ^ 7 div 10 ^ k * 10 ^ k = a div 10 ^ k * 10 ^ k"
proof -
  have p: "(10::nat) ^ 7 = 10 ^ (7 - k) * 10 ^ k" using assms by (simp flip: power_add)
  have "a div 10 ^ k = (a div 10 ^ 7 * 10 ^ 7 + a mod 10 ^ 7) div 10 ^ k" by simp
  also have "\<dots> = (a mod 10 ^ 7 + (a div 10 ^ 7 * 10 ^ (7 - k)) * 10 ^ k) div 10 ^ k"
    unfolding p by (simp add: algebra_simps)
  also have "\<dots> = a div 10 ^ 7 * 10 ^ (7 - k) + a mod 10 ^ 7 div 10 ^ k"
    by (subst div_mult_self1) simp_all
  finally have "a div 10 ^ k * 10 ^ k
      = a div 10 ^ 7 * (10 ^ (7 - k) * 10 ^ k) + a mod 10 ^ 7 div 10 ^ k * 10 ^ k"
    by (simp only: algebra_simps)
  then show ?thesis using p by simp
qed

section \<open>Properties\<close>

text \<open>Money never rounds against the pool: on valid operands the rounding
  primitive returns the least quotient that covers the exact amount, so
  \<open>mulDivRoundUp\<close> charges at least \<open>amount * numerator / denominator\<close>, and any
  integer charge that covers it is no smaller; a non-positive denominator or a
  negative product is an error, never a value.\<close>

theorem mulDivRoundUp_least_cover:
  "mulDivRoundUp amount num den = Inr q \<longleftrightarrow>
     0 < den \<and> 0 \<le> amount * num \<and> (\<forall>k. amount * num \<le> k * den \<longleftrightarrow> q \<le> k)"
proof (cases "0 < den \<and> 0 \<le> amount * num")
  case True
  then have "mulDivRoundUp amount num den = Inr ((amount * num + den - 1) div den)"
    by (simp add: mulDivRoundUp_def divRoundUp_ok)
  moreover have "amount * num \<le> k * den \<longleftrightarrow> (amount * num + den - 1) div den \<le> k" for k
    using True by (simp add: ceil_div_le_iff)
  ultimately show ?thesis using True by (auto intro: order_antisym)
next
  case False
  then show ?thesis by (auto simp: mulDivRoundUp_def divRoundUp_def)
qed

text \<open>C34. Printing and parsing are inverse up to the truncation asked for: for every
  number of decimals \<open>d > 0\<close>, parsing the printed value succeeds and returns the
  value truncated towards zero to a multiple of \<open>10 ^ (7 - d)\<close>; with the default of
  seven decimals it returns the value itself.\<close>

theorem parseFixed_formatFixed:
  assumes "0 < d"
  shows "parseFixed (formatFixed v d) =
           Inr (sgn v * (\<bar>v\<bar> div 10 ^ (7 - nat d) * 10 ^ (7 - nat d)))"
proof -
  define a where "a = nat \<bar>v\<bar>"
  define w where "w = dec_digits (a div 10 ^ 7)"
  define f where "f = take (nat d) (pad_start 7 (CHR ''0'') (dec_digits (a mod 10 ^ 7)))"
  define k where "k = 7 - nat d"
  note shape = formatFixed_shape [OF assms, where v = v, folded a_def, folded w_def f_def k_def]
  have "int (dec_value w) * FIXED_POINT_ONE + int (dec_value (take 7 (pad_end 7 (CHR ''0'') f)))
      = int (a div 10 ^ 7 * 10 ^ 7 + a mod 10 ^ 7 div 10 ^ k * 10 ^ k)"
    using shape(6,7) by (simp add: w_def FIXED_POINT_ONE_def)
  also have "\<dots> = int (a div 10 ^ k * 10 ^ k)"
    using trunc_split [of k a] by (simp add: k_def)
  also have "\<dots> = \<bar>v\<bar> div 10 ^ k * 10 ^ k" by (simp add: a_def zdiv_int)
  finally have val: "int (dec_value w) * FIXED_POINT_ONE
      + int (dec_value (take 7 (pad_end 7 (CHR ''0'') f))) = \<bar>v\<bar> div 10 ^ k * 10 ^ k" .
  show ?thesis
    unfolding shape(1) parseFixed_decimal [OF shape(2-5)] val k_def [symmetric]
    by (auto simp: sgn_if)
qed

theorem parseFixed_formatFixed_witness:
  "(0::int) < 7 \<and> parseFixed (formatFixed (-123456789) 7) = Inr (-123456789)"
  using parseFixed_formatFixed [of 7 "-123456789"] by simp

text \<open>A deposit followed by a withdrawal never gains: the shares minted for
  \<open>amount\<close>, redeemed against the pool after that deposit, return at most \<open>amount\<close>,
  and the deposit does not lower the USDC backing of the shares already issued.\<close>

theorem deposit_then_withdraw_no_gain:
  assumes "0 \<le> amount" "0 < totalShares" "0 < totalUsdc"
    and "calculateSharesOut amount totalShares totalUsdc = Inr s"
  shows "(\<exists>u. calculateUsdcOut s (totalUsdc + amount) (totalShares + s) = Inr u \<and> u \<le> amount)
    \<and> totalUsdc * (totalShares + s) \<le> (totalUsdc + amount) * totalShares"
proof -
  have s: "s = amount * totalShares div totalUsdc"
    using assms by (simp add: calculateSharesOut_def big_div_nonneg)
  have s0: "0 \<le> s" using assms unfolding s by (simp add: pos_imp_zdiv_nonneg_iff)
  have le: "s * totalUsdc \<le> amount * totalShares"
    using le_div_iff_mult_le_int [OF assms(3), of s "amount * totalShares"] s by simp
  have pos: "0 < totalShares + s" using assms s0 by simp
  have "s * (totalUsdc + amount) \<le> amount * (totalShares + s)"
    using le by (simp add: algebra_simps)
  then have "s * (totalUsdc + amount) div (totalShares + s)
      \<le> amount * (totalShares + s) div (totalShares + s)"
    using pos by (rule zdiv_mono1)
  moreover have "calculateUsdcOut s (totalUsdc + amount) (totalShares + s)
      = Inr (s * (totalUsdc + amount) div (totalShares + s))"
    using pos s0 assms by (simp add: calculateUsdcOut_def big_div_nonneg)
  moreover have "amount * (totalShares + s) div (totalShares + s) = amount" using pos by simp
  moreover have "totalUsdc * (totalShares + s) \<le> (totalUsdc + amount) * totalShares"
    using le by (simp add: algebra_simps)
  ultimately show ?thesis by simp
qed

end
