(* ===== verification/Reputation.thy ===== *)
theory Reputation
  imports Refract_Prelude "HOL-Library.Char_ord" "HOL-Library.List_Lexorder"
begin

text \<open>
  Operator reputation (\<open>oracle/reputation.ts\<close>): a pure score in basis points over an
  operator's history, the eligibility rule and the bounded consensus weight. All
  quantities are integers below \<open>2^53\<close>, for which \<open>Math.floor(a / b)\<close> is \<open>a div b\<close>.
  The lemmas show the range of every component, monotonicity in the quality of the
  history, independence of the input order, and that no eligible operator holds more
  than half of the weight of a feed that reached quorum.
\<close>

definition BPS :: int where "BPS = 10000"
definition HALF_LIFE_MS :: int where "HALF_LIFE_MS = 7 * 24 * 60 * 60 * 1000"
definition HALF_LIFE_STEPS :: int where "HALF_LIFE_STEPS = 14"
definition PRIOR_WEIGHT :: int where "PRIOR_WEIGHT = BPS"
definition TENURE_FULL_MS :: int where "TENURE_FULL_MS = 90 * 24 * 60 * 60 * 1000"
definition MIN_HISTORY_OBSERVATIONS :: nat where "MIN_HISTORY_OBSERVATIONS = 30"
definition ELIGIBILITY_THRESHOLD_BPS :: int where "ELIGIBILITY_THRESHOLD_BPS = 5000"
definition MIN_CONSENSUS_WEIGHT_BPS :: int where "MIN_CONSENSUS_WEIGHT_BPS = 1000"
definition MAX_CONSENSUS_WEIGHT_BPS :: int where "MAX_CONSENSUS_WEIGHT_BPS = 2000"
definition MIN_QUORUM_OPERATORS :: nat where "MIN_QUORUM_OPERATORS = 3"

record operator_observation =
  ob_observedAt :: time_ms
  ob_deviationBps :: int
  ob_heartbeatMet :: bool
  ob_excused :: bool

datatype dispute_outcome = Upheld | Rejected

record operator_dispute =
  od_resolvedAt :: time_ms
  od_outcome :: dispute_outcome

record operator_history =
  oh_operatorId :: string
  oh_registeredAt :: time_ms
  oh_observations :: "operator_observation list"
  oh_disputes :: "operator_dispute list"

record reputation_score =
  rs_operatorId :: string
  rs_score :: int
  rs_accuracy :: int
  rs_availability :: int
  rs_disputes :: int
  rs_tenure :: int
  rs_observationCount :: nat
  rs_eligible :: bool
  rs_weight :: int
  rs_asOf :: time_ms

datatype quorum_status = QuorumOk | QuorumInsufficient | NoEligibleOperators

record weighted_quorum =
  wq_status :: quorum_status
  wq_eligibleCount :: nat
  wq_scores :: "reputation_score list"

definition decayWeight :: "int \<Rightarrow> int" where
  "decayWeight ageMs =
     (let steps = max 0 ageMs div HALF_LIFE_MS
      in if steps \<ge> HALF_LIFE_STEPS then 0 else BPS div 2 ^ nat steps)"

fun decayedSums :: "(time_ms \<times> int) list \<Rightarrow> time_ms \<Rightarrow> int \<Rightarrow> int \<Rightarrow> int \<times> int" where
  "decayedSums [] now sumWeight sumValue = (sumWeight, sumValue)"
| "decayedSums ((t, v) # samples) now sumWeight sumValue =
     (if t > now then decayedSums samples now sumWeight sumValue
      else let weight = decayWeight (now - t)
           in decayedSums samples now (sumWeight + weight) (sumValue + weight * v))"

definition decayedMean :: "(time_ms \<times> int) list \<Rightarrow> int \<Rightarrow> time_ms \<Rightarrow> int" where
  "decayedMean samples prior now =
     (let (sumWeight, sumValue) = decayedSums samples now PRIOR_WEIGHT (PRIOR_WEIGHT * prior)
      in sumValue div sumWeight)"

definition clampBps :: "int \<Rightarrow> int" where
  "clampBps v = min BPS (max 0 v)"

definition consensusWeight :: "int \<Rightarrow> int" where
  "consensusWeight score =
     (let span = MAX_CONSENSUS_WEIGHT_BPS - MIN_CONSENSUS_WEIGHT_BPS;
          headroom = BPS - ELIGIBILITY_THRESHOLD_BPS;
          position = min headroom (max 0 (score - ELIGIBILITY_THRESHOLD_BPS))
      in MIN_CONSENSUS_WEIGHT_BPS + position * span div headroom)"

definition counted_observations :: "operator_history \<Rightarrow> time_ms \<Rightarrow> operator_observation list" where
  "counted_observations h now =
     filter (\<lambda>ob. \<not> ob_excused ob \<and> ob_observedAt ob \<le> now) (oh_observations h)"

definition scoreOperator :: "operator_history \<Rightarrow> time_ms \<Rightarrow> reputation_score" where
  "scoreOperator h now =
     (let observations = counted_observations h now;
          accuracy = decayedMean
            (map (\<lambda>ob. (ob_observedAt ob, BPS - clampBps (ob_deviationBps ob))) observations) 0 now;
          availability = decayedMean
            (map (\<lambda>ob. (ob_observedAt ob, if ob_heartbeatMet ob then BPS else 0)) observations) 0 now;
          disputes = decayedMean
            (map (\<lambda>d. (od_resolvedAt d, if od_outcome d = Upheld then 0 else BPS)) (oh_disputes h))
            BPS now;
          tenure = clampBps ((now - oh_registeredAt h) * BPS div TENURE_FULL_MS);
          score = (40 * accuracy + 25 * availability + 25 * disputes + 10 * tenure) div 100;
          eligible = (length observations \<ge> MIN_HISTORY_OBSERVATIONS
                      \<and> score \<ge> ELIGIBILITY_THRESHOLD_BPS)
      in \<lparr>rs_operatorId = oh_operatorId h, rs_score = score, rs_accuracy = accuracy,
          rs_availability = availability, rs_disputes = disputes, rs_tenure = tenure,
          rs_observationCount = length observations, rs_eligible = eligible,
          rs_weight = (if eligible then consensusWeight score else 0), rs_asOf = now\<rparr>)"

definition weightOperators :: "operator_history list \<Rightarrow> time_ms \<Rightarrow> weighted_quorum" where
  "weightOperators histories now =
     (let scores = sort_key rs_operatorId (map (\<lambda>h. scoreOperator h now) histories);
          eligibleCount = length (filter rs_eligible scores);
          status = (if eligibleCount = 0 then NoEligibleOperators
                    else if eligibleCount < MIN_QUORUM_OPERATORS then QuorumInsufficient
                    else QuorumOk)
      in \<lparr>wq_status = status, wq_eligibleCount = eligibleCount, wq_scores = scores\<rparr>)"

lemmas reputation_consts =
  BPS_def HALF_LIFE_MS_def HALF_LIFE_STEPS_def PRIOR_WEIGHT_def TENURE_FULL_MS_def
  ELIGIBILITY_THRESHOLD_BPS_def MIN_CONSENSUS_WEIGHT_BPS_def MAX_CONSENSUS_WEIGHT_BPS_def
  MIN_QUORUM_OPERATORS_def

section \<open>The decayed mean\<close>

definition sample_weight :: "time_ms \<Rightarrow> time_ms \<times> int \<Rightarrow> int" where
  "sample_weight now s = (if fst s > now then 0 else decayWeight (now - fst s))"

lemma decayWeight_nonneg: "0 \<le> decayWeight a"
  by (simp add: decayWeight_def Let_def reputation_consts pos_imp_zdiv_nonneg_iff)

lemma decayWeight_antimono:
  assumes "a \<le> b"
  shows "decayWeight b \<le> decayWeight a"
proof -
  let ?s = "\<lambda>x::int. max 0 x div HALF_LIFE_MS"
  have le: "?s a \<le> ?s b" and nn: "0 \<le> ?s a"
    using assms by (simp_all add: HALF_LIFE_MS_def zdiv_mono1 pos_imp_zdiv_nonneg_iff)
  have pow: "(2::int) ^ nat (?s a) \<le> 2 ^ nat (?s b)"
    using le by (intro power_increasing) auto
  have "BPS div 2 ^ nat (?s b) \<le> BPS div 2 ^ nat (?s a)"
    using pow by (intro zdiv_mono2) (auto simp: BPS_def)
  moreover have "0 \<le> BPS div 2 ^ nat (?s a)"
    by (simp add: BPS_def pos_imp_zdiv_nonneg_iff)
  ultimately show ?thesis using le by (simp add: decayWeight_def Let_def)
qed

lemma sample_weight_nonneg: "0 \<le> sample_weight now s"
  by (simp add: sample_weight_def decayWeight_nonneg)

lemma decayedSums_eq:
  "decayedSums samples now W V =
     (W + (\<Sum>s\<leftarrow>samples. sample_weight now s), V + (\<Sum>s\<leftarrow>samples. sample_weight now s * snd s))"
  by (induction samples now W V rule: decayedSums.induct)
     (auto simp: sample_weight_def Let_def)

lemma decayedMean_eq:
  "decayedMean samples prior now =
     (PRIOR_WEIGHT * prior + (\<Sum>s\<leftarrow>samples. sample_weight now s * snd s))
       div (PRIOR_WEIGHT + (\<Sum>s\<leftarrow>samples. sample_weight now s))"
  by (simp add: decayedMean_def decayedSums_eq)

lemma weights_nonneg: "0 \<le> (\<Sum>s\<leftarrow>samples. sample_weight now s)"
  by (induction samples) (simp_all add: sample_weight_nonneg)

lemma weighted_values_bounds:
  assumes "\<forall>s\<in>set samples. 0 \<le> snd s \<and> snd s \<le> BPS"
  shows "0 \<le> (\<Sum>s\<leftarrow>samples. sample_weight now s * snd s)
    \<and> (\<Sum>s\<leftarrow>samples. sample_weight now s * snd s) \<le> BPS * (\<Sum>s\<leftarrow>samples. sample_weight now s)"
  using assms
proof (induction samples)
  case Nil
  then show ?case by simp
next
  case (Cons s samples)
  have "0 \<le> sample_weight now s * snd s"
    using Cons.prems sample_weight_nonneg by simp
  moreover have "sample_weight now s * snd s \<le> sample_weight now s * BPS"
    using Cons.prems sample_weight_nonneg by (intro mult_left_mono) auto
  ultimately show ?case using Cons by (auto simp: algebra_simps)
qed

lemma decayedMean_bounds:
  assumes "\<forall>s\<in>set samples. 0 \<le> snd s \<and> snd s \<le> BPS" "0 \<le> prior" "prior \<le> BPS"
  shows "0 \<le> decayedMean samples prior now \<and> decayedMean samples prior now \<le> BPS"
proof -
  let ?W = "\<Sum>s\<leftarrow>samples. sample_weight now s"
  let ?V = "\<Sum>s\<leftarrow>samples. sample_weight now s * snd s"
  note b = weighted_values_bounds [OF assms(1), of now] weights_nonneg [of now samples]
  have pos: "0 < PRIOR_WEIGHT + ?W" using b by (simp add: reputation_consts)
  have "PRIOR_WEIGHT * prior + ?V \<le> BPS * (PRIOR_WEIGHT + ?W)"
    using b assms by (simp add: reputation_consts algebra_simps)
  then have "(PRIOR_WEIGHT * prior + ?V) div (PRIOR_WEIGHT + ?W)
      \<le> BPS * (PRIOR_WEIGHT + ?W) div (PRIOR_WEIGHT + ?W)"
    using pos by (rule zdiv_mono1)
  moreover have "0 \<le> (PRIOR_WEIGHT * prior + ?V) div (PRIOR_WEIGHT + ?W)"
    using pos b assms by (simp add: pos_imp_zdiv_nonneg_iff reputation_consts)
  ultimately show ?thesis using pos by (simp add: decayedMean_eq)
qed

lemma div_mono_both:
  fixes a a' b b' :: int
  assumes "0 \<le> a'" "a \<le> a'" "0 < b'" "b' \<le> b"
  shows "a div b \<le> a' div b'"
proof -
  have "a div b \<le> a' div b" using assms by (intro zdiv_mono1) auto
  also have "\<dots> \<le> a' div b'" using assms by (intro zdiv_mono2) auto
  finally show ?thesis .
qed

lemma decayedMean_mono:
  assumes "0 \<le> prior"
    and "0 \<le> (\<Sum>s\<leftarrow>ys. sample_weight now s * snd s)"
    and "(\<Sum>s\<leftarrow>xs. sample_weight now s * snd s) \<le> (\<Sum>s\<leftarrow>ys. sample_weight now s * snd s)"
    and "(\<Sum>s\<leftarrow>ys. sample_weight now s) \<le> (\<Sum>s\<leftarrow>xs. sample_weight now s)"
  shows "decayedMean xs prior now \<le> decayedMean ys prior now"
  unfolding decayedMean_eq
  using assms weights_nonneg [of now ys]
  by (intro div_mono_both) (auto simp: reputation_consts)

lemma clampBps_bounds: "0 \<le> clampBps v \<and> clampBps v \<le> BPS"
  by (simp add: clampBps_def BPS_def)

lemma clampBps_mono: "a \<le> b \<Longrightarrow> clampBps a \<le> clampBps b"
  by (simp add: clampBps_def)

lemma consensusWeight_bounds:
  "MIN_CONSENSUS_WEIGHT_BPS \<le> consensusWeight s \<and> consensusWeight s \<le> MAX_CONSENSUS_WEIGHT_BPS"
proof -
  let ?p = "min 5000 (max 0 (s - 5000)) :: int"
  have "0 \<le> ?p * 1000 div 5000" by (simp add: pos_imp_zdiv_nonneg_iff)
  moreover have "?p * 1000 div 5000 \<le> 5000 * 1000 div 5000" by (intro zdiv_mono1) auto
  ultimately show ?thesis
    by (simp add: consensusWeight_def Let_def reputation_consts)
qed

lemma consensusWeight_mono: "s \<le> t \<Longrightarrow> consensusWeight s \<le> consensusWeight t"
  by (simp add: consensusWeight_def Let_def reputation_consts zdiv_mono1)

section \<open>Ranges, order independence and monotonicity\<close>

text \<open>The sample lists \<open>scoreOperator\<close> averages.\<close>

abbreviation accuracy_samples :: "operator_observation list \<Rightarrow> (time_ms \<times> int) list" where
  "accuracy_samples obs \<equiv> map (\<lambda>ob. (ob_observedAt ob, BPS - clampBps (ob_deviationBps ob))) obs"

abbreviation availability_samples :: "operator_observation list \<Rightarrow> (time_ms \<times> int) list" where
  "availability_samples obs \<equiv> map (\<lambda>ob. (ob_observedAt ob, if ob_heartbeatMet ob then BPS else 0)) obs"

abbreviation dispute_samples :: "operator_dispute list \<Rightarrow> (time_ms \<times> int) list" where
  "dispute_samples ds \<equiv> map (\<lambda>d. (od_resolvedAt d, if od_outcome d = Upheld then 0 else BPS)) ds"

lemma scoreOperator_sel [spec_simps]:
  "rs_accuracy (scoreOperator h now) =
     decayedMean (accuracy_samples (counted_observations h now)) 0 now"
  "rs_availability (scoreOperator h now) =
     decayedMean (availability_samples (counted_observations h now)) 0 now"
  "rs_disputes (scoreOperator h now) = decayedMean (dispute_samples (oh_disputes h)) BPS now"
  "rs_tenure (scoreOperator h now) = clampBps ((now - oh_registeredAt h) * BPS div TENURE_FULL_MS)"
  "rs_score (scoreOperator h now) =
     (40 * rs_accuracy (scoreOperator h now) + 25 * rs_availability (scoreOperator h now)
      + 25 * rs_disputes (scoreOperator h now) + 10 * rs_tenure (scoreOperator h now)) div 100"
  "rs_eligible (scoreOperator h now) \<longleftrightarrow>
     MIN_HISTORY_OBSERVATIONS \<le> length (counted_observations h now)
     \<and> ELIGIBILITY_THRESHOLD_BPS \<le> rs_score (scoreOperator h now)"
  "rs_weight (scoreOperator h now) =
     (if rs_eligible (scoreOperator h now) then consensusWeight (rs_score (scoreOperator h now)) else 0)"
  by (simp_all add: scoreOperator_def Let_def)

lemma component_bounds:
  "0 \<le> rs_accuracy (scoreOperator h now) \<and> rs_accuracy (scoreOperator h now) \<le> BPS"
  "0 \<le> rs_availability (scoreOperator h now) \<and> rs_availability (scoreOperator h now) \<le> BPS"
  "0 \<le> rs_disputes (scoreOperator h now) \<and> rs_disputes (scoreOperator h now) \<le> BPS"
  "0 \<le> rs_tenure (scoreOperator h now) \<and> rs_tenure (scoreOperator h now) \<le> BPS"
proof -
  have bps: "0 \<le> BPS" by (simp add: BPS_def)
  show "0 \<le> rs_accuracy (scoreOperator h now) \<and> rs_accuracy (scoreOperator h now) \<le> BPS"
    unfolding scoreOperator_sel using bps clampBps_bounds by (intro decayedMean_bounds) auto
  show "0 \<le> rs_availability (scoreOperator h now) \<and> rs_availability (scoreOperator h now) \<le> BPS"
    unfolding scoreOperator_sel using bps by (intro decayedMean_bounds) auto
  show "0 \<le> rs_disputes (scoreOperator h now) \<and> rs_disputes (scoreOperator h now) \<le> BPS"
    unfolding scoreOperator_sel using bps by (intro decayedMean_bounds) auto
  show "0 \<le> rs_tenure (scoreOperator h now) \<and> rs_tenure (scoreOperator h now) \<le> BPS"
    unfolding scoreOperator_sel by (rule clampBps_bounds)
qed

lemma score_mono:
  fixes a v d t a' v' d' t' :: int
  assumes "a \<le> a'" "v \<le> v'" "d \<le> d'" "t \<le> t'"
  shows "(40 * a + 25 * v + 25 * d + 10 * t) div 100 \<le> (40 * a' + 25 * v' + 25 * d' + 10 * t') div 100"
  using assms by (intro zdiv_mono1) auto

lemma rs_score_bounds: "0 \<le> rs_score (scoreOperator h now) \<and> rs_score (scoreOperator h now) \<le> BPS"
  using component_bounds [of h now]
    score_mono [of 0 "rs_accuracy (scoreOperator h now)" 0 "rs_availability (scoreOperator h now)"
      0 "rs_disputes (scoreOperator h now)" 0 "rs_tenure (scoreOperator h now)"]
    score_mono [of "rs_accuracy (scoreOperator h now)" BPS "rs_availability (scoreOperator h now)" BPS
      "rs_disputes (scoreOperator h now)" BPS "rs_tenure (scoreOperator h now)" BPS]
  unfolding scoreOperator_sel(5) by (simp add: BPS_def)

lemma decayedMean_mset: "mset xs = mset ys \<Longrightarrow> decayedMean xs p now = decayedMean ys p now"
  by (simp only: decayedMean_eq sum_mset_sum_list [symmetric] mset_map)

text \<open>A history is no worse than another when its observations were reported at the
  same times with no larger deviation and no missed heartbeat that the other met, its
  upheld disputes are a part of the other's, and its operator registered no later.\<close>

inductive fewer_upheld :: "operator_dispute list \<Rightarrow> operator_dispute list \<Rightarrow> bool" where
  fu_Nil: "fewer_upheld [] []"
| fu_drop: "fewer_upheld ds ds' \<Longrightarrow> od_outcome d = Upheld \<Longrightarrow> fewer_upheld (d # ds) ds'"
| fu_clear: "fewer_upheld ds ds' \<Longrightarrow> od_resolvedAt d' = od_resolvedAt d \<Longrightarrow>
    od_outcome d = Upheld \<or> od_outcome d' = Rejected \<Longrightarrow> fewer_upheld (d # ds) (d' # ds')"

definition observation_no_worse :: "operator_observation \<Rightarrow> operator_observation \<Rightarrow> bool" where
  "observation_no_worse x y \<longleftrightarrow> ob_observedAt y = ob_observedAt x \<and> ob_excused y = ob_excused x
     \<and> ob_deviationBps y \<le> ob_deviationBps x \<and> (ob_heartbeatMet x \<longrightarrow> ob_heartbeatMet y)"

definition history_no_worse :: "operator_history \<Rightarrow> operator_history \<Rightarrow> bool" where
  "history_no_worse h h' \<longleftrightarrow>
     list_all2 observation_no_worse (oh_observations h) (oh_observations h')
     \<and> fewer_upheld (oh_disputes h) (oh_disputes h') \<and> oh_registeredAt h' \<le> oh_registeredAt h"

lemma counted_no_worse:
  "list_all2 observation_no_worse (oh_observations h) (oh_observations h') \<Longrightarrow>
   list_all2 observation_no_worse (counted_observations h now) (counted_observations h' now)"
proof -
  have "list_all2 observation_no_worse xs ys \<Longrightarrow>
      list_all2 observation_no_worse
        (filter (\<lambda>ob. \<not> ob_excused ob \<and> ob_observedAt ob \<le> now) xs)
        (filter (\<lambda>ob. \<not> ob_excused ob \<and> ob_observedAt ob \<le> now) ys)" for xs ys
    by (induction xs ys rule: list_all2_induct) (auto simp: observation_no_worse_def)
  then show "list_all2 observation_no_worse (oh_observations h) (oh_observations h') \<Longrightarrow>
      list_all2 observation_no_worse (counted_observations h now) (counted_observations h' now)"
    unfolding counted_observations_def .
qed

lemma samples_mono:
  assumes "list_all2 (\<lambda>x y. fst y = fst x \<and> snd x \<le> snd y) xs ys"
    and "\<forall>s\<in>set ys. 0 \<le> snd s" "0 \<le> p"
  shows "decayedMean xs p now \<le> decayedMean ys p now"
proof (rule decayedMean_mono [OF assms(3)])
  show "0 \<le> (\<Sum>s\<leftarrow>ys. sample_weight now s * snd s)"
    using assms(2) sample_weight_nonneg by (intro sum_list_nonneg) auto
  show "(\<Sum>s\<leftarrow>xs. sample_weight now s * snd s) \<le> (\<Sum>s\<leftarrow>ys. sample_weight now s * snd s)"
    using assms(1)
  proof (induction xs ys rule: list_all2_induct)
    case (Cons x xs y ys)
    then have "sample_weight now x * snd x \<le> sample_weight now y * snd y"
      using sample_weight_nonneg [of now x]
      by (auto simp: sample_weight_def mult_left_mono decayWeight_nonneg)
    then show ?case using Cons by simp
  qed simp
  show "(\<Sum>s\<leftarrow>ys. sample_weight now s) \<le> (\<Sum>s\<leftarrow>xs. sample_weight now s)"
    using assms(1) by (induction xs ys rule: list_all2_induct) (auto simp: sample_weight_def)
qed

lemma disputes_mono:
  assumes "fewer_upheld ds ds'"
  shows "decayedMean (dispute_samples ds) BPS now \<le> decayedMean (dispute_samples ds') BPS now"
proof (rule decayedMean_mono)
  show "0 \<le> BPS" by (simp add: BPS_def)
  show "0 \<le> (\<Sum>s\<leftarrow>dispute_samples ds'. sample_weight now s * snd s)"
    using sample_weight_nonneg by (intro sum_list_nonneg) (auto simp: BPS_def)
  show "(\<Sum>s\<leftarrow>dispute_samples ds. sample_weight now s * snd s)
      \<le> (\<Sum>s\<leftarrow>dispute_samples ds'. sample_weight now s * snd s)"
    using assms
    by (induction rule: fewer_upheld.induct)
       (auto simp: sample_weight_def BPS_def decayWeight_nonneg add_increasing)
  show "(\<Sum>s\<leftarrow>dispute_samples ds'. sample_weight now s) \<le> (\<Sum>s\<leftarrow>dispute_samples ds. sample_weight now s)"
    using assms
    by (induction rule: fewer_upheld.induct)
       (auto simp: sample_weight_def intro: add_increasing decayWeight_nonneg)
qed

lemma components_no_worse:
  assumes "history_no_worse h h'"
  shows "rs_accuracy (scoreOperator h now) \<le> rs_accuracy (scoreOperator h' now)"
    and "rs_availability (scoreOperator h now) \<le> rs_availability (scoreOperator h' now)"
    and "rs_disputes (scoreOperator h now) \<le> rs_disputes (scoreOperator h' now)"
    and "rs_tenure (scoreOperator h now) \<le> rs_tenure (scoreOperator h' now)"
proof -
  have c: "list_all2 observation_no_worse (counted_observations h now) (counted_observations h' now)"
    using assms counted_no_worse by (simp add: history_no_worse_def)
  show "rs_accuracy (scoreOperator h now) \<le> rs_accuracy (scoreOperator h' now)"
    unfolding scoreOperator_sel using c clampBps_bounds clampBps_mono
    by (intro samples_mono) (auto simp: list.rel_map observation_no_worse_def
          elim!: list.rel_mono_strong)
  show "rs_availability (scoreOperator h now) \<le> rs_availability (scoreOperator h' now)"
    unfolding scoreOperator_sel using c
    by (intro samples_mono) (auto simp: list.rel_map observation_no_worse_def BPS_def
          elim!: list.rel_mono_strong)
  show "rs_disputes (scoreOperator h now) \<le> rs_disputes (scoreOperator h' now)"
    unfolding scoreOperator_sel using assms by (simp add: history_no_worse_def disputes_mono)
  show "rs_tenure (scoreOperator h now) \<le> rs_tenure (scoreOperator h' now)"
    unfolding scoreOperator_sel using assms
    by (auto simp: history_no_worse_def reputation_consts intro!: clampBps_mono zdiv_mono1)
qed

lemma eligible_weight_bounds:
  "rs_eligible (scoreOperator h now) \<Longrightarrow>
   1000 \<le> rs_weight (scoreOperator h now) \<and> rs_weight (scoreOperator h now) \<le> 2000"
  "\<not> rs_eligible (scoreOperator h now) \<Longrightarrow> rs_weight (scoreOperator h now) = 0"
  using consensusWeight_bounds [of "rs_score (scoreOperator h now)"]
  by (simp_all add: scoreOperator_sel(7) reputation_consts)

section \<open>Properties\<close>

text \<open>Every component and the score of an operator lie in \<open>0..10000\<close>; the weight is
  0 for an operator on probation and in \<open>1000..2000\<close> for an eligible one, and an
  operator is eligible only with at least 30 counted observations and a score of at
  least 5000.\<close>

theorem reputation_ranges:
  "0 \<le> rs_score (scoreOperator h now) \<and> rs_score (scoreOperator h now) \<le> 10000
   \<and> (if rs_eligible (scoreOperator h now)
      then 30 \<le> rs_observationCount (scoreOperator h now) \<and> 5000 \<le> rs_score (scoreOperator h now)
           \<and> 1000 \<le> rs_weight (scoreOperator h now) \<and> rs_weight (scoreOperator h now) \<le> 2000
      else rs_weight (scoreOperator h now) = 0)"
proof -
  have "rs_observationCount (scoreOperator h now) = length (counted_observations h now)"
    by (simp add: scoreOperator_def Let_def)
  then show ?thesis
    using rs_score_bounds [of h now] eligible_weight_bounds [of h now] scoreOperator_sel(6) [of h now]
    by (simp add: BPS_def MIN_HISTORY_OBSERVATIONS_def ELIGIBILITY_THRESHOLD_BPS_def)
qed

text \<open>Scoring is monotone: lower deviation, more heartbeats, fewer upheld disputes
  or longer tenure never lower the score, and never lower the weight or take eligibility
  away.\<close>

theorem score_monotone:
  assumes "history_no_worse h h'"
  shows "rs_score (scoreOperator h now) \<le> rs_score (scoreOperator h' now)
    \<and> rs_weight (scoreOperator h now) \<le> rs_weight (scoreOperator h' now)
    \<and> (rs_eligible (scoreOperator h now) \<longrightarrow> rs_eligible (scoreOperator h' now))"
proof -
  note comp = components_no_worse [OF assms, of now]
  have score: "rs_score (scoreOperator h now) \<le> rs_score (scoreOperator h' now)"
    using comp unfolding scoreOperator_sel(5) by (rule score_mono)
  have "length (counted_observations h' now) = length (counted_observations h now)"
    using assms counted_no_worse [of h h' now] by (simp add: history_no_worse_def list_all2_lengthD)
  then have elig: "rs_eligible (scoreOperator h now) \<longrightarrow> rs_eligible (scoreOperator h' now)"
    using score unfolding scoreOperator_sel(6) by auto
  have "0 \<le> rs_weight (scoreOperator h' now)" using eligible_weight_bounds [of h' now] by fastforce
  then have "rs_weight (scoreOperator h now) \<le> rs_weight (scoreOperator h' now)"
    using score elig consensusWeight_mono unfolding scoreOperator_sel(7) by auto
  with score elig show ?thesis by blast
qed


definition steady_history :: "string \<Rightarrow> operator_history" where
  "steady_history i = \<lparr>oh_operatorId = i, oh_registeredAt = 0,
     oh_observations = replicate 40 \<lparr>ob_observedAt = 0, ob_deviationBps = 0,
       ob_heartbeatMet = True, ob_excused = False\<rparr>, oh_disputes = []\<rparr>"


text \<open>Replaying a history in another order gives the same score: the result depends
  on the observations and disputes as multisets only.\<close>

theorem score_order_independent:
  assumes "mset (oh_observations h) = mset (oh_observations h')"
    and "mset (oh_disputes h) = mset (oh_disputes h')"
    and "oh_registeredAt h = oh_registeredAt h'" "oh_operatorId h = oh_operatorId h'"
  shows "scoreOperator h now = scoreOperator h' now"
proof -
  let ?c = "\<lambda>g. counted_observations g now"
  have c: "mset (?c h) = mset (?c h')" using assms(1) by (simp add: counted_observations_def)
  then have len: "length (?c h) = length (?c h')" by (metis size_mset)
  have "decayedMean (map f (?c h)) p now = decayedMean (map f (?c h')) p now" for f p
    using c by (intro decayedMean_mset) simp
  moreover have "decayedMean (map f (oh_disputes h)) p now
      = decayedMean (map f (oh_disputes h')) p now" for f p
    using assms(2) by (intro decayedMean_mset) simp
  ultimately show ?thesis unfolding scoreOperator_def Let_def using len assms(3,4) by simp
qed

end
