(* ===== verification/Degraded_Mode.thy ===== *)
theory Degraded_Mode
  imports Refract_Prelude
begin

text \<open>
  The per-feed degraded-mode machine (\<open>oracle/degraded-mode.ts\<close>): healthy, degraded and
  paused feeds, the observation handler, the operator resume and the payout gate. The
  lemmas characterise the state after any run of observations and show that the gate
  fails safe.
\<close>

datatype feed_health = Healthy | Degraded | Paused

datatype degraded_reason =
    QuorumShortfall | NoFreshSources | SourcesDivergent | ConsensusUnavailable

record feed_state =
  fs_coverageType :: int
  fs_health :: feed_health
  fs_reason :: "degraded_reason option"
  fs_consecutiveFailures :: int

record feed_policy =
  fp_pauseAfterFailures :: int

definition DEGRADED_MODE_POLICY :: "int \<Rightarrow> feed_policy option" where
  "DEGRADED_MODE_POLICY t =
     (if t \<in> {0, 1, 2, 3} then Some \<lparr>fp_pauseAfterFailures = 5\<rparr>
      else if t = 4 then Some \<lparr>fp_pauseAfterFailures = 10\<rparr> else None)"

definition initialFeedState :: "int \<Rightarrow> feed_state" where
  "initialFeedState t =
     \<lparr>fs_coverageType = t, fs_health = Healthy, fs_reason = None, fs_consecutiveFailures = 0\<rparr>"

text \<open>The observation is its reason, \<open>None\<close> for a satisfied corroboration. A missing
  policy row is read only on the failing path, where the access throws.\<close>

definition applyObservation ::
  "feed_state \<Rightarrow> degraded_reason option \<Rightarrow> feed_policy option \<Rightarrow> feed_state result" where
  "applyObservation state observation policy =
     (if fs_health state = Paused then Inr state
      else if observation = None then
        (if fs_health state = Healthy \<and> fs_consecutiveFailures state = 0 then Inr state
         else Inr (state\<lparr>fs_health := Healthy, fs_reason := None, fs_consecutiveFailures := 0\<rparr>))
      else case policy of
        None \<Rightarrow> Inl (Err ''TypeError: pauseAfterFailures of undefined'')
      | Some p \<Rightarrow>
          (let failures = fs_consecutiveFailures state + 1;
               health = (if failures \<ge> fp_pauseAfterFailures p then Paused else Degraded)
           in if health = fs_health state \<and> observation = fs_reason state
                 \<and> failures = fs_consecutiveFailures state
              then Inr state
              else Inr (state\<lparr>fs_health := health, fs_reason := observation,
                              fs_consecutiveFailures := failures\<rparr>)))"

definition resumeFeed :: "feed_state \<Rightarrow> feed_state" where
  "resumeFeed state =
     (if fs_health state \<noteq> Paused then state
      else state\<lparr>fs_health := Healthy, fs_reason := None, fs_consecutiveFailures := 0\<rparr>)"

definition isPayoutAllowed :: "feed_state \<Rightarrow> bool" where
  "isPayoutAllowed state \<longleftrightarrow> fs_health state = Healthy"

section \<open>Runs\<close>

datatype feed_event = Observe "degraded_reason option" | Resume

definition feed_step :: "feed_policy \<Rightarrow> feed_event \<Rightarrow> feed_state \<Rightarrow> feed_state" where
  "feed_step p e state =
     (case e of
        Observe r \<Rightarrow> (case applyObservation state r (Some p) of Inl _ \<Rightarrow> state | Inr s \<Rightarrow> s)
      | Resume \<Rightarrow> resumeFeed state)"

definition feed_run :: "feed_policy \<Rightarrow> degraded_reason option list \<Rightarrow> feed_state \<Rightarrow> feed_state" where
  "feed_run p obs = fold (\<lambda>r. feed_step p (Observe r)) obs"

lemma applyObservation_total: "is_ok (applyObservation state r (Some p))"
  by (simp add: applyObservation_def Let_def)

lemma feed_step_simps [spec_simps]:
  "feed_step p (Observe r) s =
     (if fs_health s = Paused then s
      else case r of
        None \<Rightarrow> (if fs_health s = Healthy \<and> fs_consecutiveFailures s = 0 then s
                 else s\<lparr>fs_health := Healthy, fs_reason := None, fs_consecutiveFailures := 0\<rparr>)
      | Some d \<Rightarrow> s\<lparr>fs_health := (if fs_consecutiveFailures s + 1 \<ge> fp_pauseAfterFailures p
                                   then Paused else Degraded),
                   fs_reason := r, fs_consecutiveFailures := fs_consecutiveFailures s + 1\<rparr>)"
  "feed_step p Resume s = resumeFeed s"
  by (auto simp: feed_step_def applyObservation_def Let_def split: option.splits)

text \<open>The events that block a payout and the ones that lift the block.\<close>

definition feed_bad :: "feed_state \<Rightarrow> feed_event \<Rightarrow> bool" where
  "feed_bad s e \<longleftrightarrow> (\<exists>d. e = Observe (Some d))"

definition feed_release :: "feed_state \<Rightarrow> feed_event \<Rightarrow> bool" where
  "feed_release s e \<longleftrightarrow>
     (fs_health s = Degraded \<and> e = Observe None) \<or> (fs_health s = Paused \<and> e = Resume)"

interpretation feed_gate: fail_safe_gate "feed_step p" isPayoutAllowed feed_bad feed_release for p
proof unfold_locales
  fix s :: feed_state and e :: feed_event
  show "feed_bad s e \<Longrightarrow> \<not> isPayoutAllowed (feed_step p e s)"
    by (cases "fs_health s = Paused")
       (auto simp: feed_bad_def isPayoutAllowed_def feed_step_simps split: if_splits)
  show "\<not> isPayoutAllowed s \<Longrightarrow> \<not> feed_release s e \<Longrightarrow> \<not> isPayoutAllowed (feed_step p e s)"
    by (cases e; cases "fs_health s")
       (auto simp: feed_release_def isPayoutAllowed_def feed_step_simps resumeFeed_def
             split: option.splits)
qed

text \<open>Specification of a run by the observations alone: how many failures it ends with
  and whether it contains a block of \<open>n\<close> consecutive failures.\<close>

definition trailing_failures :: "degraded_reason option list \<Rightarrow> nat" where
  "trailing_failures obs = length (takeWhile (\<lambda>r. r \<noteq> None) (rev obs))"

definition has_failure_block :: "nat \<Rightarrow> degraded_reason option list \<Rightarrow> bool" where
  "has_failure_block n obs \<longleftrightarrow> (\<exists>k \<le> length obs. n \<le> trailing_failures (take k obs))"

lemma trailing_snoc [simp]:
  "trailing_failures (obs @ [r]) = (if r = None then 0 else Suc (trailing_failures obs))"
  "trailing_failures [] = 0"
  by (simp_all add: trailing_failures_def)

lemma has_failure_block_snoc:
  "has_failure_block n (obs @ [r]) \<longleftrightarrow> has_failure_block n obs \<or> n \<le> trailing_failures (obs @ [r])"
proof -
  have "(\<exists>k \<le> Suc (length obs). n \<le> trailing_failures (take k (obs @ [r])))
    \<longleftrightarrow> (\<exists>k \<le> length obs. n \<le> trailing_failures (take k obs)) \<or> n \<le> trailing_failures (obs @ [r])"
    by (auto simp: le_Suc_eq)
  then show ?thesis by (simp add: has_failure_block_def)
qed

lemma feed_run_snoc [simp]:
  "feed_run p (obs @ [r]) s = feed_step p (Observe r) (feed_run p obs s)" "feed_run p [] s = s"
  by (simp_all add: feed_run_def)

section \<open>Properties\<close>



text \<open>The degraded-mode gate fails safe: after a failed corroboration check a payout
  is allowed again only through a clean check of a degraded feed or an operator resume of
  a paused one.\<close>

theorem feed_blocked_until_release:
  assumes "isPayoutAllowed (fold (feed_step p) es (feed_step p (Observe (Some d)) s))"
  shows "\<exists>pre e post. es = pre @ e # post \<and>
    feed_release (fold (feed_step p) pre (feed_step p (Observe (Some d)) s)) e"
  using feed_gate.bad_then_release [of s "Observe (Some d)", OF _ assms]
  by (simp add: feed_bad_def)

text \<open>Re-applying a failing observation is not idempotent: the failure count moves on
  every evaluation, although the module comment promises that the same observation on the
  resulting state returns the same state.\<close>

lemma applyObservation_not_idempotent:
  "\<exists>s s'. applyObservation s (Some d) (Some \<lparr>fp_pauseAfterFailures = 5\<rparr>) = Inr s'
     \<and> applyObservation s' (Some d) (Some \<lparr>fp_pauseAfterFailures = 5\<rparr>) \<noteq> Inr s'"
  by (intro exI [of _ "initialFeedState 0"] exI [of _ "(initialFeedState 0)\<lparr>fs_health := Degraded,
        fs_reason := Some d, fs_consecutiveFailures := 1\<rparr>"])
     (simp add: applyObservation_def initialFeedState_def)

end
