(* ===== verification/Circuit_Breaker.thy ===== *)
theory Circuit_Breaker
  imports Refract_Prelude
begin

text \<open>
  The persisted circuit breaker (\<open>oracle/circuitBreaker.ts\<close>). The table
  \<open>oracle_circuit_breakers\<close> is a map from coverage type to row, each method is its SQL
  statement on that map, and the boolean is \<open>rowCount > 0\<close>. \<open>NOW()\<close> is the database clock
  and an argument of its own, apart from the caller's \<open>now\<close>. A database that cannot be
  read is \<open>None\<close>.
\<close>

datatype breaker_state = Closed | Open | HalfOpen

definition HALF_OPEN_COOLDOWN_MS :: int where
  "HALF_OPEN_COOLDOWN_MS = 30 * 60000"

record breaker_row =
  br_state :: breaker_state
  br_trigger_reason :: "string option"
  br_trigger_readings :: string
  br_opened_at :: "time_ms option"
  br_half_open_at :: "time_ms option"
  br_updated_at :: time_ms

type_synonym breaker_table = "string \<rightharpoonup> breaker_row"

definition getState :: "breaker_table option \<Rightarrow> string \<Rightarrow> breaker_state result" where
  "getState db coverageType =
     (case db of
        None \<Rightarrow> Inl (Err ''query failed'')
      | Some tab \<Rightarrow> Inr (case tab coverageType of None \<Rightarrow> Closed | Some r \<Rightarrow> br_state r))"

definition isSettlementAllowed :: "breaker_table option \<Rightarrow> string \<Rightarrow> bool" where
  "isSettlementAllowed db coverageType =
     (case getState db coverageType of Inr s \<Rightarrow> s = Closed | Inl _ \<Rightarrow> False)"

definition open_breaker ::
  "string \<Rightarrow> string \<Rightarrow> string \<Rightarrow> time_ms \<Rightarrow> breaker_table \<Rightarrow> breaker_table \<times> bool" where
  "open_breaker coverageType reason readings db_now tab =
     (case tab coverageType of
        None \<Rightarrow>
          (tab(coverageType \<mapsto> \<lparr>br_state = Open, br_trigger_reason = Some reason,
             br_trigger_readings = readings, br_opened_at = Some db_now,
             br_half_open_at = None, br_updated_at = db_now\<rparr>), True)
      | Some r \<Rightarrow>
          (if br_state r = Open then (tab, False)
           else (tab(coverageType \<mapsto> r\<lparr>br_state := Open, br_trigger_reason := Some reason,
             br_trigger_readings := readings, br_opened_at := Some db_now,
             br_half_open_at := None, br_updated_at := db_now\<rparr>), True)))"

definition halfOpen :: "string \<Rightarrow> time_ms \<Rightarrow> time_ms \<Rightarrow> breaker_table \<Rightarrow> breaker_table \<times> bool" where
  "halfOpen coverageType now db_now tab =
     (case tab coverageType of
        None \<Rightarrow> (tab, False)
      | Some r \<Rightarrow>
          (case br_opened_at r of
             Some t \<Rightarrow>
               (if br_state r = Open \<and> t \<le> now - HALF_OPEN_COOLDOWN_MS
                then (tab(coverageType \<mapsto> r\<lparr>br_state := HalfOpen, br_half_open_at := Some db_now,
                        br_updated_at := db_now\<rparr>), True)
                else (tab, False))
           | None \<Rightarrow> (tab, False)))"

definition close_breaker :: "string \<Rightarrow> time_ms \<Rightarrow> breaker_table \<Rightarrow> breaker_table \<times> bool" where
  "close_breaker coverageType db_now tab =
     (case tab coverageType of
        None \<Rightarrow> (tab, False)
      | Some r \<Rightarrow>
          (if br_state r = HalfOpen
           then (tab(coverageType \<mapsto> r\<lparr>br_state := Closed, br_trigger_reason := None,
                   br_trigger_readings := ''[]'', br_opened_at := None, br_half_open_at := None,
                   br_updated_at := db_now\<rparr>), True)
           else (tab, False)))"

section \<open>Runs of calls\<close>

datatype breaker_call =
    CallOpen string string string time_ms
  | CallHalfOpen string time_ms time_ms
  | CallClose string time_ms

fun breaker_step :: "breaker_call \<Rightarrow> breaker_table \<Rightarrow> breaker_table" where
  "breaker_step (CallOpen ct reason readings d) tab = fst (open_breaker ct reason readings d tab)"
| "breaker_step (CallHalfOpen ct now d) tab = fst (halfOpen ct now d tab)"
| "breaker_step (CallClose ct d) tab = fst (close_breaker ct d tab)"

abbreviation breaker_run :: "breaker_call list \<Rightarrow> breaker_table \<Rightarrow> breaker_table" where
  "breaker_run \<equiv> fold breaker_step"

definition breaker_of :: "string \<Rightarrow> breaker_table \<Rightarrow> breaker_state" where
  "breaker_of ct tab = (case tab ct of None \<Rightarrow> Closed | Some r \<Rightarrow> br_state r)"

definition cooled_down :: "string \<Rightarrow> time_ms \<Rightarrow> breaker_table \<Rightarrow> bool" where
  "cooled_down ct now tab =
     (case tab ct of
        None \<Rightarrow> False
      | Some r \<Rightarrow> (case br_opened_at r of None \<Rightarrow> False | Some t \<Rightarrow> t + HALF_OPEN_COOLDOWN_MS \<le> now))"

lemmas breaker_defs = open_breaker_def halfOpen_def close_breaker_def

lemma isSettlementAllowed_iff [simp]: "isSettlementAllowed (Some tab) ct \<longleftrightarrow> breaker_of ct tab = Closed"
  by (simp add: isSettlementAllowed_def getState_def breaker_of_def)

lemma breaker_of_step:
  "breaker_of ct (breaker_step c tab) =
     (case c of
        CallOpen ct' _ _ _ \<Rightarrow> if ct' = ct then Open else breaker_of ct tab
      | CallHalfOpen ct' now _ \<Rightarrow>
          if ct' = ct \<and> breaker_of ct tab = Open \<and> cooled_down ct now tab then HalfOpen
          else breaker_of ct tab
      | CallClose ct' _ \<Rightarrow>
          if ct' = ct \<and> breaker_of ct tab = HalfOpen then Closed else breaker_of ct tab)"
  by (cases c)
     (auto simp: breaker_of_def cooled_down_def breaker_defs algebra_simps
           split: option.splits if_splits)

text \<open>Two gates on the same table: settlement, left blocked only by closing a half-open
  breaker, and the open state, left only by half-opening after the cooldown.\<close>

definition opens :: "string \<Rightarrow> breaker_table \<Rightarrow> breaker_call \<Rightarrow> bool" where
  "opens ct tab c \<longleftrightarrow> (\<exists>reason readings d. c = CallOpen ct reason readings d)"

definition closes :: "string \<Rightarrow> breaker_table \<Rightarrow> breaker_call \<Rightarrow> bool" where
  "closes ct tab c \<longleftrightarrow> (\<exists>d. c = CallClose ct d) \<and> breaker_of ct tab = HalfOpen"

definition half_opens :: "string \<Rightarrow> breaker_table \<Rightarrow> breaker_call \<Rightarrow> bool" where
  "half_opens ct tab c \<longleftrightarrow> (\<exists>now d. c = CallHalfOpen ct now d \<and> cooled_down ct now tab)"

interpretation settle_gate:
  fail_safe_gate breaker_step "\<lambda>tab. breaker_of ct tab = Closed" "opens ct" "closes ct" for ct
  by unfold_locales
     (auto simp: opens_def closes_def breaker_of_step split: breaker_call.splits if_splits)

interpretation open_gate:
  fail_safe_gate breaker_step "\<lambda>tab. breaker_of ct tab \<noteq> Open" "opens ct" "half_opens ct" for ct
  by unfold_locales
     (auto simp: opens_def half_opens_def breaker_of_step split: breaker_call.splits if_splits)

section \<open>The row invariant\<close>

definition row_wf :: "breaker_row \<Rightarrow> bool" where
  "row_wf r \<longleftrightarrow> (br_state r \<noteq> Closed \<longleftrightarrow> br_opened_at r \<noteq> None)
     \<and> (br_state r = HalfOpen \<longleftrightarrow> br_half_open_at r \<noteq> None)
     \<and> (br_state r \<noteq> Closed \<longleftrightarrow> br_trigger_reason r \<noteq> None)"

definition table_wf :: "breaker_table \<Rightarrow> bool" where
  "table_wf tab \<longleftrightarrow> (\<forall>ct r. tab ct = Some r \<longrightarrow> row_wf r)"

lemma table_wf_step [inv_intros]:
  assumes "table_wf tab"
  shows "table_wf (breaker_step c tab)"
proof -
  have upd: "table_wf (tab(ct \<mapsto> r))" if "row_wf r" for ct r
    using assms that by (simp add: table_wf_def)
  have wf: "row_wf r" if "tab ct = Some r" for ct r
    using assms that by (simp add: table_wf_def)
  show ?thesis
    using assms
    by (cases c)
       (auto simp: breaker_defs split: option.split intro!: upd dest!: wf,
        auto simp: row_wf_def)
qed

lemma table_wf_run: "table_wf tab \<Longrightarrow> table_wf (breaker_run cs tab)"
  by (induction cs arbitrary: tab) (auto intro: table_wf_step)

section \<open>Properties\<close>

text \<open>C37. An open breaker never closes directly: whatever calls follow, settlement is
  allowed again only if they contain a half-open of that coverage type made at least the
  cooldown after the breaker opened, and later a close of it.\<close>

theorem breaker_reclose_path:
  assumes "breaker_of ct tab = Open"
    and "isSettlementAllowed (Some (breaker_run cs tab)) ct"
  shows "\<exists>pre now d mid d' post.
    cs = pre @ CallHalfOpen ct now d # mid @ CallClose ct d' # post
    \<and> cooled_down ct now (breaker_run pre tab)"
proof -
  from settle_gate.allowed_needs_release [of ct tab cs] assms obtain p1 c post where
    p1: "cs = p1 @ c # post" "closes ct (breaker_run p1 tab) c" by auto
  then obtain d' where c: "c = CallClose ct d'" "breaker_of ct (breaker_run p1 tab) = HalfOpen"
    by (auto simp: closes_def)
  with open_gate.allowed_needs_release [of ct tab p1] assms(1) obtain pre e mid where
    pre: "p1 = pre @ e # mid" "half_opens ct (breaker_run pre tab) e" by auto
  then obtain now d where "e = CallHalfOpen ct now d" "cooled_down ct now (breaker_run pre tab)"
    by (auto simp: half_opens_def)
  moreover from this p1(1) c(1) pre(1)
  have "cs = pre @ CallHalfOpen ct now d # mid @ CallClose ct d' # post" by simp
  ultimately show ?thesis by blast
qed

definition opened_table :: breaker_table where
  "opened_table = fst (open_breaker ''1'' ''spike'' ''[]'' 0 Map.empty)"

theorem breaker_reclose_path_witness:
  "\<exists>pre now d mid d' post.
    [CallHalfOpen ''1'' 1800000 1800000, CallClose ''1'' 1800001]
      = pre @ CallHalfOpen ''1'' now d # mid @ CallClose ''1'' d' # post
    \<and> cooled_down ''1'' now (breaker_run pre opened_table)"
  by (rule breaker_reclose_path)
     (simp_all add: opened_table_def breaker_defs breaker_of_def HALF_OPEN_COOLDOWN_MS_def)

text \<open>Opening keeps the first evidence and touches nothing else: it reports a change
  exactly when the breaker was not already open, an open row is left as it is (reason,
  readings and opening time), the breaker is open afterwards, and no other coverage type
  changes. An unreadable table blocks settlement.\<close>

theorem open_keeps_first_evidence:
  "breaker_of ct (fst (open_breaker ct reason readings d tab)) = Open
   \<and> snd (open_breaker ct reason readings d tab) = (breaker_of ct tab \<noteq> Open)
   \<and> fst (open_breaker ct reason2 readings2 d2 (fst (open_breaker ct reason readings d tab)))
       = fst (open_breaker ct reason readings d tab)
   \<and> (\<lambda>k. if k = ct then None else fst (open_breaker ct reason readings d tab) k)
       = (\<lambda>k. if k = ct then None else tab k)
   \<and> isSettlementAllowed None ct = False"
  by (auto simp: open_breaker_def breaker_of_def isSettlementAllowed_def getState_def fun_eq_iff
           split: option.splits)

end
