(* ===== verification/Oracle_Reading.thy ===== *)
theory Oracle_Reading
  imports Refract_Prelude
begin

text \<open>
  The reading that flows from the sources to the publisher and the claim processor
  (\<open>oracle/oracle-reading.ts\<close>). Optional fields are options; the consensus provenance, the
  observation time and the freshness verdict are not read by the modelled components and
  are left out.
\<close>

datatype severity = Low | Medium | High | Triggered

record oracle_reading =
  or_readingId :: "string option"
  or_coverageType :: string
  or_value :: js_number
  or_threshold :: js_number
  or_severity :: severity
  or_message :: string
  or_feedId :: "string option"
  or_source :: "string option"
  or_timestamp :: "time_ms option"
  or_deadlineAt :: "time_ms option"
  or_fetchDurationMs :: "int option"
  or_degraded :: "bool option"
  or_usable :: "bool option"

end
