(* ===== verification/Recovery_Gate.thy ===== *)
theory Recovery_Gate
  imports Oracle_Reading
begin

text \<open>
  The payout admission gate with its canary phase (\<open>oracle/oracle-recovery-gate.ts\<close>). The
  \<open>states\<close> map of the class is a map from coverage type to recovery state, threaded through
  \<open>trip\<close> and \<open>admit\<close>; the lookups create the default entry as \<open>stateFor\<close> does.
\<close>

datatype admission = Publish | CanaryOnly | Hold

datatype recovery_mode = ModeNormal | ModeOpen | ModeCanary

record recovery_config =
  rc_cooldownMs :: int
  rc_healthyReadingsToGraduate :: js_number
  rc_minimumCanaryDurationMs :: int
  rc_minimumCorroboratingPeers :: js_number

record recovery_state =
  rs_mode :: recovery_mode
  rs_resumeAt :: time_ms
  rs_canaryStartedAt :: time_ms
  rs_healthyReadings :: int
  rs_lastCanaryReadingAt :: time_ms
  rs_reason :: "string option"

type_synonym recovery_states = "string \<rightharpoonup> recovery_state"

definition DEFAULT_CONFIG :: recovery_config where
  "DEFAULT_CONFIG = \<lparr>rc_cooldownMs = 60000, rc_healthyReadingsToGraduate = Num 5,
     rc_minimumCanaryDurationMs = 5 * 60000, rc_minimumCorroboratingPeers = Num 2\<rparr>"

text \<open>The constructor: the merged configuration is accepted or the constructor throws.\<close>

definition newRecoveryGate :: "recovery_config \<Rightarrow> (recovery_config \<times> recovery_states) result" where
  "newRecoveryGate config =
     (if \<not> isInteger (rc_healthyReadingsToGraduate config)
         \<or> js_less (rc_healthyReadingsToGraduate config) (Num 2)
         \<or> \<not> isInteger (rc_minimumCorroboratingPeers config)
         \<or> js_less (rc_minimumCorroboratingPeers config) (Num 1)
         \<or> rc_cooldownMs config < 0 \<or> rc_minimumCanaryDurationMs config < 0
      then Inl (Err ''Invalid oracle recovery gate configuration'')
      else Inr (config, Map.empty))"

definition initial_recovery_state :: recovery_state where
  "initial_recovery_state = \<lparr>rs_mode = ModeNormal, rs_resumeAt = 0, rs_canaryStartedAt = 0,
     rs_healthyReadings = 0, rs_lastCanaryReadingAt = 0, rs_reason = None\<rparr>"

definition stateFor :: "string \<Rightarrow> recovery_states \<Rightarrow> recovery_state \<times> recovery_states" where
  "stateFor coverageType states =
     (case states coverageType of
        Some s \<Rightarrow> (s, states)
      | None \<Rightarrow> (initial_recovery_state, states(coverageType \<mapsto> initial_recovery_state)))"

definition trip ::
  "recovery_config \<Rightarrow> string \<Rightarrow> string \<Rightarrow> time_ms \<Rightarrow> recovery_states \<Rightarrow> recovery_states" where
  "trip config coverageType reason now states =
     (let (state, states) = stateFor coverageType states
      in states(coverageType \<mapsto> state\<lparr>rs_mode := ModeOpen, rs_resumeAt := now + rc_cooldownMs config,
           rs_canaryStartedAt := 0, rs_healthyReadings := 0, rs_lastCanaryReadingAt := 0,
           rs_reason := Some reason\<rparr>))"

definition admit ::
  "recovery_config \<Rightarrow> oracle_reading \<Rightarrow> js_number \<Rightarrow> time_ms \<Rightarrow> recovery_states
     \<Rightarrow> admission \<times> recovery_states" where
  "admit config reading corroboratingPeers now states =
     (let ct = or_coverageType reading;
          (state, states) = stateFor ct states;
          degraded = (or_degraded reading = Some True);
          corroborated = (isInteger corroboratingPeers
            \<and> js_le (rc_minimumCorroboratingPeers config) corroboratingPeers)
      in if or_severity reading = Triggered \<or> degraded then
           (Hold, trip config ct (if degraded then ''degraded reading'' else ''triggered reading'') now states)
         else if rs_mode state = ModeNormal then (if corroborated then Publish else Hold, states)
         else if rs_mode state = ModeOpen then
           (if now < rs_resumeAt state \<or> \<not> corroborated then (Hold, states)
            else (CanaryOnly, states(ct \<mapsto> state\<lparr>rs_mode := ModeCanary, rs_canaryStartedAt := now,
                    rs_lastCanaryReadingAt := now, rs_healthyReadings := 1\<rparr>)))
         else if \<not> corroborated \<or> now \<le> rs_lastCanaryReadingAt state then
           (Hold, trip config ct ''canary corroboration lost'' now states)
         else
           (let state = state\<lparr>rs_lastCanaryReadingAt := now,
                              rs_healthyReadings := rs_healthyReadings state + 1\<rparr>;
                state = (if js_le (rc_healthyReadingsToGraduate config)
                              (Num (of_int (rs_healthyReadings state)))
                            \<and> now - rs_canaryStartedAt state \<ge> rc_minimumCanaryDurationMs config
                         then state\<lparr>rs_mode := ModeNormal, rs_reason := None, rs_healthyReadings := 0\<rparr>
                         else state)
            in (CanaryOnly, states(ct \<mapsto> state))))"

definition getRecoveryState :: "string \<Rightarrow> recovery_states \<Rightarrow> recovery_state \<times> recovery_states" where
  "getRecoveryState coverageType states = stateFor coverageType states"

section \<open>Runs of calls\<close>

datatype gate_call = CallTrip string string time_ms | CallAdmit oracle_reading js_number time_ms

fun gate_step :: "recovery_config \<Rightarrow> gate_call \<Rightarrow> recovery_states \<Rightarrow> recovery_states" where
  "gate_step config (CallTrip ct reason now) states = trip config ct reason now states"
| "gate_step config (CallAdmit r peers now) states = snd (admit config r peers now states)"

abbreviation gate_run :: "recovery_config \<Rightarrow> gate_call list \<Rightarrow> recovery_states \<Rightarrow> recovery_states" where
  "gate_run config \<equiv> fold (gate_step config)"

text \<open>The verdicts one coverage type receives, with their times.\<close>

fun gate_out :: "recovery_config \<Rightarrow> string \<Rightarrow> gate_call \<Rightarrow> recovery_states \<Rightarrow> (time_ms \<times> admission) list" where
  "gate_out config ct (CallTrip ct' _ now) states = (if ct' = ct then [(now, Hold)] else [])"
| "gate_out config ct (CallAdmit r peers now) states =
     (if or_coverageType r = ct then [(now, fst (admit config r peers now states))] else [])"

fun gate_log ::
  "recovery_config \<Rightarrow> string \<Rightarrow> gate_call list \<Rightarrow> recovery_states \<Rightarrow> (time_ms \<times> admission) list" where
  "gate_log config ct [] states = []"
| "gate_log config ct (c # cs) states =
     gate_out config ct c states @ gate_log config ct cs (gate_step config c states)"

definition state_of :: "string \<Rightarrow> recovery_states \<Rightarrow> recovery_state" where
  "state_of ct states = fst (stateFor ct states)"

lemma gate_log_append:
  "gate_log config ct (cs @ ds) s = gate_log config ct cs s @ gate_log config ct ds (gate_run config cs s)"
  by (induction cs arbitrary: s) auto

lemma state_of_upd [simp]: "state_of ct (s(k \<mapsto> r)) = (if k = ct then r else state_of ct s)"
  by (simp add: state_of_def stateFor_def split: option.split)

lemma state_of_stateFor [simp]: "state_of ct (snd (stateFor k s)) = state_of ct s"
  by (simp add: state_of_def stateFor_def split: option.split)

lemma state_of_trip [simp]:
  "state_of ct (trip config k reason now s) =
     (if k = ct then (state_of ct s)\<lparr>rs_mode := ModeOpen, rs_resumeAt := now + rc_cooldownMs config,
        rs_canaryStartedAt := 0, rs_healthyReadings := 0, rs_lastCanaryReadingAt := 0,
        rs_reason := Some reason\<rparr>
      else state_of ct s)"
  by (simp add: trip_def Let_def split_beta state_of_def [symmetric])

lemma state_of_admit_other:
  "or_coverageType r \<noteq> ct \<Longrightarrow> state_of ct (snd (admit config r peers now s)) = state_of ct s"
  by (simp add: admit_def Let_def split_beta)

text \<open>One admission seen from its own coverage type.\<close>

lemma admit_view:
  "(fst (admit config r peers now s), state_of (or_coverageType r) (snd (admit config r peers now s))) =
     (let st = state_of (or_coverageType r) s;
          corroborated = (isInteger peers \<and> js_le (rc_minimumCorroboratingPeers config) peers);
          opened = (\<lambda>why. st\<lparr>rs_mode := ModeOpen, rs_resumeAt := now + rc_cooldownMs config,
            rs_canaryStartedAt := 0, rs_healthyReadings := 0, rs_lastCanaryReadingAt := 0,
            rs_reason := Some why\<rparr>)
      in if or_severity r = Triggered \<or> or_degraded r = Some True
         then (Hold, opened (if or_degraded r = Some True then ''degraded reading'' else ''triggered reading''))
         else if rs_mode st = ModeNormal then (if corroborated then Publish else Hold, st)
         else if rs_mode st = ModeOpen then
           (if now < rs_resumeAt st \<or> \<not> corroborated then (Hold, st)
            else (CanaryOnly, st\<lparr>rs_mode := ModeCanary, rs_canaryStartedAt := now,
                    rs_lastCanaryReadingAt := now, rs_healthyReadings := 1\<rparr>))
         else if \<not> corroborated \<or> now \<le> rs_lastCanaryReadingAt st
         then (Hold, opened ''canary corroboration lost'')
         else (CanaryOnly,
           (if js_le (rc_healthyReadingsToGraduate config) (Num (of_int (rs_healthyReadings st + 1)))
               \<and> rc_minimumCanaryDurationMs config \<le> now - rs_canaryStartedAt st
            then st\<lparr>rs_lastCanaryReadingAt := now, rs_mode := ModeNormal, rs_reason := None,
                    rs_healthyReadings := 0\<rparr>
            else st\<lparr>rs_lastCanaryReadingAt := now, rs_healthyReadings := rs_healthyReadings st + 1\<rparr>)))"
  by (simp add: admit_def Let_def split_beta state_of_def [symmetric])

lemma admit_cases:
  fixes config r peers now s
  defines "st \<equiv> state_of (or_coverageType r) s"
  defines "st' \<equiv> state_of (or_coverageType r) (snd (admit config r peers now s))"
  defines "v \<equiv> fst (admit config r peers now s)"
  obtains
    (held) "v = Hold" "rs_mode st' = ModeOpen"
  | (normal) "v \<noteq> CanaryOnly" "st' = st" "rs_mode st = ModeNormal"
      "or_severity r \<noteq> Triggered" "or_degraded r \<noteq> Some True"
  | (start) "v = CanaryOnly" "rs_mode st = ModeOpen" "rs_resumeAt st \<le> now"
      "st' = st\<lparr>rs_mode := ModeCanary, rs_canaryStartedAt := now,
               rs_lastCanaryReadingAt := now, rs_healthyReadings := 1\<rparr>"
  | (continue) "v = CanaryOnly" "rs_mode st = ModeCanary" "rs_lastCanaryReadingAt st < now"
      "st' = st\<lparr>rs_lastCanaryReadingAt := now, rs_healthyReadings := rs_healthyReadings st + 1\<rparr>"
  | (graduate) "v = CanaryOnly" "rs_mode st = ModeCanary" "rs_lastCanaryReadingAt st < now"
      "js_le (rc_healthyReadingsToGraduate config) (Num (of_int (rs_healthyReadings st + 1)))"
      "rc_minimumCanaryDurationMs config \<le> now - rs_canaryStartedAt st"
      "rs_mode st' = ModeNormal"
proof -
  define bad where "bad \<longleftrightarrow> or_severity r = Triggered \<or> or_degraded r = Some True"
  define cor where "cor \<longleftrightarrow> isInteger peers \<and> js_le (rc_minimumCorroboratingPeers config) peers"
  define grad where "grad \<longleftrightarrow>
    js_le (rc_healthyReadingsToGraduate config) (Num (of_int (rs_healthyReadings st + 1)))
    \<and> rc_minimumCanaryDurationMs config \<le> now - rs_canaryStartedAt st"
  note view = admit_view [of config r peers now s, folded st_def st'_def v_def bad_def cor_def]
  consider "bad" | "\<not> bad" "rs_mode st = ModeNormal" | "\<not> bad" "rs_mode st = ModeOpen"
    | "\<not> bad" "rs_mode st = ModeCanary" "\<not> cor \<or> now \<le> rs_lastCanaryReadingAt st"
    | "\<not> bad" "rs_mode st = ModeCanary" "cor" "rs_lastCanaryReadingAt st < now"
    by (metis recovery_mode.exhaust not_le)
  then show thesis
  proof cases
    case 1 with view held show ?thesis by simp
  next
    case 2 with view normal show ?thesis by (auto simp: bad_def split: if_splits)
  next
    case 3 with view held start show ?thesis by (cases "now < rs_resumeAt st \<or> \<not> cor") auto
  next
    case 4 with view held show ?thesis by auto
  next
    case 5
    with view continue graduate show ?thesis
      by (cases grad) (auto simp: grad_def split: if_splits)
  qed
qed

text \<open>The gate contract: a trip, a triggered or a degraded reading blocks, and only an
  admission made in the canary phase can lift the block.\<close>

definition gate_normal :: "string \<Rightarrow> recovery_states \<Rightarrow> bool" where
  "gate_normal ct s \<longleftrightarrow> rs_mode (state_of ct s) = ModeNormal"

definition gate_bad :: "string \<Rightarrow> recovery_states \<Rightarrow> gate_call \<Rightarrow> bool" where
  "gate_bad ct s c = (case c of
     CallTrip k _ _ \<Rightarrow> k = ct
   | CallAdmit r _ _ \<Rightarrow> or_coverageType r = ct
       \<and> (or_severity r = Triggered \<or> or_degraded r = Some True))"

definition gate_release :: "string \<Rightarrow> recovery_states \<Rightarrow> gate_call \<Rightarrow> bool" where
  "gate_release ct s c \<longleftrightarrow> rs_mode (state_of ct s) = ModeCanary
     \<and> (\<exists>r peers now. c = CallAdmit r peers now \<and> or_coverageType r = ct)"

interpretation recovery_gate:
  fail_safe_gate "gate_step config" "gate_normal ct" "gate_bad ct" "gate_release ct" for config ct
proof unfold_locales
  fix s c
  show "gate_bad ct s c \<Longrightarrow> \<not> gate_normal ct (gate_step config c s)"
    by (cases c) (auto simp: gate_bad_def gate_normal_def admit_def Let_def split_beta)
  show "\<not> gate_normal ct s \<Longrightarrow> \<not> gate_release ct s c \<Longrightarrow> \<not> gate_normal ct (gate_step config c s)"
  proof (cases c)
    case (CallAdmit r peers now)
    assume "\<not> gate_normal ct s" "\<not> gate_release ct s c"
    with CallAdmit show ?thesis
      by (cases "or_coverageType r = ct"; cases rule: admit_cases [of config r peers now s])
         (auto simp: gate_normal_def gate_release_def state_of_admit_other)
  qed (auto simp: gate_normal_def)
qed

section \<open>The canary phase\<close>

text \<open>A canary run: canary verdicts only, at strictly increasing times.\<close>

definition canary_run :: "(time_ms \<times> admission) list \<Rightarrow> bool" where
  "canary_run vs \<longleftrightarrow> vs \<noteq> [] \<and> (\<forall>x \<in> set vs. snd x = CanaryOnly) \<and> sorted_wrt (<) (map fst vs)"

lemma canary_run_snoc:
  assumes "canary_run vs" "fst (last vs) < t"
  shows "canary_run (vs @ [(t, CanaryOnly)])"
  using assms by (cases vs rule: rev_cases) (fastforce simp: canary_run_def sorted_wrt_append)+

text \<open>What the canary state remembers of the calls made so far: they end in a canary run
  that began in an open state after its cooldown.\<close>

definition canary_since ::
  "recovery_config \<Rightarrow> string \<Rightarrow> gate_call list \<Rightarrow> recovery_states \<Rightarrow> gate_call list \<Rightarrow> gate_call list \<Rightarrow> bool" where
  "canary_since config ct cs s pre blk \<longleftrightarrow>
     cs = pre @ blk
     \<and> rs_mode (state_of ct (gate_run config pre s)) = ModeOpen
     \<and> canary_run (gate_log config ct blk (gate_run config pre s))
     \<and> rs_resumeAt (state_of ct (gate_run config pre s))
         \<le> fst (hd (gate_log config ct blk (gate_run config pre s)))"

definition canary_inv ::
  "recovery_config \<Rightarrow> string \<Rightarrow> gate_call list \<Rightarrow> recovery_states \<Rightarrow> bool" where
  "canary_inv config ct cs s \<longleftrightarrow>
     (let st = state_of ct (gate_run config cs s) in
      rs_mode st = ModeCanary \<longrightarrow>
      (\<exists>pre blk. canary_since config ct cs s pre blk \<and>
         (let vs = gate_log config ct blk (gate_run config pre s) in
          int (length vs) = rs_healthyReadings st \<and> fst (hd vs) = rs_canaryStartedAt st
          \<and> fst (last vs) = rs_lastCanaryReadingAt st)))"

definition graduated ::
  "recovery_config \<Rightarrow> string \<Rightarrow> gate_call list \<Rightarrow> recovery_states \<Rightarrow> bool" where
  "graduated config ct cs s \<longleftrightarrow>
     (\<exists>pre blk post. cs = pre @ blk @ post \<and> canary_since config ct (pre @ blk) s pre blk \<and>
        (let vs = gate_log config ct blk (gate_run config pre s) in
         js_le (rc_healthyReadingsToGraduate config) (Num (of_nat (length vs)))
         \<and> rc_minimumCanaryDurationMs config \<le> fst (last vs) - fst (hd vs)))"

lemma graduated_snoc: "graduated config ct cs s \<Longrightarrow> graduated config ct (cs @ [c]) s"
  unfolding graduated_def by (metis append.assoc)

lemma canary_since_snoc:
  assumes "canary_since config ct cs s pre blk"
    and "gate_out config ct c (gate_run config cs s) = [(now, CanaryOnly)]"
    and "fst (last (gate_log config ct blk (gate_run config pre s))) < now"
  shows "canary_since config ct (cs @ [c]) s pre (blk @ [c])"
    and "gate_log config ct (blk @ [c]) (gate_run config pre s)
       = gate_log config ct blk (gate_run config pre s) @ [(now, CanaryOnly)]"
proof -
  have cs: "cs = pre @ blk" using assms(1) by (simp add: canary_since_def)
  show log: "gate_log config ct (blk @ [c]) (gate_run config pre s)
       = gate_log config ct blk (gate_run config pre s) @ [(now, CanaryOnly)]"
    using assms(2) by (simp add: gate_log_append cs)
  show "canary_since config ct (cs @ [c]) s pre (blk @ [c])"
    using assms(1,3) unfolding canary_since_def log
    by (auto simp: canary_run_snoc hd_append) (simp add: canary_run_def)
qed

text \<open>The three ways a call acts on the phase: it does not concern it, it extends the
  canary run, or it starts one.\<close>

lemma canary_inv_quiet:
  assumes "canary_inv config ct cs s"
    and "state_of ct (gate_step config c (gate_run config cs s)) = state_of ct (gate_run config cs s)"
    and "gate_out config ct c (gate_run config cs s) = []
      \<or> rs_mode (state_of ct (gate_run config cs s)) \<noteq> ModeCanary"
  shows "canary_inv config ct (cs @ [c]) s"
proof -
  have "canary_since config ct (cs @ [c]) s pre (blk @ [c])
      \<and> gate_log config ct (blk @ [c]) (gate_run config pre s)
        = gate_log config ct blk (gate_run config pre s)"
    if "canary_since config ct cs s pre blk" "gate_out config ct c (gate_run config cs s) = []"
    for pre blk
    using that by (auto simp: canary_since_def gate_log_append)
  then show ?thesis using assms unfolding canary_inv_def Let_def by fastforce
qed

lemma canary_inv_extend:
  assumes inv: "canary_inv config ct cs s"
    and out: "gate_out config ct c (gate_run config cs s) = [(now, CanaryOnly)]"
    and mode: "rs_mode (state_of ct (gate_run config cs s)) = ModeCanary"
    and later: "rs_lastCanaryReadingAt (state_of ct (gate_run config cs s)) < now"
  obtains pre blk where "canary_since config ct (cs @ [c]) s pre blk"
    "int (length (gate_log config ct blk (gate_run config pre s)))
       = rs_healthyReadings (state_of ct (gate_run config cs s)) + 1"
    "fst (hd (gate_log config ct blk (gate_run config pre s)))
       = rs_canaryStartedAt (state_of ct (gate_run config cs s))"
    "fst (last (gate_log config ct blk (gate_run config pre s))) = now"
proof -
  obtain pre blk where since: "canary_since config ct cs s pre blk"
    and vs: "int (length (gate_log config ct blk (gate_run config pre s)))
        = rs_healthyReadings (state_of ct (gate_run config cs s))"
      "fst (hd (gate_log config ct blk (gate_run config pre s)))
        = rs_canaryStartedAt (state_of ct (gate_run config cs s))"
      "fst (last (gate_log config ct blk (gate_run config pre s)))
        = rs_lastCanaryReadingAt (state_of ct (gate_run config cs s))"
    using inv mode by (auto simp: canary_inv_def Let_def)
  have "gate_log config ct blk (gate_run config pre s) \<noteq> []"
    using since by (simp add: canary_since_def canary_run_def)
  with canary_since_snoc [OF since out] vs later that [of pre "blk @ [c]"]
  show ?thesis by simp
qed

lemma canary_inv_step:
  assumes inv: "canary_inv config ct cs s"
    and grad: "rs_mode (state_of ct (gate_run config cs s)) = ModeNormal \<longrightarrow> graduated config ct cs s"
  shows "canary_inv config ct (cs @ [c]) s
    \<and> (rs_mode (state_of ct (gate_run config (cs @ [c]) s)) = ModeNormal \<longrightarrow>
       graduated config ct (cs @ [c]) s)"
proof -
  let ?s = "gate_run config cs s"
  note quiet = canary_inv_quiet [OF inv, of c] graduated_snoc [of config ct cs s c]
  have reopened: ?thesis if "rs_mode (state_of ct (gate_step config c ?s)) = ModeOpen"
    using that by (simp add: canary_inv_def)
  show ?thesis
  proof (cases "\<exists>r peers now. c = CallAdmit r peers now \<and> or_coverageType r = ct")
    case False
    then show ?thesis
      using quiet reopened grad by (cases c) (auto simp: state_of_admit_other)
  next
    case True
    then obtain r peers now where c: "c = CallAdmit r peers now" and own: "or_coverageType r = ct"
      by blast
    note view = c own
    show ?thesis
    proof (cases rule: admit_cases [of config r peers now ?s])
      case held then show ?thesis using view reopened by simp
    next
      case normal then show ?thesis using view quiet grad by simp
    next
      case start
      then have "canary_since config ct (cs @ [c]) s cs [c]"
        using view by (simp add: canary_since_def canary_run_def)
      then show ?thesis using start view unfolding canary_inv_def Let_def
        by (intro conjI impI exI [of _ cs] exI [of _ "[c]"]) auto
    next
      case continue
      then obtain pre blk where "canary_since config ct (cs @ [c]) s pre blk"
        "int (length (gate_log config ct blk (gate_run config pre s))) = rs_healthyReadings (state_of ct ?s) + 1"
        "fst (hd (gate_log config ct blk (gate_run config pre s))) = rs_canaryStartedAt (state_of ct ?s)"
        "fst (last (gate_log config ct blk (gate_run config pre s))) = now"
        using canary_inv_extend [OF inv, of c now] view by auto
      then show ?thesis using continue view unfolding canary_inv_def Let_def by auto
    next
      case graduate
      then obtain pre blk where since: "canary_since config ct (cs @ [c]) s pre blk"
        and vs: "int (length (gate_log config ct blk (gate_run config pre s))) = rs_healthyReadings (state_of ct ?s) + 1"
        "fst (hd (gate_log config ct blk (gate_run config pre s))) = rs_canaryStartedAt (state_of ct ?s)"
        "fst (last (gate_log config ct blk (gate_run config pre s))) = now"
        using canary_inv_extend [OF inv, of c now] view by auto
      have cs: "cs @ [c] = pre @ blk @ []" using since by (simp add: canary_since_def)
      have "rat_of_int (rs_healthyReadings (state_of ct ?s) + 1)
          = of_nat (length (gate_log config ct blk (gate_run config pre s)))"
        by (metis vs(1) of_int_of_nat_eq)
      with graduate view vs have
        "js_le (rc_healthyReadingsToGraduate config)
           (Num (of_nat (length (gate_log config ct blk (gate_run config pre s)))))"
        "rc_minimumCanaryDurationMs config
           \<le> fst (last (gate_log config ct blk (gate_run config pre s)))
             - fst (hd (gate_log config ct blk (gate_run config pre s)))"
        by simp_all
      moreover have "canary_since config ct (pre @ blk) s pre blk" using since cs by simp
      ultimately have "graduated config ct (cs @ [c]) s"
        unfolding graduated_def Let_def using cs by blast
      then show ?thesis using graduate view by (simp add: canary_inv_def)
    qed
  qed
qed

lemma canary_inv_run:
  assumes "rs_mode (state_of ct s) = ModeOpen"
  shows "canary_inv config ct cs s
    \<and> (rs_mode (state_of ct (gate_run config cs s)) = ModeNormal \<longrightarrow> graduated config ct cs s)"
proof (induction cs rule: rev_induct)
  case Nil
  then show ?case using assms by (simp add: canary_inv_def)
next
  case (snoc c cs)
  then show ?case by (intro canary_inv_step) auto
qed

section \<open>Properties\<close>

text \<open>A blocked coverage type is published again only after a sustained canary phase:
  if it is open and a later admission says publish, then in between there was a run of
  consecutive canary verdicts, started in an open state after its cooldown, at strictly
  increasing times, with at least the configured number of readings and the configured
  duration.\<close>

theorem publish_needs_canary_phase:
  assumes "rs_mode (state_of (or_coverageType r) s) = ModeOpen"
    and "fst (admit config r peers now (gate_run config cs s)) = Publish"
  shows "graduated config (or_coverageType r) cs s"
proof -
  have "rs_mode (state_of (or_coverageType r) (gate_run config cs s)) = ModeNormal"
    using assms(2) by (cases rule: admit_cases [of config r peers now "gate_run config cs s"]) auto
  then show ?thesis using canary_inv_run [OF assms(1)] by blast
qed

definition calm_reading :: oracle_reading where
  "calm_reading = \<lparr>or_readingId = None, or_coverageType = ''MarketCrash'', or_value = Num 1,
     or_threshold = Num 2, or_severity = Low, or_message = [], or_feedId = None, or_source = None,
     or_timestamp = None, or_deadlineAt = None, or_fetchDurationMs = None, or_degraded = None, or_usable = None\<rparr>"

definition quick_config :: recovery_config where
  "quick_config = DEFAULT_CONFIG\<lparr>rc_healthyReadingsToGraduate := Num 2, rc_minimumCanaryDurationMs := 10\<rparr>"

end
