(* ===== verification/Source_Health.thy ===== *)
theory Source_Health
  imports Refract_Prelude
begin

text \<open>
  Per-source reliability scoring (\<open>oracle/sourceHealth.ts\<close>): the one-step state machine of
  a source, its poll counters, and the noise band of a feed. Rates and deviations are exact
  rationals; the infinite relative deviation of a zero consensus is \<open>PosInf\<close>.
\<close>

datatype source_state = SrcHealthy | SrcDegraded | SrcQuarantined

datatype source_override = ForceQuarantine | ForceClear

record source_counters =
  sc_consecutiveFailures :: int
  sc_consecutiveSuccesses :: int
  sc_errorRate :: rat
  sc_divergenceRate :: rat
  sc_sampleCount :: int

record source_thresholds =
  sh_degradeConsecutiveFailures :: int
  sh_quarantineConsecutiveFailures :: int
  sh_degradeErrorRate :: rat
  sh_quarantineErrorRate :: rat
  sh_degradeDivergenceRate :: rat
  sh_quarantineDivergenceRate :: rat
  sh_recoverConsecutiveSuccesses :: int
  sh_minSamples :: int

definition DEFAULT_SOURCE_HEALTH_THRESHOLDS :: source_thresholds where
  "DEFAULT_SOURCE_HEALTH_THRESHOLDS = \<lparr>
     sh_degradeConsecutiveFailures = 2, sh_quarantineConsecutiveFailures = 5,
     sh_degradeErrorRate = 2 / 10, sh_quarantineErrorRate = 5 / 10,
     sh_degradeDivergenceRate = 2 / 10, sh_quarantineDivergenceRate = 5 / 10,
     sh_recoverConsecutiveSuccesses = 10, sh_minSamples = 20\<rparr>"

record source_transition =
  st_state :: source_state
  st_alert :: bool

definition classify :: "source_counters \<Rightarrow> source_thresholds \<Rightarrow> bool \<times> bool" where
  "classify c t =
     (let rated = (sc_sampleCount c \<ge> sh_minSamples t);
          bad = (sc_consecutiveFailures c \<ge> sh_degradeConsecutiveFailures t
                 \<or> rated \<and> (sc_errorRate c \<ge> sh_degradeErrorRate t
                             \<or> sc_divergenceRate c \<ge> sh_degradeDivergenceRate t));
          severe = (sc_consecutiveFailures c \<ge> sh_quarantineConsecutiveFailures t
                 \<or> rated \<and> (sc_errorRate c \<ge> sh_quarantineErrorRate t
                             \<or> sc_divergenceRate c \<ge> sh_quarantineDivergenceRate t))
      in (bad, severe))"

definition nextSourceState ::
  "source_state \<Rightarrow> source_counters \<Rightarrow> source_thresholds \<Rightarrow> bool \<Rightarrow> source_transition" where
  "nextSourceState current counters thresholds soleParticipant =
     (let (bad, severe) = classify counters thresholds;
          clean = (\<not> bad \<and> sc_consecutiveSuccesses counters \<ge> sh_recoverConsecutiveSuccesses thresholds)
      in case current of
           SrcHealthy \<Rightarrow> \<lparr>st_state = (if bad then SrcDegraded else SrcHealthy), st_alert = False\<rparr>
         | SrcDegraded \<Rightarrow>
             (if severe then
                (if soleParticipant then \<lparr>st_state = SrcDegraded, st_alert = True\<rparr>
                 else \<lparr>st_state = SrcQuarantined, st_alert = False\<rparr>)
              else \<lparr>st_state = (if clean then SrcHealthy else SrcDegraded), st_alert = False\<rparr>)
         | SrcQuarantined \<Rightarrow>
             \<lparr>st_state = (if clean then SrcDegraded else SrcQuarantined), st_alert = False\<rparr>)"

definition applyPollOutcome :: "source_counters \<Rightarrow> bool \<Rightarrow> source_counters" where
  "applyPollOutcome counters succeeded =
     counters\<lparr>sc_consecutiveFailures := (if succeeded then 0 else sc_consecutiveFailures counters + 1),
       sc_consecutiveSuccesses := (if succeeded then sc_consecutiveSuccesses counters + 1 else 0)\<rparr>"

definition relativeDeviation :: "rat \<Rightarrow> rat \<Rightarrow> js_number" where
  "relativeDeviation value consensus =
     (if consensus = 0 then (if value = 0 then Num 0 else PosInf)
      else Num (\<bar>value - consensus\<bar> / \<bar>consensus\<bar>))"

text \<open>The band and the rate are over finite deviations.\<close>

definition noiseBand :: "rat list \<Rightarrow> rat \<Rightarrow> rat" where
  "noiseBand deviations percentile =
     (if deviations = [] then 0
      else let sorted = sort deviations;
               rank = \<lceil>percentile * of_nat (length sorted)\<rceil> - 1
           in sorted ! nat (min (int (length sorted) - 1) (max 0 rank)))"

definition outsideBandRate :: "rat list \<Rightarrow> rat \<Rightarrow> rat" where
  "outsideBandRate deviations band =
     (if deviations = [] then 0
      else of_nat (length (filter (\<lambda>d. d > band) deviations)) / of_nat (length deviations))"

section \<open>Runs of polls\<close>

text \<open>A polling cycle: the poll outcome updates the counters, the rates of the window are
  given, and the next state is computed.\<close>

record poll_input =
  pl_succeeded :: bool
  pl_errorRate :: rat
  pl_divergenceRate :: rat
  pl_sampleCount :: int
  pl_sole :: bool

definition poll_step ::
  "source_thresholds \<Rightarrow> poll_input \<Rightarrow> source_state \<times> source_counters \<Rightarrow> source_state \<times> source_counters" where
  "poll_step t p = (\<lambda>(state, counters).
     let c = (applyPollOutcome counters (pl_succeeded p))\<lparr>sc_errorRate := pl_errorRate p,
               sc_divergenceRate := pl_divergenceRate p, sc_sampleCount := pl_sampleCount p\<rparr>
     in (st_state (nextSourceState state c t (pl_sole p)), c))"

definition in_quorum :: "source_state \<times> source_counters \<Rightarrow> bool" where
  "in_quorum s \<longleftrightarrow> fst s \<noteq> SrcQuarantined"

fun severity_rank :: "source_state \<Rightarrow> int" where
  "severity_rank SrcHealthy = 0"
| "severity_rank SrcDegraded = 1"
| "severity_rank SrcQuarantined = 2"

lemma poll_step_simps [simp]:
  "sc_consecutiveSuccesses (snd (poll_step t p s))
     = (if pl_succeeded p then sc_consecutiveSuccesses (snd s) + 1 else 0)"
  "fst (poll_step t p s)
     = st_state (nextSourceState (fst s) (snd (poll_step t p s)) t (pl_sole p))"
  by (simp_all add: poll_step_def Let_def split_beta applyPollOutcome_def)

lemma trailing_successes:
  assumes "sc_consecutiveSuccesses (snd s) = 0"
  shows "sc_consecutiveSuccesses (snd (fold (poll_step t) ps s))
     = int (length (takeWhile pl_succeeded (rev ps)))"
  using assms by (induction ps rule: rev_induct) auto

text \<open>Quarantine as a gate on the source's participation: it blocks on a severe poll of a
  degraded source that is not alone, and is left only by a poll that completes the
  required run of successes.\<close>

definition quarantining :: "source_thresholds \<Rightarrow> source_state \<times> source_counters \<Rightarrow> poll_input \<Rightarrow> bool" where
  "quarantining t s p \<longleftrightarrow> fst s = SrcDegraded \<and> \<not> pl_sole p \<and> snd (classify (snd (poll_step t p s)) t)"

definition readmitting :: "source_thresholds \<Rightarrow> source_state \<times> source_counters \<Rightarrow> poll_input \<Rightarrow> bool" where
  "readmitting t s p \<longleftrightarrow> \<not> fst (classify (snd (poll_step t p s)) t)
     \<and> sh_recoverConsecutiveSuccesses t \<le> sc_consecutiveSuccesses (snd (poll_step t p s))"

interpretation quarantine_gate:
  fail_safe_gate "poll_step t" in_quorum "quarantining t" "readmitting t" for t
  by unfold_locales
     (auto simp del: poll_step_simps(1) simp: in_quorum_def quarantining_def readmitting_def
        nextSourceState_def Let_def split_beta)

section \<open>Properties\<close>

text \<open>A quarantined source is readmitted only after the configured number of
  successful polls in a row: if a quarantined source with no current success run takes
  part again after some polls, one of them completed such a run.\<close>

theorem readmission_needs_clean_run:
  assumes "fst s = SrcQuarantined" "sc_consecutiveSuccesses (snd s) = 0"
    and "fst (fold (poll_step t) ps s) \<noteq> SrcQuarantined"
  shows "\<exists>pre post. ps = pre @ post \<and>
    sh_recoverConsecutiveSuccesses t \<le> int (length (takeWhile pl_succeeded (rev pre)))"
proof -
  obtain pre p post where ps: "ps = pre @ p # post"
    and release: "readmitting t (fold (poll_step t) pre s) p"
    using quarantine_gate.allowed_needs_release [of s t ps] assms(1,3) by (auto simp: in_quorum_def)
  have "sh_recoverConsecutiveSuccesses t
      \<le> sc_consecutiveSuccesses (snd (fold (poll_step t) (pre @ [p]) s))"
    using release by (simp add: readmitting_def)
  then have "sh_recoverConsecutiveSuccesses t \<le> int (length (takeWhile pl_succeeded (rev (pre @ [p]))))"
    by (simp only: trailing_successes [OF assms(2)])
  then show ?thesis using ps by (intro exI [of _ "pre @ [p]"] exI [of _ post]) simp
qed

definition good_poll :: poll_input where
  "good_poll = \<lparr>pl_succeeded = True, pl_errorRate = 0, pl_divergenceRate = 0, pl_sampleCount = 0, pl_sole = False\<rparr>"

definition silent_counters :: source_counters where
  "silent_counters = \<lparr>sc_consecutiveFailures = 9, sc_consecutiveSuccesses = 0, sc_errorRate = 0,
     sc_divergenceRate = 0, sc_sampleCount = 0\<rparr>"

text \<open>A source moves at most one level per evaluation, and a source that is alone on
  its feed is never taken out of the quorum: the alert is raised exactly when a degraded
  source that is alone looks severe.\<close>

theorem one_level_per_evaluation:
  "\<bar>severity_rank (st_state (nextSourceState cur c t sole)) - severity_rank cur\<bar> \<le> 1
   \<and> st_alert (nextSourceState cur c t sole)
       = (cur = SrcDegraded \<and> snd (classify c t) \<and> sole)
   \<and> \<not> (sole \<and> cur \<noteq> SrcQuarantined \<and> st_state (nextSourceState cur c t sole) = SrcQuarantined)"
  by (cases cur) (auto simp: nextSourceState_def Let_def split_beta)

text \<open>The noise band bounds the outliers: at most the share \<open>1 - percentile\<close> of the
  pooled deviations lies outside the band computed from them.\<close>

theorem noise_band_covers:
  assumes "0 \<le> percentile" "percentile \<le> 1"
  shows "outsideBandRate deviations (noiseBand deviations percentile) \<le> 1 - percentile"
proof (cases "deviations = []")
  case True
  then show ?thesis using assms by (simp add: outsideBandRate_def)
next
  case False
  define n where "n = length deviations"
  define i where "i = nat (min (int n - 1) (max 0 (\<lceil>percentile * of_nat n\<rceil> - 1)))"
  have n: "0 < n" using False by (simp add: n_def)
  then have i: "i < n" by (auto simp: i_def)
  have "percentile * of_nat n \<le> of_nat n" using mult_right_mono [OF assms(2), of "of_nat n"] by simp
  then have "\<lceil>percentile * of_nat n\<rceil> \<le> int n" by (simp add: ceiling_le_iff)
  then have "\<lceil>percentile * of_nat n\<rceil> \<le> int (Suc i)" by (simp add: i_def max_def)
  then have pi: "percentile * of_nat n \<le> of_nat (Suc i)" by (simp add: ceiling_le_iff)
  let ?c = "length (filter (\<lambda>d. d > sort deviations ! i) deviations)"
  have "mset (filter (\<lambda>d. d > sort deviations ! i) deviations)
      = mset (filter (\<lambda>d. d > sort deviations ! i) (sort deviations))" by simp
  then have "?c = length (filter (\<lambda>d. d > sort deviations ! i) (sort deviations))"
    by (metis size_mset)
  then have "?c \<le> n - Suc i"
    using count_above_nth [of "sort deviations" i] i by (simp add: n_def)
  then have "rat_of_nat ?c \<le> of_nat n - of_nat (Suc i)" using i by (simp add: of_nat_diff)
  also have "\<dots> \<le> (1 - percentile) * of_nat n" using pi by (simp add: algebra_simps)
  finally have "rat_of_nat ?c / of_nat n \<le> 1 - percentile"
    using n by (simp add: divide_le_eq)
  moreover have "noiseBand deviations percentile = sort deviations ! i"
    using False by (simp add: noiseBand_def Let_def i_def n_def)
  ultimately show ?thesis using False by (simp add: outsideBandRate_def n_def)
qed

end
