(* ===== verification/Trigger_Stability.thy ===== *)
theory Trigger_Stability
  imports Refract_Prelude
begin

text \<open>
  Debounced threshold triggers (\<open>claim/trigger/trigger-stability.ts\<close>): hysteresis, minimum
  dwell and flap damping. The penalty decays by a real power of two, so it and the damping
  configuration are reals; readings, thresholds and the band are JavaScript numbers whose
  finiteness the code tests. Times are integers, so the finiteness test on \<open>observedAt\<close>
  always passes. The message of a decision is a constructor with the numbers the template
  interpolates. Listeners cannot affect a decision: \<open>evaluate\<close> returns the event it emits.
\<close>

datatype trigger_direction = Below | Above

datatype trigger_phase = Clear | Arming | Triggered | Disarming

record flap_config =
  fd_penaltyPerFlip :: real
  fd_suppressAbove :: real
  fd_reuseBelow :: real
  fd_halfLifeMs :: real
  fd_maxPenalty :: real

record trigger_config =
  tc_hysteresis :: js_number
  tc_minDwellMs :: js_number
  tc_minConfirmations :: js_number
  tc_flap :: flap_config

record trigger_observation =
  ob_value :: js_number
  ob_threshold :: js_number
  ob_direction :: trigger_direction
  ob_observedAt :: time_ms

record key_state =
  ks_phase :: trigger_phase
  ks_candidateSince :: "time_ms option"
  ks_candidateCount :: int
  ks_confirmedAt :: "time_ms option"
  ks_lastRawBreached :: "bool option"
  ks_penalty :: real
  ks_suppressed :: bool
  ks_lastObservedAt :: "time_ms option"
  ks_flips :: int

datatype decision_reason =
    NotNewer
  | NotBreached
  | BreachedWaiting int js_number int js_number
  | BreachedSuppressed real
  | BreachConfirmed
  | StillBreached
  | WithinBand
  | RecoveredWaiting
  | RecoveredSuppressed real
  | RecoveryConfirmed

record trigger_decision =
  td_triggered :: bool
  td_phase :: trigger_phase
  td_suppressed :: bool
  td_penalty :: real
  td_confirmedAt :: "time_ms option"
  td_changed :: bool
  td_accepted :: bool
  td_reason :: decision_reason

datatype transition_kind = KTransition | KSuppressed

record transition_event =
  te_key :: string
  te_kind :: transition_kind
  te_from :: trigger_phase
  te_to :: trigger_phase
  te_at :: time_ms
  te_value :: js_number
  te_threshold :: js_number
  te_direction :: trigger_direction
  te_hysteresis :: js_number
  te_penalty :: real
  te_flips :: int
  te_candidateSince :: "time_ms option"
  te_reason :: decision_reason

definition DEFAULT_FLAP_DAMPING :: flap_config where
  "DEFAULT_FLAP_DAMPING = \<lparr>fd_penaltyPerFlip = 1000, fd_suppressAbove = 3000, fd_reuseBelow = 750,
     fd_halfLifeMs = 15 * 60000, fd_maxPenalty = 6000\<rparr>"

definition DEFAULT_HYSTERESIS_BY_COVERAGE_TYPE :: "int \<Rightarrow> rat option" where
  "DEFAULT_HYSTERESIS_BY_COVERAGE_TYPE t =
     (if t = 0 then Some (5 / 1000) else if t = 1 then Some 1 else if t = 2 then Some (2 / 100)
      else if t = 3 then Some 1 else if t = 4 then Some 10 else None)"

text \<open>The overrides: each field, and each field of the damping overrides, may be absent.\<close>

record flap_overrides =
  fo_penaltyPerFlip :: "real option"
  fo_suppressAbove :: "real option"
  fo_reuseBelow :: "real option"
  fo_halfLifeMs :: "real option"
  fo_maxPenalty :: "real option"

record trigger_overrides =
  to_hysteresis :: "js_number option"
  to_minDwellMs :: "js_number option"
  to_minConfirmations :: "js_number option"
  to_flap :: "flap_overrides option"

definition with_default :: "'a option \<Rightarrow> 'a \<Rightarrow> 'a" where
  "with_default x d = (case x of Some v \<Rightarrow> v | None \<Rightarrow> d)"

lemma with_default_simps [simp]: "with_default (Some v) d = v" "with_default None d = d"
  by (simp_all add: with_default_def)

definition merge_flap :: "flap_overrides option \<Rightarrow> flap_config \<Rightarrow> flap_config" where
  "merge_flap ov d = (case ov of None \<Rightarrow> d | Some f \<Rightarrow> \<lparr>
     fd_penaltyPerFlip = with_default (fo_penaltyPerFlip f) (fd_penaltyPerFlip d),
     fd_suppressAbove = with_default (fo_suppressAbove f) (fd_suppressAbove d),
     fd_reuseBelow = with_default (fo_reuseBelow f) (fd_reuseBelow d),
     fd_halfLifeMs = with_default (fo_halfLifeMs f) (fd_halfLifeMs d),
     fd_maxPenalty = with_default (fo_maxPenalty f) (fd_maxPenalty d)\<rparr>)"

definition defaultTriggerConfig :: "int \<Rightarrow> trigger_overrides \<Rightarrow> trigger_config" where
  "defaultTriggerConfig coverageType ov = \<lparr>
     tc_hysteresis = with_default (to_hysteresis ov)
       (Num (with_default (DEFAULT_HYSTERESIS_BY_COVERAGE_TYPE coverageType) 0)),
     tc_minDwellMs = with_default (to_minDwellMs ov) (Num (5 * 60000)),
     tc_minConfirmations = with_default (to_minConfirmations ov) (Num 2),
     tc_flap = merge_flap (to_flap ov) DEFAULT_FLAP_DAMPING\<rparr>"

definition validateTriggerConfig :: "trigger_config \<Rightarrow> unit result" where
  "validateTriggerConfig config =
     (let flap = tc_flap config in
      if \<not> isFinite (tc_hysteresis config) \<or> js_less (tc_hysteresis config) (Num 0)
      then Inl (Err ''hysteresis must be a finite number >= 0'')
      else if \<not> isFinite (tc_minDwellMs config) \<or> js_less (tc_minDwellMs config) (Num 0)
      then Inl (Err ''minDwellMs must be >= 0'')
      else if \<not> isInteger (tc_minConfirmations config) \<or> js_less (tc_minConfirmations config) (Num 1)
      then Inl (Err ''minConfirmations must be an integer >= 1'')
      else if \<not> fd_halfLifeMs flap > 0 then Inl (Err ''flap.halfLifeMs must be > 0'')
      else if \<not> fd_penaltyPerFlip flap \<ge> 0 then Inl (Err ''flap.penaltyPerFlip must be >= 0'')
      else if \<not> (fd_reuseBelow flap > 0 \<and> fd_reuseBelow flap < fd_suppressAbove flap)
      then Inl (Err ''flap.reuseBelow must be > 0 and < flap.suppressAbove'')
      else if \<not> fd_maxPenalty flap \<ge> fd_suppressAbove flap
      then Inl (Err ''flap.maxPenalty must be >= flap.suppressAbove'')
      else Inr ())"

definition maxSuppressionMs :: "flap_config \<Rightarrow> real" where
  "maxSuppressionMs flap = fd_halfLifeMs flap * log 2 (fd_maxPenalty flap / fd_reuseBelow flap)"

definition initialState :: key_state where
  "initialState = \<lparr>ks_phase = Clear, ks_candidateSince = None, ks_candidateCount = 0,
     ks_confirmedAt = None, ks_lastRawBreached = None, ks_penalty = 0, ks_suppressed = False,
     ks_lastObservedAt = None, ks_flips = 0\<rparr>"

definition isConfirmed :: "trigger_phase \<Rightarrow> bool" where
  "isConfirmed phase \<longleftrightarrow> phase = Triggered \<or> phase = Disarming"

section \<open>Evaluation\<close>

definition breached :: "trigger_observation \<Rightarrow> bool" where
  "breached obs = (case ob_direction obs of
     Below \<Rightarrow> js_less (ob_value obs) (ob_threshold obs)
   | Above \<Rightarrow> js_less (ob_threshold obs) (ob_value obs))"

definition recovered :: "trigger_config \<Rightarrow> trigger_observation \<Rightarrow> bool" where
  "recovered config obs = (case ob_direction obs of
     Below \<Rightarrow> num_of (ob_value obs) \<ge> num_of (ob_threshold obs) + num_of (tc_hysteresis config)
   | Above \<Rightarrow> num_of (ob_value obs) \<le> num_of (ob_threshold obs) - num_of (tc_hysteresis config))"

text \<open>Decay, then the charge for a raw crossing, then the suppression flag.\<close>

definition damp_flaps :: "trigger_config \<Rightarrow> trigger_observation \<Rightarrow> key_state \<Rightarrow> key_state" where
  "damp_flaps config obs s =
     (let flap = tc_flap config;
          decayed = (case ks_lastObservedAt s of
             None \<Rightarrow> ks_penalty s
           | Some t \<Rightarrow> ks_penalty s * 2 powr (- real_of_int (ob_observedAt obs - t) / fd_halfLifeMs flap));
          flipped = (ks_lastRawBreached s \<noteq> None \<and> ks_lastRawBreached s \<noteq> Some (breached obs));
          penalty = (if flipped then min (fd_maxPenalty flap) (decayed + fd_penaltyPerFlip flap) else decayed);
          suppressed = (if \<not> ks_suppressed s \<and> penalty > fd_suppressAbove flap then True
                        else if ks_suppressed s \<and> penalty < fd_reuseBelow flap then False
                        else ks_suppressed s)
      in s\<lparr>ks_lastRawBreached := Some (breached obs), ks_penalty := penalty, ks_suppressed := suppressed,
           ks_lastObservedAt := Some (ob_observedAt obs),
           ks_flips := (if flipped then ks_flips s + 1 else ks_flips s)\<rparr>)"

definition dwellMet :: "trigger_config \<Rightarrow> trigger_observation \<Rightarrow> key_state \<Rightarrow> bool" where
  "dwellMet config obs s = (case ks_candidateSince s of
     None \<Rightarrow> False
   | Some since \<Rightarrow> js_le (tc_minConfirmations config) (Num (of_int (ks_candidateCount s)))
       \<and> js_le (tc_minDwellMs config) (Num (of_int (ob_observedAt obs - since))))"

text \<open>A candidate is started, or counted on.\<close>

definition count_candidate :: "trigger_phase \<Rightarrow> trigger_phase \<Rightarrow> trigger_observation \<Rightarrow> key_state \<Rightarrow> key_state" where
  "count_candidate resting candidate obs s =
     (if ks_phase s = resting
      then s\<lparr>ks_phase := candidate, ks_candidateSince := Some (ob_observedAt obs), ks_candidateCount := 1\<rparr>
      else s\<lparr>ks_candidateCount := ks_candidateCount s + 1\<rparr>)"

abbreviation drop_candidate :: "trigger_phase \<Rightarrow> key_state \<Rightarrow> key_state" where
  "drop_candidate phase s \<equiv> s\<lparr>ks_phase := phase, ks_candidateSince := None, ks_candidateCount := 0\<rparr>"

definition phase_step ::
  "trigger_config \<Rightarrow> trigger_observation \<Rightarrow> key_state \<Rightarrow> key_state \<times> bool \<times> decision_reason" where
  "phase_step config obs s =
     (if ks_phase s = Clear \<or> ks_phase s = Arming then
        (if \<not> breached obs then (drop_candidate Clear s, False, NotBreached)
         else let s = count_candidate Clear Arming obs s in
           if \<not> dwellMet config obs s then
             (s, False, BreachedWaiting (ks_candidateCount s) (tc_minConfirmations config)
                (ob_observedAt obs - with_default (ks_candidateSince s) (ob_observedAt obs)) (tc_minDwellMs config))
           else if ks_suppressed s then (s, True, BreachedSuppressed (ks_penalty s))
           else ((drop_candidate Triggered s)\<lparr>ks_confirmedAt := Some (ob_observedAt obs)\<rparr>, False, BreachConfirmed))
      else
        (if \<not> recovered config obs then
           (drop_candidate Triggered s, False, if breached obs then StillBreached else WithinBand)
         else let s = count_candidate Triggered Disarming obs s in
           if \<not> dwellMet config obs s then (s, False, RecoveredWaiting)
           else if ks_suppressed s then (s, True, RecoveredSuppressed (ks_penalty s))
           else ((drop_candidate Clear s)\<lparr>ks_confirmedAt := None\<rparr>, False, RecoveryConfirmed)))"

definition decision_of :: "key_state \<Rightarrow> bool \<Rightarrow> bool \<Rightarrow> decision_reason \<Rightarrow> trigger_decision" where
  "decision_of s accepted changed reason = \<lparr>td_triggered = isConfirmed (ks_phase s),
     td_phase = ks_phase s, td_suppressed = ks_suppressed s, td_penalty = ks_penalty s,
     td_confirmedAt = (if isConfirmed (ks_phase s) then ks_confirmedAt s else None),
     td_changed = changed, td_accepted = accepted, td_reason = reason\<rparr>"

definition ignored :: "trigger_observation \<Rightarrow> key_state \<Rightarrow> bool" where
  "ignored obs s = (case ks_lastObservedAt s of None \<Rightarrow> False | Some t \<Rightarrow> ob_observedAt obs \<le> t)"

type_synonym trigger_states = "string \<rightharpoonup> key_state"

definition evaluate ::
  "(string \<Rightarrow> trigger_config) \<Rightarrow> string \<Rightarrow> trigger_observation \<Rightarrow> trigger_states
     \<Rightarrow> (trigger_decision \<times> trigger_states \<times> transition_event option) result" where
  "evaluate configFor key obs states =
     (let config = configFor key in
      then_result (validateTriggerConfig config) (\<lambda>_.
      if \<not> isFinite (ob_value obs) \<or> \<not> isFinite (ob_threshold obs)
      then Inl (Err (''Non-finite trigger observation for '' @ key))
      else let prev = with_default (states key) initialState in
        if ignored obs prev then Inr (decision_of prev False False NotNewer, states, None)
        else let s0 = damp_flaps config obs prev;
                 (s, suppressedChange, reason) = phase_step config obs s0;
                 changed = (isConfirmed (ks_phase prev) \<noteq> isConfirmed (ks_phase s));
                 event = (if changed \<or> suppressedChange then
                   Some \<lparr>te_key = key, te_kind = (if changed then KTransition else KSuppressed),
                     te_from = ks_phase prev,
                     te_to = (if changed then ks_phase s
                              else if isConfirmed (ks_phase prev) then Clear else Triggered),
                     te_at = ob_observedAt obs, te_value = ob_value obs, te_threshold = ob_threshold obs,
                     te_direction = ob_direction obs, te_hysteresis = tc_hysteresis config,
                     te_penalty = ks_penalty s, te_flips = ks_flips s,
                     te_candidateSince = ks_candidateSince prev, te_reason = reason\<rparr> else None)
             in Inr (decision_of s True changed reason, states(key \<mapsto> s), event)))"

definition get_trigger :: "string \<Rightarrow> trigger_states \<Rightarrow> key_state option" where
  "get_trigger key states = states key"

definition forget :: "string \<Rightarrow> trigger_states \<Rightarrow> trigger_states" where
  "forget key states = states(key := None)"

definition snapshot :: "trigger_states \<Rightarrow> trigger_states" where
  "snapshot states = states"

definition restore :: "trigger_states \<Rightarrow> trigger_states \<Rightarrow> trigger_states" where
  "restore snap states = Map.empty ++ snap"

section \<open>Runs of observations of one key\<close>

definition accepted_step :: "trigger_config \<Rightarrow> trigger_observation \<Rightarrow> key_state \<Rightarrow> key_state" where
  "accepted_step config obs s = fst (phase_step config obs (damp_flaps config obs s))"

fun observe_all ::
  "(string \<Rightarrow> trigger_config) \<Rightarrow> string \<Rightarrow> trigger_observation list \<Rightarrow> trigger_states \<Rightarrow> trigger_states result" where
  "observe_all configFor key [] states = Inr states"
| "observe_all configFor key (obs # rest) states =
     then_result (evaluate configFor key obs states) (\<lambda>(_, states', _). observe_all configFor key rest states')"

text \<open>The observations a key accepts: each newer than the last accepted one.\<close>

definition accept_step :: "trigger_observation list \<Rightarrow> trigger_observation \<Rightarrow> trigger_observation list" where
  "accept_step acc obs =
     (if acc \<noteq> [] \<and> ob_observedAt obs \<le> ob_observedAt (last acc) then acc else acc @ [obs])"

definition accepted :: "trigger_observation list \<Rightarrow> trigger_observation list" where
  "accepted os = foldl accept_step [] os"

lemma accepted_snoc: "accepted (os @ [obs]) = accept_step (accepted os) obs"
  by (simp add: accepted_def)

lemma observe_all_snoc:
  "observe_all configFor key (os @ [obs]) states =
     then_result (observe_all configFor key os states)
       (\<lambda>st. then_result (evaluate configFor key obs st) (\<lambda>(_, st', _). Inr st'))"
proof (induction os arbitrary: states)
  case (Cons x os)
  then show ?case by (cases "evaluate configFor key x states") auto
qed simp

lemma evaluate_cases:
  assumes "evaluate configFor key obs states = Inr (d, states', ev)"
  defines "prev \<equiv> with_default (states key) initialState"
  obtains (ignored) "ignored obs prev" "states' = states" "\<not> td_changed d" "\<not> td_accepted d"
  | (accepted) "\<not> ignored obs prev" "states' = states(key \<mapsto> accepted_step (configFor key) obs prev)"
      "d = decision_of (accepted_step (configFor key) obs prev) True
        (isConfirmed (ks_phase prev) \<noteq> isConfirmed (ks_phase (accepted_step (configFor key) obs prev)))
        (snd (snd (phase_step (configFor key) obs (damp_flaps (configFor key) obs prev))))"
  using assms(1) that unfolding evaluate_def accepted_step_def
  by (auto simp: Let_def split_beta decision_of_def prev_def [symmetric]
           elim!: then_result_InrE split: if_splits)

lemma evaluate_valid:
  "evaluate configFor key obs states = Inr r \<Longrightarrow> validateTriggerConfig (configFor key) = Inr ()"
  by (auto simp: evaluate_def Let_def elim!: then_result_InrE)

section \<open>Dwell\<close>

definition block_for ::
  "(trigger_observation \<Rightarrow> bool) \<Rightarrow> trigger_observation list \<Rightarrow> key_state \<Rightarrow> bool" where
  "block_for P acc s \<longleftrightarrow> (\<exists>pre blk. acc = pre @ blk \<and> blk \<noteq> [] \<and> (\<forall>x \<in> set blk. P x)
     \<and> int (length blk) = ks_candidateCount s \<and> ks_candidateSince s = Some (ob_observedAt (hd blk)))"

definition candidate_inv :: "trigger_config \<Rightarrow> trigger_observation list \<Rightarrow> key_state \<Rightarrow> bool" where
  "candidate_inv config acc s \<longleftrightarrow>
     (ks_phase s = Arming \<longrightarrow> block_for breached acc s)
     \<and> (ks_phase s = Disarming \<longrightarrow> block_for (recovered config) acc s)
     \<and> ks_lastObservedAt s = (if acc = [] then None else Some (ob_observedAt (last acc)))"

text \<open>The last observations all satisfy \<open>P\<close>, are enough and span the dwell time.\<close>

definition sustained ::
  "(trigger_observation \<Rightarrow> bool) \<Rightarrow> trigger_config \<Rightarrow> trigger_observation list \<Rightarrow> bool" where
  "sustained P config acc \<longleftrightarrow> (\<exists>pre blk. acc = pre @ blk \<and> blk \<noteq> [] \<and> (\<forall>x \<in> set blk. P x)
     \<and> js_le (tc_minConfirmations config) (Num (of_nat (length blk)))
     \<and> js_le (tc_minDwellMs config) (Num (of_int (ob_observedAt (last blk) - ob_observedAt (hd blk)))))"

lemma sustainedI:
  assumes "acc = pre @ blk" "blk \<noteq> []" "\<forall>x \<in> set blk. P x"
    "js_le (tc_minConfirmations config) (Num (of_nat (length blk)))"
    "js_le (tc_minDwellMs config) (Num (of_int (ob_observedAt (last blk) - ob_observedAt (hd blk))))"
  shows "sustained P config acc"
  using assms unfolding sustained_def by blast

lemma damp_flaps_simps [simp]:
  "ks_phase (damp_flaps config obs s) = ks_phase s"
  "ks_candidateSince (damp_flaps config obs s) = ks_candidateSince s"
  "ks_candidateCount (damp_flaps config obs s) = ks_candidateCount s"
  "ks_lastObservedAt (damp_flaps config obs s) = Some (ob_observedAt obs)"
  by (simp_all add: damp_flaps_def Let_def)

lemma phase_step_keeps [simp]:
  "ks_lastObservedAt (fst (phase_step config obs s)) = ks_lastObservedAt s"
  "ks_penalty (fst (phase_step config obs s)) = ks_penalty s"
  "ks_suppressed (fst (phase_step config obs s)) = ks_suppressed s"
  "ks_lastRawBreached (fst (phase_step config obs s)) = ks_lastRawBreached s"
  by (simp_all add: phase_step_def count_candidate_def Let_def)

lemma block_for_count:
  assumes "P obs" "ks_phase s = resting \<or> block_for P acc s"
  shows "block_for P (acc @ [obs]) (count_candidate resting candidate obs s)"
proof (cases "ks_phase s = resting")
  case True
  then show ?thesis using assms(1) unfolding block_for_def count_candidate_def
    by (intro exI [of _ acc] exI [of _ "[obs]"]) simp
next
  case False
  with assms(2) obtain pre blk where "acc = pre @ blk" "blk \<noteq> []" "\<forall>x \<in> set blk. P x"
    "int (length blk) = ks_candidateCount s" "ks_candidateSince s = Some (ob_observedAt (hd blk))"
    by (auto simp: block_for_def)
  then show ?thesis using assms(1) False unfolding block_for_def count_candidate_def
    by (intro exI [of _ pre] exI [of _ "blk @ [obs]"]) simp
qed

lemma block_sustained:
  assumes "block_for P (acc @ [obs]) s" "dwellMet config obs s"
  shows "sustained P config (acc @ [obs])"
proof -
  obtain pre blk where blk: "acc @ [obs] = pre @ blk" "blk \<noteq> []" "\<forall>x \<in> set blk. P x"
    "int (length blk) = ks_candidateCount s" "ks_candidateSince s = Some (ob_observedAt (hd blk))"
    using assms(1) by (auto simp: block_for_def)
  then have "last blk = obs" by (metis last_appendR last_snoc)
  moreover have "rat_of_nat (length blk) = of_int (ks_candidateCount s)"
    by (metis blk(4) of_int_of_nat_eq)
  then have "js_le (tc_minConfirmations config) (Num (of_nat (length blk)))"
    using assms(2) blk(5) by (simp add: dwellMet_def)
  ultimately show ?thesis using assms(2) blk
    by (intro sustainedI [of _ pre blk]) (simp_all add: dwellMet_def)
qed

text \<open>One accepted observation keeps the candidate invariant, and a change of the confirmed
  outcome is sustained.\<close>

lemma accepted_step_inv:
  assumes inv: "candidate_inv config acc s"
  shows "candidate_inv config (acc @ [obs]) (accepted_step config obs s)"
    and "\<not> isConfirmed (ks_phase s) \<Longrightarrow> isConfirmed (ks_phase (accepted_step config obs s)) \<Longrightarrow>
      sustained breached config (acc @ [obs]) \<and> \<not> ks_suppressed (accepted_step config obs s)"
    and "isConfirmed (ks_phase s) \<Longrightarrow> \<not> isConfirmed (ks_phase (accepted_step config obs s)) \<Longrightarrow>
      sustained (recovered config) config (acc @ [obs]) \<and> \<not> ks_suppressed (accepted_step config obs s)"
proof -
  let ?s = "damp_flaps config obs s"
  have arm: "block_for breached (acc @ [obs]) (count_candidate Clear Arming obs ?s)"
    if "breached obs" "ks_phase s = Clear \<or> ks_phase s = Arming"
    using that inv by (intro block_for_count) (auto simp: candidate_inv_def block_for_def)
  have disarm: "block_for (recovered config) (acc @ [obs]) (count_candidate Triggered Disarming obs ?s)"
    if "recovered config obs" "ks_phase s = Triggered \<or> ks_phase s = Disarming"
    using that inv by (intro block_for_count) (auto simp: candidate_inv_def block_for_def)
  have phase: "ks_phase (count_candidate r c obs t) = (if ks_phase t = r then c else ks_phase t)" for r c t
    by (simp add: count_candidate_def)
  have last: "ks_lastObservedAt (accepted_step config obs s) = Some (ob_observedAt obs)"
    by (simp add: accepted_step_def)
  note arm_sus = block_sustained [of breached acc obs "count_candidate Clear Arming obs ?s" config]
    and disarm_sus = block_sustained [of "recovered config" acc obs
      "count_candidate Triggered Disarming obs ?s" config]
  show "candidate_inv config (acc @ [obs]) (accepted_step config obs s)"
    using arm disarm unfolding candidate_inv_def last
    by (cases "ks_phase s")
       (auto simp: accepted_step_def phase_step_def Let_def phase split: if_splits)
  show "\<not> isConfirmed (ks_phase s) \<Longrightarrow> isConfirmed (ks_phase (accepted_step config obs s)) \<Longrightarrow>
      sustained breached config (acc @ [obs]) \<and> \<not> ks_suppressed (accepted_step config obs s)"
    using arm arm_sus
    by (cases "ks_phase s")
       (auto simp: accepted_step_def phase_step_def Let_def phase isConfirmed_def split: if_splits)
  show "isConfirmed (ks_phase s) \<Longrightarrow> \<not> isConfirmed (ks_phase (accepted_step config obs s)) \<Longrightarrow>
      sustained (recovered config) config (acc @ [obs]) \<and> \<not> ks_suppressed (accepted_step config obs s)"
    using disarm disarm_sus
    by (cases "ks_phase s")
       (auto simp: accepted_step_def phase_step_def Let_def phase isConfirmed_def split: if_splits)
qed

lemma ignored_iff_accept_step:
  assumes "candidate_inv config acc s"
  shows "accept_step acc obs = (if ignored obs s then acc else acc @ [obs])"
  using assms by (auto simp: candidate_inv_def ignored_def accept_step_def)

lemma observe_all_inv:
  assumes "observe_all configFor key os Map.empty = Inr states"
  shows "candidate_inv (configFor key) (accepted os) (with_default (states key) initialState)"
  using assms
proof (induction os arbitrary: states rule: rev_induct)
  case Nil
  then show ?case
    by (auto simp: candidate_inv_def accepted_def with_default_def initialState_def)
next
  case (snoc obs os)
  from snoc.prems obtain st d ev where
    st: "observe_all configFor key os Map.empty = Inr st" "evaluate configFor key obs st = Inr (d, states, ev)"
    by (auto simp: observe_all_snoc elim!: then_result_InrE)
  note inv = snoc.IH [OF st(1)]
  show ?case
    using st(2)
    by (cases rule: evaluate_cases)
       (auto simp: accepted_snoc ignored_iff_accept_step [OF inv] inv accepted_step_inv(1) [OF inv]
          with_default_simps)
qed

section \<open>Properties\<close>

text \<open>A condition turns on or off only after a sustained crossing: when a decision
  changes the confirmed outcome, the key is not suppressed and the last accepted
  observations were all past the threshold (to turn on) or all recovered past the
  hysteresis band (to turn off), at least \<open>minConfirmations\<close> of them over at least
  \<open>minDwellMs\<close>. Replayed and reordered observations are not counted.\<close>

theorem change_needs_dwell:
  assumes "observe_all configFor key os Map.empty = Inr states"
    and "evaluate configFor key obs states = Inr (d, states', ev)"
    and "td_changed d"
  shows "\<not> td_suppressed d \<and>
    sustained (if td_triggered d then breached else recovered (configFor key)) (configFor key)
      (accepted (os @ [obs]))"
proof -
  note inv = observe_all_inv [OF assms(1)]
  show ?thesis
    using assms(2)
  proof (cases rule: evaluate_cases)
    case ignored
    then show ?thesis using assms(3) by simp
  next
    case accepted
    then show ?thesis
      using assms(3) accepted_step_inv(2,3) [OF inv, of obs]
      by (auto simp: accepted_snoc ignored_iff_accept_step [OF inv] decision_of_def)
  qed
qed

definition steady_config :: trigger_config where
  "steady_config = defaultTriggerConfig 0
     \<lparr>to_hysteresis = None, to_minDwellMs = None, to_minConfirmations = None, to_flap = None\<rparr>"

definition low_price :: "time_ms \<Rightarrow> trigger_observation" where
  "low_price t = \<lparr>ob_value = Num (9 / 10), ob_threshold = Num (95 / 100), ob_direction = Below, ob_observedAt = t\<rparr>"

lemma steady_config_valid: "validateTriggerConfig steady_config = Inr ()"
  by (simp add: validateTriggerConfig_def steady_config_def defaultTriggerConfig_def merge_flap_def
      DEFAULT_HYSTERESIS_BY_COVERAGE_TYPE_def DEFAULT_FLAP_DAMPING_def)

lemma steady_first:
  "evaluate (\<lambda>_. steady_config) ''p'' (low_price 0) Map.empty =
     Inr (decision_of s True False (BreachedWaiting 1 (Num 2) 0 (Num 300000)), Map.empty(''p'' \<mapsto> s), None)"
  if "s = initialState\<lparr>ks_phase := Arming, ks_candidateSince := Some 0, ks_candidateCount := 1,
        ks_lastRawBreached := Some True, ks_lastObservedAt := Some 0\<rparr>"
  using steady_config_valid
  by (simp add: that evaluate_def low_price_def initialState_def ignored_def damp_flaps_def phase_step_def
      breached_def count_candidate_def dwellMet_def isConfirmed_def steady_config_def
      defaultTriggerConfig_def merge_flap_def DEFAULT_FLAP_DAMPING_def Let_def)

lemma steady_second:
  assumes "s = initialState\<lparr>ks_phase := Arming, ks_candidateSince := Some 0, ks_candidateCount := 1,
        ks_lastRawBreached := Some True, ks_lastObservedAt := Some 0\<rparr>"
  shows "\<exists>d st ev. evaluate (\<lambda>_. steady_config) ''p'' (low_price 300000) (Map.empty(''p'' \<mapsto> s)) = Inr (d, st, ev)
     \<and> td_changed d \<and> td_triggered d"
  using steady_config_valid
  by (simp add: assms evaluate_def low_price_def initialState_def ignored_def damp_flaps_def phase_step_def
      breached_def count_candidate_def dwellMet_def isConfirmed_def steady_config_def decision_of_def
      defaultTriggerConfig_def merge_flap_def DEFAULT_FLAP_DAMPING_def Let_def)

section \<open>Flap damping\<close>

definition penalty_inv :: "trigger_config \<Rightarrow> key_state \<Rightarrow> bool" where
  "penalty_inv config s \<longleftrightarrow> 0 \<le> ks_penalty s \<and> ks_penalty s \<le> fd_maxPenalty (tc_flap config)
     \<and> (\<forall>t. ks_lastObservedAt s = Some t \<longrightarrow> ks_lastRawBreached s \<noteq> None)"

lemma valid_flap:
  assumes "validateTriggerConfig config = Inr ()"
  shows "0 < fd_halfLifeMs (tc_flap config)" "0 \<le> fd_penaltyPerFlip (tc_flap config)"
    "0 < fd_reuseBelow (tc_flap config)" "fd_reuseBelow (tc_flap config) < fd_suppressAbove (tc_flap config)"
    "fd_suppressAbove (tc_flap config) \<le> fd_maxPenalty (tc_flap config)"
  using assms by (auto simp: validateTriggerConfig_def Let_def not_less not_le split: if_splits)

lemma accepted_step_damp [simp]:
  "ks_penalty (accepted_step config obs s) = ks_penalty (damp_flaps config obs s)"
  "ks_suppressed (accepted_step config obs s) = ks_suppressed (damp_flaps config obs s)"
  "ks_lastRawBreached (accepted_step config obs s) = Some (breached obs)"
  "ks_lastObservedAt (accepted_step config obs s) = Some (ob_observedAt obs)"
  by (simp_all add: accepted_step_def) (simp add: damp_flaps_def Let_def)

lemma decay_le:
  fixes p h e :: real
  assumes "0 \<le> p" "0 < h" "0 \<le> e"
  shows "p * 2 powr (- e / h) \<le> p"
proof -
  have "- e / h \<le> 0" using assms by simp
  then have "2 powr (- e / h) \<le> (2::real) powr 0" by (intro powr_mono) auto
  then show ?thesis using assms(1) by (simp add: mult_left_le)
qed

lemma penalty_inv_step:
  assumes "validateTriggerConfig config = Inr ()" "penalty_inv config s" "\<not> ignored obs s"
  shows "penalty_inv config (accepted_step config obs s)"
proof -
  note v = valid_flap [OF assms(1)]
  have later: "0 \<le> real_of_int (ob_observedAt obs - t)" if "ks_lastObservedAt s = Some t" for t
    using assms(3) that by (simp add: ignored_def)
  have "0 \<le> (case ks_lastObservedAt s of None \<Rightarrow> ks_penalty s
      | Some t \<Rightarrow> ks_penalty s * 2 powr (- real_of_int (ob_observedAt obs - t) / fd_halfLifeMs (tc_flap config)))"
    (is "0 \<le> ?p") using assms(2) by (auto simp: penalty_inv_def split: option.split)
  moreover have "?p \<le> fd_maxPenalty (tc_flap config)"
  proof (cases "ks_lastObservedAt s")
    case (Some t)
    have "?p \<le> ks_penalty s"
      unfolding Some option.case
      by (rule decay_le [OF _ v(1) later [OF Some]]) (use assms(2) in \<open>simp add: penalty_inv_def\<close>)
    then show ?thesis using assms(2) by (simp add: penalty_inv_def)
  qed (use assms(2) in \<open>simp add: penalty_inv_def\<close>)
  moreover have "ks_penalty (damp_flaps config obs s) = ?p
      \<or> ks_penalty (damp_flaps config obs s)
        = min (fd_maxPenalty (tc_flap config)) (?p + fd_penaltyPerFlip (tc_flap config))"
    by (simp add: damp_flaps_def Let_def)
  ultimately show ?thesis using v by (auto simp: penalty_inv_def)
qed

lemma observe_all_penalty:
  assumes "observe_all configFor key os Map.empty = Inr states"
    and "validateTriggerConfig (configFor key) = Inr ()"
  shows "penalty_inv (configFor key) (with_default (states key) initialState)"
  using assms(1)
proof (induction os arbitrary: states rule: rev_induct)
  case Nil
  then show ?case using valid_flap [OF assms(2)]
    by (auto simp: penalty_inv_def initialState_def)
next
  case (snoc obs os)
  from snoc.prems obtain st d ev where
    st: "observe_all configFor key os Map.empty = Inr st" "evaluate configFor key obs st = Inr (d, states, ev)"
    by (auto simp: observe_all_snoc elim!: then_result_InrE)
  show ?case
    using st(2) snoc.IH [OF st(1)] penalty_inv_step [OF assms(2) snoc.IH [OF st(1)]]
    by (cases rule: evaluate_cases) auto
qed

text \<open>Without a crossing the penalty only decays, over the whole elapsed time.\<close>

lemma quiet_decay:
  assumes "ks_lastObservedAt s = Some t" "ks_lastRawBreached s = Some b"
    and "\<forall>x \<in> set qs. breached x = b" "qs \<noteq> []"
  shows "ks_penalty (fold (accepted_step config) qs s)
     = ks_penalty s * 2 powr (- real_of_int (ob_observedAt (last qs) - t) / fd_halfLifeMs (tc_flap config))"
  using assms(3,4)
proof (induction qs rule: rev_induct)
  case (snoc x qs)
  show ?case
  proof (cases "qs = []")
    case True
    then show ?thesis using assms snoc.prems by (simp add: damp_flaps_def Let_def)
  next
    case False
    let ?s = "fold (accepted_step config) qs s"
    have "ks_lastObservedAt ?s = Some (ob_observedAt (last qs))" "ks_lastRawBreached ?s = Some b"
      using False snoc.prems by (cases qs rule: rev_cases; simp)+
    then have "ks_penalty (accepted_step config x ?s) = ks_penalty ?s
        * 2 powr (- real_of_int (ob_observedAt x - ob_observedAt (last qs)) / fd_halfLifeMs (tc_flap config))"
      using snoc.prems by (simp add: damp_flaps_def Let_def)
    also have "\<dots> = ks_penalty s
        * 2 powr (- real_of_int (ob_observedAt x - t) / fd_halfLifeMs (tc_flap config))"
      using snoc False by (simp add: mult.assoc powr_add [symmetric] add_divide_distrib [symmetric])
    finally show ?thesis by simp
  qed
qed simp

lemma observe_all_fold:
  assumes "observe_all configFor key qs states = Inr states'"
    and "ks_lastObservedAt (with_default (states key) initialState) = Some t"
    and "sorted_wrt (<) (t # map ob_observedAt qs)"
  shows "with_default (states' key) initialState
    = fold (accepted_step (configFor key)) qs (with_default (states key) initialState)"
  using assms
proof (induction qs arbitrary: states t)
  case (Cons x qs)
  from Cons.prems(1) obtain d st ev where
    st: "evaluate configFor key x states = Inr (d, st, ev)" "observe_all configFor key qs st = Inr states'"
    by (auto elim!: then_result_InrE)
  have new: "\<not> ignored x (with_default (states key) initialState)"
    using Cons.prems(2,3) by (simp add: ignored_def)
  show ?case
    using st(1)
  proof (cases rule: evaluate_cases)
    case accepted
    then show ?thesis using Cons.IH [OF st(2), of "ob_observedAt x"] Cons.prems(3) by simp
  qed (use new in simp)
qed simp

lemma decayed_below:
  fixes p m r h e :: real
  assumes "0 < h" "0 < r" "r < m" "0 \<le> p" "p \<le> m" "h * log 2 (m / r) < e"
  shows "p * 2 powr (- e / h) < r"
proof -
  have "log 2 (m / r) < e / h" using assms(1,6) by (simp add: pos_less_divide_eq mult.commute)
  then have "2 powr (log 2 (m / r)) < 2 powr (e / h)" by (simp only: powr_less_cancel_iff one_less_numeral_iff semiring_norm)
  then have "m / r < 2 powr (e / h)" using assms(2,3) by (simp add: powr_log_cancel)
  then have less: "m < r * 2 powr (e / h)" using assms(2) by (simp add: pos_divide_less_eq mult.commute)
  have "p < r * 2 powr (e / h)" using assms(5) less by linarith
  moreover have "2 powr (- e / h) = inverse (2 powr (e / h))"
    by (simp only: minus_divide_left [symmetric] powr_minus)
  ultimately show ?thesis by (simp add: divide_inverse [symmetric] pos_divide_less_eq)
qed

lemma low_penalty_unsuppressed:
  assumes "ks_penalty (damp_flaps config obs s) < fd_reuseBelow (tc_flap config)"
    and "fd_reuseBelow (tc_flap config) < fd_suppressAbove (tc_flap config)"
  shows "\<not> ks_suppressed (damp_flaps config obs s)"
  using assms unfolding damp_flaps_def Let_def by simp

text \<open>C38. Suppression is bounded as documented: whatever a key has seen, if it then makes no
  raw crossing and its last observation is more than \<open>maxSuppressionMs\<close> after the last one
  before, it is no longer suppressed.\<close>

theorem suppression_bounded:
  assumes "observe_all configFor key os Map.empty = Inr states" "states key = Some s"
    and "observe_all configFor key qs states = Inr states'" "states' key = Some s'"
    and "ks_lastObservedAt s = Some t" "sorted_wrt (<) (t # map ob_observedAt qs)" "qs \<noteq> []"
    and "\<forall>x \<in> set qs. ks_lastRawBreached s = Some (breached x)"
    and "maxSuppressionMs (tc_flap (configFor key)) < real_of_int (ob_observedAt (last qs) - t)"
  shows "\<not> ks_suppressed s'"
proof -
  let ?f = "tc_flap (configFor key)"
  obtain x rest where "qs = x # rest" using assms(7) by (cases qs) auto
  then have valid: "validateTriggerConfig (configFor key) = Inr ()"
    using assms(3) by (auto elim!: then_result_InrE dest: evaluate_valid)
  note v = valid_flap [OF valid]
  have inv: "penalty_inv (configFor key) s" using observe_all_penalty [OF assms(1) valid] assms(2) by simp
  have s': "s' = fold (accepted_step (configFor key)) qs s"
    using observe_all_fold [OF assms(3) _ assms(6)] assms(2,4,5) by simp
  obtain b where "ks_lastRawBreached s = Some b" using inv assms(5) by (auto simp: penalty_inv_def)
  then have pen: "ks_penalty s' = ks_penalty s
      * 2 powr (- real_of_int (ob_observedAt (last qs) - t) / fd_halfLifeMs ?f)"
    using quiet_decay [OF assms(5), of b qs "configFor key"] assms(7,8) s' by simp
  have "ks_penalty s' < fd_reuseBelow ?f"
    unfolding pen using inv v assms(9)
    by (intro decayed_below [where m = "fd_maxPenalty ?f"]) (auto simp: penalty_inv_def maxSuppressionMs_def)
  moreover obtain ys y where "qs = ys @ [y]" using assms(7) by (cases qs rule: rev_cases) auto
  ultimately show ?thesis using s' v(4) low_penalty_unsuppressed by simp
qed

theorem suppression_bounded_witness:
  "\<exists>states' s'. observe_all (\<lambda>_. steady_config) ''p'' [low_price 0, low_price 3000000] Map.empty = Inr states'
     \<and> states' ''p'' = Some s' \<and> \<not> ks_suppressed s'"
proof -
  define s where "s = initialState\<lparr>ks_phase := Arming, ks_candidateSince := Some 0,
    ks_candidateCount := 1, ks_lastRawBreached := Some True, ks_lastObservedAt := Some 0\<rparr>"
  have run: "observe_all (\<lambda>_. steady_config) ''p'' [low_price 0] Map.empty = Inr (Map.empty(''p'' \<mapsto> s))"
    using steady_first [OF s_def] by simp
  obtain states' s' where quiet: "observe_all (\<lambda>_. steady_config) ''p'' [low_price 3000000]
      (Map.empty(''p'' \<mapsto> s)) = Inr states'" "states' ''p'' = Some s'"
    using steady_config_valid
    by (auto simp: evaluate_def low_price_def ignored_def Let_def split_beta s_def)
  have bound: "maxSuppressionMs (tc_flap steady_config) < 3000000"
  proof -
    have "log 2 8 = (3::real)" using log_nat_power [of 2 2 3] by simp
    then show ?thesis
      by (simp add: maxSuppressionMs_def steady_config_def defaultTriggerConfig_def merge_flap_def
          DEFAULT_FLAP_DAMPING_def)
  qed
  have "\<not> ks_suppressed s'"
    by (rule suppression_bounded [OF run _ quiet, where t = 0 and s = s])
       (use bound in \<open>simp_all add: s_def low_price_def breached_def initialState_def\<close>)
  then show ?thesis using quiet steady_first [OF s_def] by simp
qed

end
