(* ===== verification/Staking.thy ===== *)
theory Staking
  imports Fixed_Point "HOL-Library.Char_ord" "HOL-Library.List_Lexorder"
begin

text \<open>
  Operator bonds, unbonding, withdrawal and the slashing state machine
  (\<open>services/staking.ts\<close>). The tables \<open>operator_bonds\<close>, \<open>unbond_requests\<close> and
  \<open>slashing_proposals\<close> are the fields of a record, the last two in insertion order with the
  identifiers the database draws; each method is a function of the database and of the
  database clock \<open>now\<close>. A method that throws returns \<open>Inl\<close> and its transaction is rolled
  back, so no database is returned.
\<close>

datatype feed_tier = Tier1 | Tier2 | Tier3
datatype slash_reason = OutsideTolerance | PostQuarantine | Equivocation
datatype proposal_status = PendingReview | PendingAppeal | Approved | RejectedP | Executed

definition FEED_TIERS :: "feed_tier list" where "FEED_TIERS = [Tier1, Tier2, Tier3]"
definition BPS_DENOMINATOR :: int where "BPS_DENOMINATOR = 10000"
definition DAY_SECONDS :: int where "DAY_SECONDS = 86400"
definition STROOPS_PER_UNIT :: int where "STROOPS_PER_UNIT = 10 ^ 7"

definition OPEN_PROPOSAL_STATUSES :: "proposal_status list" where
  "OPEN_PROPOSAL_STATUSES = [PendingReview, PendingAppeal, Approved]"

record auto_slash =
  as_enabled :: bool
  as_maxBps :: int
  as_appealWindowSeconds :: int

record staking_policy =
  sp_unbondingPeriodSeconds :: int
  sp_minBondAgeSeconds :: int
  sp_minBondByTier :: "feed_tier \<Rightarrow> int"
  sp_slashBps :: "slash_reason \<Rightarrow> int"
  sp_autoSlash :: auto_slash

section \<open>Policy from the environment\<close>

definition all_digits :: "string \<Rightarrow> bool" where
  "all_digits s \<longleftrightarrow> s \<noteq> [] \<and> list_all is_digit s"

definition env_trimmed :: "(string \<rightharpoonup> string) \<Rightarrow> string \<Rightarrow> string option" where
  "env_trimmed env key = map_option js_trim (env key)"

definition unsignedInt :: "(string \<rightharpoonup> string) \<Rightarrow> string \<Rightarrow> int \<Rightarrow> int result" where
  "unsignedInt env key fallback =
     (case env_trimmed env key of
        None \<Rightarrow> Inr fallback
      | Some raw \<Rightarrow>
          (if raw = [] then Inr fallback
           else if \<not> all_digits raw then Inl (Err (key @ '' must be a non-negative integer''))
           else Inr (dec_value raw)))"

definition unsignedBigInt :: "(string \<rightharpoonup> string) \<Rightarrow> string \<Rightarrow> int \<Rightarrow> int result" where
  "unsignedBigInt env key fallback =
     (case env_trimmed env key of
        None \<Rightarrow> Inr fallback
      | Some raw \<Rightarrow>
          (if raw = [] then Inr fallback
           else if \<not> all_digits raw
           then Inl (Err (key @ '' must be a non-negative integer in base units''))
           else Inr (dec_value raw)))"

definition lower_char :: "char \<Rightarrow> char" where
  "lower_char c = (if 65 \<le> (of_char c :: nat) \<and> (of_char c :: nat) \<le> 90 then char_of (of_char c + 32 :: nat) else c)"

definition env_true :: "(string \<rightharpoonup> string) \<Rightarrow> string \<Rightarrow> bool" where
  "env_true env key =
     (case env key of None \<Rightarrow> False | Some v \<Rightarrow> map lower_char (js_trim v) = ''true'')"

definition loadStakingPolicy :: "(string \<rightharpoonup> string) \<Rightarrow> staking_policy result" where
  "loadStakingPolicy env =
     then_result (unsignedInt env ''STAKING_UNBONDING_PERIOD_SECONDS'' (14 * DAY_SECONDS)) (\<lambda>unbonding.
     then_result (unsignedInt env ''STAKING_MIN_BOND_AGE_SECONDS'' (7 * DAY_SECONDS)) (\<lambda>age.
     then_result (unsignedBigInt env ''STAKING_MIN_BOND_TIER1'' (50000 * STROOPS_PER_UNIT)) (\<lambda>t1.
     then_result (unsignedBigInt env ''STAKING_MIN_BOND_TIER2'' (25000 * STROOPS_PER_UNIT)) (\<lambda>t2.
     then_result (unsignedBigInt env ''STAKING_MIN_BOND_TIER3'' (10000 * STROOPS_PER_UNIT)) (\<lambda>t3.
     then_result (unsignedInt env ''STAKING_SLASH_BPS_OUTSIDE_TOLERANCE'' 500) (\<lambda>bo.
     then_result (unsignedInt env ''STAKING_SLASH_BPS_POST_QUARANTINE'' 1000) (\<lambda>bq.
     then_result (unsignedInt env ''STAKING_SLASH_BPS_EQUIVOCATION'' 2500) (\<lambda>be.
     then_result (unsignedInt env ''STAKING_AUTO_SLASH_MAX_BPS'' 500) (\<lambda>mb.
     then_result (unsignedInt env ''STAKING_APPEAL_WINDOW_SECONDS'' (3 * DAY_SECONDS)) (\<lambda>aw.
     Inr \<lparr>sp_unbondingPeriodSeconds = unbonding, sp_minBondAgeSeconds = age,
       sp_minBondByTier = (\<lambda>t. case t of Tier1 \<Rightarrow> t1 | Tier2 \<Rightarrow> t2 | Tier3 \<Rightarrow> t3),
       sp_slashBps = (\<lambda>r. case r of OutsideTolerance \<Rightarrow> bo | PostQuarantine \<Rightarrow> bq | Equivocation \<Rightarrow> be),
       sp_autoSlash = \<lparr>as_enabled = env_true env ''STAKING_AUTO_SLASH_ENABLED'', as_maxBps = mb,
         as_appealWindowSeconds = aw\<rparr>\<rparr>))))))))))"

section \<open>Slash arithmetic\<close>

definition slashAmountFor :: "int \<Rightarrow> int \<Rightarrow> int" where
  "slashAmountFor atStake bps =
     (if atStake \<le> 0 \<or> bps \<le> 0 then 0 else min (big_div (atStake * bps) BPS_DENOMINATOR) atStake)"

type_synonym lot = "nat \<times> int"

text \<open>The loop over the unbonding lots: what each lot gives, and what remains.\<close>

fun take_from_lots :: "lot list \<Rightarrow> int \<Rightarrow> lot list \<times> int" where
  "take_from_lots [] remaining = ([], remaining)"
| "take_from_lots ((i, amount) # lots) remaining =
     (if remaining = 0 then ([], remaining)
      else let t = min amount remaining;
               (taken, rest) = take_from_lots lots (remaining - t)
           in (if t > 0 then (i, t) # taken else taken, rest))"

definition allocateSlash :: "int \<Rightarrow> lot list \<Rightarrow> int \<Rightarrow> (int \<times> lot list) result" where
  "allocateSlash bonded unbonding amount =
     (let fromBonded = min bonded amount;
          (fromUnbonding, remaining) = take_from_lots unbonding (amount - fromBonded)
      in if remaining \<noteq> 0 then Inl (Err ''slash amount exceeds stake at risk'')
         else Inr (fromBonded, fromUnbonding))"

definition isBondEligible :: "int \<Rightarrow> time_ms option \<Rightarrow> int \<Rightarrow> int \<Rightarrow> time_ms \<Rightarrow> bool" where
  "isBondEligible bonded firstBondedAt tierMinimum minBondAgeSeconds now =
     (case firstBondedAt of
        None \<Rightarrow> False
      | Some t \<Rightarrow> \<not> bonded < tierMinimum \<and> now - t \<ge> minBondAgeSeconds * 1000)"

section \<open>Slashable conditions\<close>

record submission =
  sub_evidenceId :: string
  sub_operatorId :: string
  sub_feedId :: string
  sub_roundId :: string
  sub_value :: int
  sub_submittedAt :: time_ms

record submission_context =
  cx_consensus :: "int option"
  cx_toleranceBps :: int
  cx_quarantinedAt :: "time_ms option"

record slash_finding =
  sf_reason :: slash_reason
  sf_evidenceIds :: "string list"

definition detectSlashableConditions ::
  "submission \<Rightarrow> submission list \<Rightarrow> submission_context \<Rightarrow> slash_finding list" where
  "detectSlashableConditions s siblings context =
     (case cx_consensus context of
        Some c \<Rightarrow>
          (let diff = (if sub_value s > c then sub_value s - c else c - sub_value s)
           in if c > 0 \<and> diff * BPS_DENOMINATOR > c * cx_toleranceBps context
              then [\<lparr>sf_reason = OutsideTolerance, sf_evidenceIds = [sub_evidenceId s]\<rparr>] else [])
      | None \<Rightarrow> [])
     @ (case cx_quarantinedAt context of
          Some q \<Rightarrow> (if sub_submittedAt s > q
             then [\<lparr>sf_reason = PostQuarantine, sf_evidenceIds = [sub_evidenceId s]\<rparr>] else [])
        | None \<Rightarrow> [])
     @ map (\<lambda>other. \<lparr>sf_reason = Equivocation, sf_evidenceIds = sort [sub_evidenceId s, sub_evidenceId other]\<rparr>)
         (filter (\<lambda>other. sub_evidenceId other \<noteq> sub_evidenceId s \<and> sub_operatorId other = sub_operatorId s
            \<and> sub_feedId other = sub_feedId s \<and> sub_roundId other = sub_roundId s
            \<and> sub_value other \<noteq> sub_value s) siblings)"

section \<open>The database\<close>

record bond_row =
  bo_bonded_amount :: int
  bo_first_bonded_at :: "time_ms option"

datatype unbond_status = Unbonding | Withdrawn | Slashed

record unbond_row =
  ub_id :: nat
  ub_operator_id :: string
  ub_amount :: int
  ub_status :: unbond_status
  ub_requested_at :: time_ms
  ub_available_at :: time_ms

record proposal_row =
  pr_id :: nat
  pr_operator_id :: string
  pr_reason :: slash_reason
  pr_evidence_ids :: "string list"
  pr_evidence_key :: string
  pr_amount :: int
  pr_status :: proposal_status
  pr_appeal_until :: "time_ms option"
  pr_execution_tx_hash :: "string option"
  pr_reviewed_by :: "string option"

text \<open>\<open>sd_next\<close> is the next identifier the database draws.\<close>

record staking_db =
  sd_bonds :: "string \<rightharpoonup> bond_row"
  sd_unbonds :: "unbond_row list"
  sd_proposals :: "proposal_row list"
  sd_next :: nat

definition parseAmount :: "string option \<Rightarrow> string \<Rightarrow> int result" where
  "parseAmount v field =
     (case v of
        Some s \<Rightarrow>
          (if all_digits s \<and> hd s \<noteq> CHR ''0'' then Inr (dec_value s)
           else Inl (BadRequest (field @ '' must be a positive integer string in base units'')))
      | None \<Rightarrow> Inl (BadRequest (field @ '' must be a positive integer string in base units'')))"

definition lockBond :: "string \<Rightarrow> staking_db \<Rightarrow> bond_row result" where
  "lockBond operatorId db =
     (case sd_bonds db operatorId of None \<Rightarrow> Inl (NotFound ''operator has no bond'') | Some b \<Rightarrow> Inr b)"

definition open_lots :: "string \<Rightarrow> staking_db \<Rightarrow> unbond_row list" where
  "open_lots operatorId db =
     sort_key ub_requested_at (filter (\<lambda>u. ub_operator_id u = operatorId \<and> ub_status u = Unbonding) (sd_unbonds db))"

definition atStake :: "string \<Rightarrow> int \<Rightarrow> staking_db \<Rightarrow> int" where
  "atStake operatorId bonded db =
     bonded + sum_list (map ub_amount
       (filter (\<lambda>u. ub_operator_id u = operatorId \<and> ub_status u = Unbonding) (sd_unbonds db)))"

definition is_open_proposal :: "proposal_row \<Rightarrow> bool" where
  "is_open_proposal p \<longleftrightarrow> pr_status p \<in> set OPEN_PROPOSAL_STATUSES"

definition recordBond :: "string \<Rightarrow> string option \<Rightarrow> time_ms \<Rightarrow> staking_db \<Rightarrow> staking_db result" where
  "recordBond operatorId amountInput now db =
     then_result (parseAmount amountInput ''amount'') (\<lambda>amount.
       Inr (db\<lparr>sd_bonds := (sd_bonds db)(operatorId \<mapsto>
         (case sd_bonds db operatorId of
            None \<Rightarrow> \<lparr>bo_bonded_amount = amount, bo_first_bonded_at = Some now\<rparr>
          | Some b \<Rightarrow> b\<lparr>bo_bonded_amount := bo_bonded_amount b + amount,
              bo_first_bonded_at := (case bo_first_bonded_at b of None \<Rightarrow> Some now | Some t \<Rightarrow> Some t)\<rparr>))\<rparr>))"

definition requestUnbond ::
  "staking_policy \<Rightarrow> string \<Rightarrow> string option \<Rightarrow> time_ms \<Rightarrow> staking_db \<Rightarrow> ((nat \<times> time_ms) \<times> staking_db) result" where
  "requestUnbond policy operatorId amountInput now db =
     then_result (parseAmount amountInput ''amount'') (\<lambda>amount.
     then_result (lockBond operatorId db) (\<lambda>bond.
       if amount > bo_bonded_amount bond then Inl (Conflict ''unbond amount exceeds bonded stake'')
       else let available = now + sp_unbondingPeriodSeconds policy * 1000 in
         Inr ((sd_next db, available),
           db\<lparr>sd_bonds := (sd_bonds db)(operatorId \<mapsto>
                bond\<lparr>bo_bonded_amount := bo_bonded_amount bond - amount\<rparr>),
              sd_unbonds := sd_unbonds db @ [\<lparr>ub_id = sd_next db, ub_operator_id = operatorId,
                ub_amount = amount, ub_status = Unbonding, ub_requested_at = now,
                ub_available_at = available\<rparr>],
              sd_next := Suc (sd_next db)\<rparr>)))"

definition matured :: "string \<Rightarrow> time_ms \<Rightarrow> unbond_row \<Rightarrow> bool" where
  "matured operatorId now u \<longleftrightarrow>
     ub_operator_id u = operatorId \<and> ub_status u = Unbonding \<and> ub_available_at u \<le> now"

definition withdraw :: "string \<Rightarrow> time_ms \<Rightarrow> staking_db \<Rightarrow> (int \<times> staking_db) result" where
  "withdraw operatorId now db =
     then_result (lockBond operatorId db) (\<lambda>_.
       if list_ex (\<lambda>p. pr_operator_id p = operatorId \<and> is_open_proposal p) (sd_proposals db)
       then Inl (Conflict ''withdrawal blocked by an open slashing proposal'')
       else Inr (sum_list (map ub_amount (filter (matured operatorId now) (sd_unbonds db))),
         db\<lparr>sd_unbonds := map (\<lambda>u. if matured operatorId now u then u\<lparr>ub_status := Withdrawn\<rparr> else u)
              (sd_unbonds db)\<rparr>))"

fun reason_name :: "slash_reason \<Rightarrow> string" where
  "reason_name OutsideTolerance = ''outside_tolerance''"
| "reason_name PostQuarantine = ''post_quarantine''"
| "reason_name Equivocation = ''equivocation''"

definition evidenceKey :: "slash_finding \<Rightarrow> string" where
  "evidenceKey finding = reason_name (sf_reason finding) @ '':'' @ join ''|'' (sf_evidenceIds finding)"

text \<open>The row returned stands for the view built from it.\<close>

definition createProposal ::
  "staking_policy \<Rightarrow> string \<Rightarrow> slash_finding \<Rightarrow> time_ms \<Rightarrow> staking_db \<Rightarrow> proposal_row option \<times> staking_db" where
  "createProposal policy operatorId finding now db =
     (let key = evidenceKey finding; bps = sp_slashBps policy (sf_reason finding) in
      case sd_bonds db operatorId of
        None \<Rightarrow> (None, db)
      | Some bond \<Rightarrow>
          (case List.find (\<lambda>p. pr_evidence_key p = key) (sd_proposals db) of
             Some p \<Rightarrow> (Some p, db)
           | None \<Rightarrow>
               (let amount = slashAmountFor (atStake operatorId (bo_bonded_amount bond) db) bps in
                if amount = 0 then (None, db)
                else let auto = sp_autoSlash policy;
                         autoEligible = (as_enabled auto \<and> bps \<le> as_maxBps auto);
                         row = \<lparr>pr_id = sd_next db, pr_operator_id = operatorId,
                           pr_reason = sf_reason finding, pr_evidence_ids = sf_evidenceIds finding,
                           pr_evidence_key = key, pr_amount = amount,
                           pr_status = (if autoEligible then PendingAppeal else PendingReview),
                           pr_appeal_until = (if autoEligible
                             then Some (now + as_appealWindowSeconds auto * 1000) else None),
                           pr_execution_tx_hash = None, pr_reviewed_by = None\<rparr>
                     in (Some row, db\<lparr>sd_proposals := sd_proposals db @ [row], sd_next := Suc (sd_next db)\<rparr>))))"

fun evaluate_findings ::
  "staking_policy \<Rightarrow> string \<Rightarrow> slash_finding list \<Rightarrow> time_ms \<Rightarrow> staking_db \<Rightarrow> proposal_row list \<times> staking_db" where
  "evaluate_findings policy operatorId [] now db = ([], db)"
| "evaluate_findings policy operatorId (f # fs) now db =
     (let (p, db1) = createProposal policy operatorId f now db;
          (ps, db2) = evaluate_findings policy operatorId fs now db1
      in (case p of None \<Rightarrow> ps | Some r \<Rightarrow> r # ps, db2))"

definition evaluateSubmission ::
  "staking_policy \<Rightarrow> submission \<Rightarrow> submission list \<Rightarrow> submission_context \<Rightarrow> time_ms \<Rightarrow> staking_db
     \<Rightarrow> proposal_row list \<times> staking_db" where
  "evaluateSubmission policy s siblings context now db =
     evaluate_findings policy (sub_operatorId s) (detectSlashableConditions s siblings context) now db"

section \<open>Review and execution of proposals\<close>

text \<open>An \<open>UPDATE ... WHERE id = $1 AND cond RETURNING\<close>: the updated row, if any, and the table.\<close>

definition update_proposal ::
  "nat \<Rightarrow> (proposal_row \<Rightarrow> bool) \<Rightarrow> (proposal_row \<Rightarrow> proposal_row) \<Rightarrow> staking_db \<Rightarrow> proposal_row option \<times> staking_db" where
  "update_proposal proposalId cond f db =
     (map_option f (List.find (\<lambda>p. pr_id p = proposalId \<and> cond p) (sd_proposals db)),
      db\<lparr>sd_proposals := map (\<lambda>p. if pr_id p = proposalId \<and> cond p then f p else p) (sd_proposals db)\<rparr>)"

definition requireTransition :: "proposal_row option \<times> staking_db \<Rightarrow> (proposal_row \<times> staking_db) result" where
  "requireTransition r =
     (case r of
        (None, _) \<Rightarrow> Inl (Conflict ''slashing proposal is not in a state that allows this action'')
      | (Some row, db) \<Rightarrow> Inr (row, db))"

definition appeal_closed :: "time_ms \<Rightarrow> proposal_row \<Rightarrow> bool" where
  "appeal_closed now p = (case pr_appeal_until p of None \<Rightarrow> False | Some t \<Rightarrow> t \<le> now)"

definition approveProposal :: "nat \<Rightarrow> string \<Rightarrow> time_ms \<Rightarrow> staking_db \<Rightarrow> (proposal_row \<times> staking_db) result" where
  "approveProposal proposalId reviewer now db =
     requireTransition (update_proposal proposalId
       (\<lambda>p. pr_status p = PendingReview \<or> (pr_status p = PendingAppeal \<and> appeal_closed now p))
       (\<lambda>p. p\<lparr>pr_status := Approved, pr_reviewed_by := Some reviewer\<rparr>) db)"

definition rejectProposal :: "nat \<Rightarrow> string \<Rightarrow> staking_db \<Rightarrow> (proposal_row \<times> staking_db) result" where
  "rejectProposal proposalId reviewer db =
     requireTransition (update_proposal proposalId
       (\<lambda>p. pr_status p = PendingReview \<or> pr_status p = PendingAppeal)
       (\<lambda>p. p\<lparr>pr_status := RejectedP, pr_reviewed_by := Some reviewer\<rparr>) db)"

definition appealProposal :: "nat \<Rightarrow> time_ms \<Rightarrow> staking_db \<Rightarrow> (proposal_row \<times> staking_db) result" where
  "appealProposal proposalId now db =
     requireTransition (update_proposal proposalId
       (\<lambda>p. pr_status p = PendingAppeal \<and> (case pr_appeal_until p of None \<Rightarrow> False | Some t \<Rightarrow> t > now))
       (\<lambda>p. p\<lparr>pr_status := PendingReview, pr_appeal_until := None\<rparr>) db)"

text \<open>The updates of the slashed lots: each lot found in the allocation is reduced and
  becomes \<open>Slashed\<close> when nothing remains.\<close>

definition slash_lots :: "unbond_row list \<Rightarrow> lot list \<Rightarrow> unbond_row list \<Rightarrow> unbond_row list" where
  "slash_lots lots fromUnbonding rows =
     map (\<lambda>u. case List.find (\<lambda>l. ub_id l = ub_id u) lots of
          None \<Rightarrow> u
        | Some l \<Rightarrow>
            (case map_of fromUnbonding (ub_id l) of
               None \<Rightarrow> u
             | Some t \<Rightarrow> u\<lparr>ub_amount := ub_amount l - t,
                 ub_status := (if ub_amount l - t = 0 then Slashed else ub_status u)\<rparr>)) rows"

definition executeProposal :: "nat \<Rightarrow> string \<Rightarrow> staking_db \<Rightarrow> (proposal_row \<times> staking_db) result" where
  "executeProposal proposalId txHash db =
     (if js_trim txHash = [] then Inl (BadRequest ''txHash is required'')
      else case List.find (\<lambda>p. pr_id p = proposalId) (sd_proposals db) of
        None \<Rightarrow> Inl (NotFound ''slashing proposal not found'')
      | Some proposal \<Rightarrow>
          (if pr_status proposal \<noteq> Approved
           then Inl (Conflict ''only approved proposals can be executed'')
           else then_result (lockBond (pr_operator_id proposal) db) (\<lambda>bond.
             let lots = open_lots (pr_operator_id proposal) db;
                 bonded = bo_bonded_amount bond;
                 stake = foldl (\<lambda>s l. s + ub_amount l) bonded lots;
                 slash = min (pr_amount proposal) stake
             in then_result (allocateSlash bonded (map (\<lambda>l. (ub_id l, ub_amount l)) lots) slash)
                  (\<lambda>(fromBonded, fromUnbonding).
                    requireTransition (update_proposal proposalId (\<lambda>_. True)
                      (\<lambda>p. p\<lparr>pr_status := Executed, pr_execution_tx_hash := Some txHash\<rparr>)
                      (db\<lparr>sd_bonds := (sd_bonds db)(pr_operator_id proposal \<mapsto>
                             bond\<lparr>bo_bonded_amount := bonded - fromBonded\<rparr>),
                          sd_unbonds := slash_lots lots fromUnbonding (sd_unbonds db)\<rparr>))))))"

record staking_status =
  ss_operatorId :: string
  ss_bondedAmount :: int
  ss_eligibleTiers :: "feed_tier list"
  ss_unbonding :: "(unbond_row \<times> int) list"
  ss_pendingSlashing :: "proposal_row list"

definition getStatus :: "staking_policy \<Rightarrow> string \<Rightarrow> time_ms \<Rightarrow> staking_db \<Rightarrow> staking_status" where
  "getStatus policy operatorId now db =
     (let bond = sd_bonds db operatorId;
          bonded = (case bond of None \<Rightarrow> 0 | Some b \<Rightarrow> bo_bonded_amount b)
      in \<lparr>ss_operatorId = operatorId, ss_bondedAmount = bonded,
          ss_eligibleTiers = filter (\<lambda>tier. isBondEligible bonded (Option.bind bond bo_first_bonded_at)
            (sp_minBondByTier policy tier) (sp_minBondAgeSeconds policy) now) FEED_TIERS,
          ss_unbonding = map (\<lambda>u. (u, max 0 (- ((- (ub_available_at u - now)) div 1000)))) (open_lots operatorId db),
          ss_pendingSlashing = filter (\<lambda>p. pr_operator_id p = operatorId \<and> is_open_proposal p) (sd_proposals db)\<rparr>)"

section \<open>Calls\<close>

datatype staking_call =
    CRecordBond string "string option"
  | CRequestUnbond string "string option"
  | CWithdraw string
  | CEvaluate submission "submission list" submission_context
  | CApprove nat string
  | CReject nat string
  | CAppeal nat
  | CExecute nat string

abbreviation committed :: "('a \<times> staking_db) result \<Rightarrow> staking_db \<Rightarrow> staking_db" where
  "committed r db \<equiv> (case r of Inl _ \<Rightarrow> db | Inr x \<Rightarrow> snd x)"

fun staking_step :: "staking_policy \<Rightarrow> time_ms \<Rightarrow> staking_call \<Rightarrow> staking_db \<Rightarrow> staking_db" where
  "staking_step pol now (CRecordBond op a) db = (case recordBond op a now db of Inl _ \<Rightarrow> db | Inr db' \<Rightarrow> db')"
| "staking_step pol now (CRequestUnbond op a) db = committed (requestUnbond pol op a now db) db"
| "staking_step pol now (CWithdraw op) db = committed (withdraw op now db) db"
| "staking_step pol now (CEvaluate s sib cx) db = snd (evaluateSubmission pol s sib cx now db)"
| "staking_step pol now (CApprove i r) db = committed (approveProposal i r now db) db"
| "staking_step pol now (CReject i r) db = committed (rejectProposal i r db) db"
| "staking_step pol now (CAppeal i) db = committed (appealProposal i now db) db"
| "staking_step pol now (CExecute i tx) db = committed (executeProposal i tx db) db"

definition empty_db :: staking_db where
  "empty_db = \<lparr>sd_bonds = Map.empty, sd_unbonds = [], sd_proposals = [], sd_next = 0\<rparr>"

text \<open>Reachable databases, under any clock.\<close>

inductive reachable :: "staking_policy \<Rightarrow> staking_db \<Rightarrow> bool" for pol where
  reachable_empty: "reachable pol empty_db"
| reachable_step: "reachable pol db \<Longrightarrow> reachable pol (staking_step pol now c db)"

section \<open>Allocation of a slash\<close>

definition taken_of :: "lot list \<Rightarrow> nat \<Rightarrow> int" where
  "taken_of taken i = (case map_of taken i of None \<Rightarrow> 0 | Some t \<Rightarrow> t)"

lemma take_from_lots_keys: "fst ` set (fst (take_from_lots lots r)) \<subseteq> fst ` set lots"
  by (induction lots r rule: take_from_lots.induct) (auto simp: Let_def split_beta split: if_splits)

lemma take_from_lots_rest:
  assumes "\<forall>l \<in> set lots. 0 \<le> snd l" "0 \<le> r"
  shows "snd (take_from_lots lots r) = max 0 (r - sum_list (map snd lots))"
  using assms
proof (induction lots r rule: take_from_lots.induct)
  case (2 i a lots r)
  have "0 \<le> sum_list (map snd lots)" using 2(2) by (intro sum_list_nonneg) auto
  then show ?case using 2 by (auto simp: Let_def split_beta)
qed simp

lemma take_from_lots_bounds:
  assumes "\<forall>l \<in> set lots. 0 \<le> snd l" "0 \<le> r" "distinct (map fst lots)" "(i, a) \<in> set lots"
  shows "0 \<le> taken_of (fst (take_from_lots lots r)) i \<and> taken_of (fst (take_from_lots lots r)) i \<le> a"
  using assms
proof (induction lots r rule: take_from_lots.induct)
  case (2 j b lots r)
  let ?tk = "fst (take_from_lots lots (r - min b r))"
  have none: "map_of ?tk j = None"
    using 2(4) take_from_lots_keys [of lots "r - min b r"] by (force simp: map_of_eq_None_iff)
  show ?case
  proof (cases "r = 0")
    case True
    then show ?thesis using 2(2,5) by (auto simp: taken_of_def)
  next
    case False
    have rest: "0 \<le> taken_of ?tk i \<and> taken_of ?tk i \<le> a" if "(i, a) \<in> set lots"
      using 2(1) [OF False refl] 2(2-4) that by (auto simp: min_def)
    show ?thesis
    proof (cases "(i, a) \<in> set lots")
      case True
      then have "i \<noteq> j" using 2(4) by force
      then show ?thesis using rest [OF True] False by (simp add: Let_def split_beta taken_of_def)
    next
      case False
      then have "i = j" "a = b" using 2(5) by auto
      then show ?thesis using none 2(2,3) \<open>r \<noteq> 0\<close> by (auto simp: Let_def split_beta taken_of_def)
    qed
  qed
qed simp

lemma take_from_lots_total:
  assumes "distinct (map fst lots)" "\<forall>l \<in> set lots. 0 \<le> snd l" "0 \<le> r"
  shows "sum_list (map (\<lambda>l. taken_of (fst (take_from_lots lots r)) (fst l)) lots)
     = r - snd (take_from_lots lots r)"
  using assms
proof (induction lots r rule: take_from_lots.induct)
  case (2 i a lots r)
  let ?tk = "fst (take_from_lots lots (r - min a r))"
  have none: "map_of ?tk i = None"
    using 2(2) take_from_lots_keys [of lots "r - min a r"] by (force simp: map_of_eq_None_iff)
  have other: "sum_list (map (\<lambda>l. taken_of ((i, t) # ?tk) (fst l)) lots)
      = sum_list (map (\<lambda>l. taken_of ?tk (fst l)) lots)" for t
    using 2(2) by (intro arg_cong [where f = sum_list] map_cong) (auto simp: taken_of_def)
  show ?case
  proof (cases "r = 0")
    case False
    have "sum_list (map (\<lambda>l. taken_of ?tk (fst l)) lots)
        = (r - min a r) - snd (take_from_lots lots (r - min a r))"
      using 2(1) [OF False refl] 2(2-4) by (auto simp: min_def)
    then show ?thesis using False other none 2(3,4)
      by (auto simp: Let_def split_beta taken_of_def [of _ i])
  qed (simp add: taken_of_def sum_list_0)
qed (simp add: taken_of_def)

lemma allocateSlash_ok:
  assumes "0 \<le> bonded" "\<forall>l \<in> set lots. 0 \<le> snd l" "0 \<le> amount"
    and "amount \<le> bonded + sum_list (map snd lots)"
  shows "allocateSlash bonded lots amount
    = Inr (min bonded amount, fst (take_from_lots lots (amount - min bonded amount)))"
proof -
  have "0 \<le> sum_list (map snd lots)" using assms(2) by (intro sum_list_nonneg) auto
  then show ?thesis
    using take_from_lots_rest [OF assms(2), of "amount - min bonded amount"] assms
    by (simp add: allocateSlash_def Let_def split_beta min_def)
qed

section \<open>The invariant\<close>

definition bonds_wf :: "staking_db \<Rightarrow> bool" where
  "bonds_wf db \<longleftrightarrow> (\<forall>op b. sd_bonds db op = Some b \<longrightarrow> 0 \<le> bo_bonded_amount b \<and> bo_first_bonded_at b \<noteq> None)"

definition unbonds_wf :: "staking_db \<Rightarrow> bool" where
  "unbonds_wf db \<longleftrightarrow> distinct (map ub_id (sd_unbonds db))
     \<and> (\<forall>u \<in> set (sd_unbonds db). 0 \<le> ub_amount u \<and> ub_id u < sd_next db)"

definition proposals_wf :: "staking_db \<Rightarrow> bool" where
  "proposals_wf db \<longleftrightarrow> distinct (map pr_id (sd_proposals db)) \<and> distinct (map pr_evidence_key (sd_proposals db))
     \<and> (\<forall>p \<in> set (sd_proposals db). 0 < pr_amount p \<and> pr_id p < sd_next db
          \<and> (pr_status p = Executed \<longleftrightarrow> pr_execution_tx_hash p \<noteq> None)
          \<and> (pr_status p \<in> {Approved, Executed} \<longrightarrow> pr_reviewed_by p \<noteq> None))"

definition staking_wf :: "staking_db \<Rightarrow> bool" where
  "staking_wf db \<longleftrightarrow> bonds_wf db \<and> unbonds_wf db \<and> proposals_wf db"

lemmas wf_defs = staking_wf_def bonds_wf_def unbonds_wf_def proposals_wf_def

text \<open>The stake of an operator: bond and unbonding lots.\<close>

definition is_lot :: "string \<Rightarrow> unbond_row \<Rightarrow> bool" where
  "is_lot op u \<longleftrightarrow> ub_operator_id u = op \<and> ub_status u = Unbonding"

definition bonded_of :: "string \<Rightarrow> staking_db \<Rightarrow> int" where
  "bonded_of op db = (case sd_bonds db op of None \<Rightarrow> 0 | Some b \<Rightarrow> bo_bonded_amount b)"

definition stake_of :: "string \<Rightarrow> staking_db \<Rightarrow> int" where
  "stake_of op db = atStake op (bonded_of op db) db"

lemma atStake_lots: "atStake op b db = b + sum_list (map ub_amount (filter (is_lot op) (sd_unbonds db)))"
  by (simp add: atStake_def is_lot_def [abs_def])

lemma open_lots_lot: "open_lots op db = sort_key ub_requested_at (filter (is_lot op) (sd_unbonds db))"
  by (simp add: open_lots_def is_lot_def [abs_def])

lemma sum_open_lots:
  "sum_list (map f (open_lots op db)) = sum_list (map f (filter (is_lot op) (sd_unbonds db)))"
  for f :: "unbond_row \<Rightarrow> int"
  by (metis open_lots_lot mset_map mset_sort sum_mset_sum_list)

lemma foldl_sum: "foldl (\<lambda>s l. s + f l) a xs = a + sum_list (map f xs)" for a :: int
  by (induction xs arbitrary: a) auto

lemma parseAmount_pos:
  assumes "parseAmount v field = Inr a" shows "0 < a"
proof -
  obtain s where s: "all_digits s" "hd s \<noteq> CHR ''0''" "a = int (dec_value s)"
    using assms by (auto simp: parseAmount_def split: option.splits if_splits)
  then obtain c t where ct: "s = c # t" "is_digit c" "c \<noteq> CHR ''0''"
    by (cases s) (auto simp: all_digits_def)
  have "0 < digit_val c" using ct(2,3) digit_val_pos by blast
  then have "0 < dec_value (c # t)" using dec_value_Cons_pos by blast
  then show ?thesis using s ct by simp
qed

section \<open>What each operation does to the stake\<close>

lemma recordBond_stake:
  assumes "recordBond op a now db = Inr db'"
  obtains amount where "0 < amount" "parseAmount a ''amount'' = Inr amount"
    "stake_of k db' = stake_of k db + (if k = op then amount else 0)"
    "bonded_of k db' = bonded_of k db + (if k = op then amount else 0)"
    "sd_unbonds db' = sd_unbonds db" "sd_proposals db' = sd_proposals db"
proof -
  from assms obtain amount where a: "parseAmount a ''amount'' = Inr amount"
    by (auto simp: recordBond_def elim!: then_result_InrE)
  with assms have bonded: "bonded_of k db' = bonded_of k db + (if k = op then amount else 0)"
    by (auto simp: recordBond_def bonded_of_def split: option.split)
  from assms a have rest: "sd_unbonds db' = sd_unbonds db" "sd_proposals db' = sd_proposals db"
    by (auto simp: recordBond_def)
  show ?thesis
    by (rule that [OF parseAmount_pos [OF a] a _ bonded rest])
       (simp add: stake_of_def atStake_def rest bonded)
qed

lemma requestUnbond_stake:
  assumes "requestUnbond pol op a now db = Inr (r, db')"
  shows "stake_of k db' = stake_of k db \<and> sd_proposals db' = sd_proposals db"
proof -
  from assms obtain amount bond where "sd_bonds db op = Some bond"
    "sd_bonds db' = (sd_bonds db)(op \<mapsto> bond\<lparr>bo_bonded_amount := bo_bonded_amount bond - amount\<rparr>)"
    "sd_unbonds db' = sd_unbonds db @ [\<lparr>ub_id = sd_next db, ub_operator_id = op, ub_amount = amount,
       ub_status = Unbonding, ub_requested_at = now, ub_available_at = now + sp_unbondingPeriodSeconds pol * 1000\<rparr>]"
    "sd_proposals db' = sd_proposals db"
    by (auto simp: requestUnbond_def lockBond_def Let_def elim!: then_result_InrE
             split: option.splits if_splits)
  then show ?thesis by (simp add: stake_of_def atStake_def bonded_of_def)
qed

lemma withdraw_stake:
  assumes "withdraw op now db = Inr (paid, db')"
  shows "stake_of k db' = stake_of k db - (if k = op then paid else 0)"
    and "sd_proposals db' = sd_proposals db"
    and "\<forall>p \<in> set (sd_proposals db). pr_operator_id p = op \<longrightarrow> \<not> is_open_proposal p"
proof -
  from assms have paid: "paid = sum_list (map ub_amount (filter (matured op now) (sd_unbonds db)))"
    and unbonds: "sd_unbonds db' = map (\<lambda>u. if matured op now u then u\<lparr>ub_status := Withdrawn\<rparr> else u) (sd_unbonds db)"
    and bonds: "sd_bonds db' = sd_bonds db"
    by (auto simp: withdraw_def elim!: then_result_InrE split: if_splits)
  from assms show "sd_proposals db' = sd_proposals db"
    "\<forall>p \<in> set (sd_proposals db). pr_operator_id p = op \<longrightarrow> \<not> is_open_proposal p"
    by (auto simp: withdraw_def list_ex_iff elim!: then_result_InrE split: if_splits)
  have "sum_list (map ub_amount (filter (is_lot k) (map (\<lambda>u. if matured op now u then u\<lparr>ub_status := Withdrawn\<rparr> else u) us)))
      = sum_list (map ub_amount (filter (is_lot k) us))
        - (if k = op then sum_list (map ub_amount (filter (matured op now) us)) else 0)" for us
    by (induction us) (auto simp: is_lot_def [abs_def] matured_def [abs_def])
  then show "stake_of k db' = stake_of k db - (if k = op then paid else 0)"
    by (simp add: stake_of_def atStake_lots bonded_of_def bonds unbonds paid)
qed

lemma createProposal_keeps:
  "sd_bonds (snd (createProposal pol op f now db)) = sd_bonds db
   \<and> sd_unbonds (snd (createProposal pol op f now db)) = sd_unbonds db"
  by (simp add: createProposal_def Let_def split: option.split)

lemma evaluateSubmission_stake:
  "stake_of k (snd (evaluateSubmission pol s sib cx now db)) = stake_of k db"
proof -
  have "sd_bonds (snd (evaluate_findings pol op fs now db)) = sd_bonds db
      \<and> sd_unbonds (snd (evaluate_findings pol op fs now db)) = sd_unbonds db" for op fs
    by (induction fs arbitrary: db) (auto simp: Let_def split_beta createProposal_keeps)
  then show ?thesis by (simp add: evaluateSubmission_def stake_of_def atStake_def bonded_of_def)
qed

lemma requireTransition_Inr:
  "requireTransition (update_proposal i cond f db) = Inr (row, db') \<longleftrightarrow>
     (\<exists>p. List.find (\<lambda>p. pr_id p = i \<and> cond p) (sd_proposals db) = Some p \<and> row = f p)
     \<and> db' = db\<lparr>sd_proposals := map (\<lambda>p. if pr_id p = i \<and> cond p then f p else p) (sd_proposals db)\<rparr>"
  by (auto simp: requireTransition_def update_proposal_def split: option.splits)

lemma review_keeps_stake:
  "approveProposal i r now db = Inr (row, db') \<Longrightarrow> stake_of k db' = stake_of k db"
  "rejectProposal i r db = Inr (row, db') \<Longrightarrow> stake_of k db' = stake_of k db"
  "appealProposal i now db = Inr (row, db') \<Longrightarrow> stake_of k db' = stake_of k db"
  by (auto simp: approveProposal_def rejectProposal_def appealProposal_def requireTransition_Inr
        stake_of_def atStake_def bonded_of_def)

section \<open>Execution of a slash\<close>



definition slashed_row :: "lot list \<Rightarrow> unbond_row \<Rightarrow> unbond_row" where
  "slashed_row taken u =
     (case map_of taken (ub_id u) of
        None \<Rightarrow> u
      | Some t \<Rightarrow> u\<lparr>ub_amount := ub_amount u - t, ub_status := (if ub_amount u - t = 0 then Slashed else ub_status u)\<rparr>)"

lemma slash_lots_eq:
  assumes "unbonds_wf db"
  shows "slash_lots (open_lots op db) taken (sd_unbonds db)
    = map (\<lambda>u. if is_lot op u then slashed_row taken u else u) (sd_unbonds db)"
proof -
  have dist: "distinct (map ub_id (sd_unbonds db))" using assms by (simp add: unbonds_wf_def)
  have set: "set (open_lots op db) = {u \<in> set (sd_unbonds db). is_lot op u}"
    by (simp add: open_lots_lot)
  have "inj_on ub_id (set (sd_unbonds db))" using dist by (simp add: distinct_map)
  then have lots: "distinct (map ub_id (open_lots op db))"
    using dist by (auto simp: open_lots_lot distinct_map set intro: inj_on_subset)
  have "List.find (\<lambda>l. ub_id l = ub_id u) (open_lots op db) = (if is_lot op u then Some u else None)"
    if "u \<in> set (sd_unbonds db)" for u
  proof (cases "is_lot op u")
    case True
    then show ?thesis using find_distinct [OF lots] that set by simp
  next
    case False
    then have "ub_id u \<notin> ub_id ` set (open_lots op db)"
      using \<open>inj_on ub_id _\<close> that by (auto simp: set inj_on_def)
    then show ?thesis using False by (simp add: find_None_image)
  qed
  then show ?thesis unfolding slash_lots_def by (intro map_cong) (auto simp: slashed_row_def)
qed

lemma slashed_row_amount:
  "ub_amount (slashed_row taken u) = ub_amount u - taken_of taken (ub_id u)"
  "ub_id (slashed_row taken u) = ub_id u"
  "ub_operator_id (slashed_row taken u) = ub_operator_id u"
  by (simp_all add: slashed_row_def taken_of_def split: option.split)

lemma slashed_sum:
  "sum_list (map ub_amount (filter (is_lot k) (map (\<lambda>u. if is_lot op u then slashed_row taken u else u) us)))
     = sum_list (map ub_amount (filter (is_lot k) us))
       - (if k = op then sum_list (map (\<lambda>u. taken_of taken (ub_id u)) (filter (is_lot op) us)) else 0)"
proof (induction us)
  case (Cons u us)
  have "(if is_lot k (slashed_row taken u) then ub_amount (slashed_row taken u) else 0)
      = (if k = op then ub_amount u - taken_of taken (ub_id u) else 0)" if "is_lot op u"
    using that by (auto simp: is_lot_def slashed_row_def taken_of_def split: option.splits)
  moreover have "is_lot k u \<longleftrightarrow> k = op" if "is_lot op u" using that by (auto simp: is_lot_def)
  ultimately show ?case using Cons by (cases "is_lot op u") (auto split: if_splits)
qed simp

text \<open>The lots a slash is taken from, and what the allocation takes from each.\<close>

abbreviation lots_of :: "string \<Rightarrow> staking_db \<Rightarrow> lot list" where
  "lots_of op db \<equiv> map (\<lambda>l. (ub_id l, ub_amount l)) (open_lots op db)"

lemma lots_of_facts:
  assumes "unbonds_wf db"
  shows "\<forall>l \<in> set (lots_of op db). 0 \<le> snd l" "distinct (map fst (lots_of op db))"
    and "sum_list (map snd (lots_of op db)) = stake_of op db - bonded_of op db"
    and "bonded_of op db \<le> stake_of op db"
proof -
  have set: "set (open_lots op db) = {u \<in> set (sd_unbonds db). is_lot op u}"
    by (simp add: open_lots_lot)
  show nonneg: "\<forall>l \<in> set (lots_of op db). 0 \<le> snd l" using assms by (auto simp: set unbonds_wf_def)
  have "distinct (map ub_id (filter (is_lot op) (sd_unbonds db)))"
    using assms by (auto simp: unbonds_wf_def distinct_map inj_on_def)
  then have "distinct (map ub_id (open_lots op db))"
    by (metis open_lots_lot distinct_map distinct_sort set_sort)
  then show "distinct (map fst (lots_of op db))" by (simp add: comp_def)
  show sum: "sum_list (map snd (lots_of op db)) = stake_of op db - bonded_of op db"
    using sum_open_lots [of ub_amount op db] by (simp add: comp_def stake_of_def atStake_lots)
  have "0 \<le> sum_list (map snd (lots_of op db))" using nonneg by (intro sum_list_nonneg) auto
  then show "bonded_of op db \<le> stake_of op db" using sum by simp
qed

lemma slash_allocation:
  assumes wf: "unbonds_wf db" and b0: "0 \<le> bonded_of op db"
    and slash: "0 \<le> slash" "slash \<le> stake_of op db"
  obtains taken where
    "allocateSlash (bonded_of op db) (lots_of op db) slash = Inr (min (bonded_of op db) slash, taken)"
    "sum_list (map (\<lambda>u. taken_of taken (ub_id u)) (filter (is_lot op) (sd_unbonds db)))
       = slash - min (bonded_of op db) slash"
    "\<forall>u \<in> set (sd_unbonds db). is_lot op u \<longrightarrow>
       0 \<le> taken_of taken (ub_id u) \<and> taken_of taken (ub_id u) \<le> ub_amount u"
proof -
  note lots = lots_of_facts [OF wf, of op]
  define r where "r = slash - min (bonded_of op db) slash"
  define taken where "taken = fst (take_from_lots (lots_of op db) r)"
  have r0: "0 \<le> r" by (simp add: r_def)
  have "slash \<le> bonded_of op db + sum_list (map snd (lots_of op db))" using slash lots(3) by simp
  note alloc = allocateSlash_ok [OF b0 lots(1) slash(1) this, folded r_def, folded taken_def]
  have "r \<le> sum_list (map snd (lots_of op db))" using slash(2) lots(4) unfolding lots(3) r_def by auto
  then have "snd (take_from_lots (lots_of op db) r) = 0" using take_from_lots_rest [OF lots(1) r0] by simp
  then have "sum_list (map (\<lambda>l. taken_of taken (fst l)) (lots_of op db)) = r"
    using take_from_lots_total [OF lots(2,1) r0] by (simp add: taken_def)
  then have "sum_list (map (\<lambda>u. taken_of taken (ub_id u)) (filter (is_lot op) (sd_unbonds db))) = r"
    using sum_open_lots [of "\<lambda>u. taken_of taken (ub_id u)" op db] by (simp add: comp_def)
  moreover have "\<forall>u \<in> set (sd_unbonds db). is_lot op u \<longrightarrow>
      0 \<le> taken_of taken (ub_id u) \<and> taken_of taken (ub_id u) \<le> ub_amount u"
    using take_from_lots_bounds [OF lots(1) r0 lots(2)] by (auto simp: taken_def open_lots_lot)
  ultimately show ?thesis using that alloc by (simp add: r_def)
qed

text \<open>The whole effect of an execution on a well-formed database: it succeeds for an
  approved proposal of an operator with a bond, and takes the smaller of the proposed
  amount and the stake at risk from that operator only.\<close>

definition executed_db :: "nat \<Rightarrow> string \<Rightarrow> string \<Rightarrow> int \<Rightarrow> lot list \<Rightarrow> bond_row \<Rightarrow> staking_db \<Rightarrow> staking_db" where
  "executed_db i tx op fromBonded taken b db = db\<lparr>
     sd_bonds := (sd_bonds db)(op \<mapsto> b\<lparr>bo_bonded_amount := bo_bonded_amount b - fromBonded\<rparr>),
     sd_unbonds := map (\<lambda>u. if is_lot op u then slashed_row taken u else u) (sd_unbonds db),
     sd_proposals := map (\<lambda>q. if pr_id q = i then q\<lparr>pr_status := Executed, pr_execution_tx_hash := Some tx\<rparr> else q)
       (sd_proposals db)\<rparr>"

lemma executeProposal_effect:
  assumes wf: "staking_wf db" and tx: "js_trim tx \<noteq> []"
    and p: "List.find (\<lambda>p. pr_id p = i) (sd_proposals db) = Some p" "pr_status p = Approved"
    and bond: "sd_bonds db (pr_operator_id p) = Some b"
  defines "op \<equiv> pr_operator_id p"
  defines "slash \<equiv> min (pr_amount p) (stake_of op db)"
  obtains taken where
    "executeProposal i tx db = Inr (p\<lparr>pr_status := Executed, pr_execution_tx_hash := Some tx\<rparr>,
       executed_db i tx op (min (bo_bonded_amount b) slash) taken b db)"
    "sum_list (map (\<lambda>u. taken_of taken (ub_id u)) (filter (is_lot op) (sd_unbonds db)))
       = slash - min (bo_bonded_amount b) slash"
    "\<forall>u \<in> set (sd_unbonds db). is_lot op u \<longrightarrow>
       0 \<le> taken_of taken (ub_id u) \<and> taken_of taken (ub_id u) \<le> ub_amount u"
proof -
  have uwf: "unbonds_wf db" using wf by (simp add: staking_wf_def)
  have bonded: "bonded_of op db = bo_bonded_amount b" using bond by (simp add: bonded_of_def op_def)
  have b0: "0 \<le> bonded_of op db" using wf bond bonded by (auto simp: wf_defs)
  have "p \<in> set (sd_proposals db)" using p(1) by (auto simp: find_Some_iff)
  then have "0 < pr_amount p" using wf by (auto simp: wf_defs)
  then have slash: "0 \<le> slash" "slash \<le> stake_of op db"
    using lots_of_facts(4) [OF uwf, of op] b0 by (auto simp: slash_def)
  from slash_allocation [OF uwf b0 slash] obtain taken where
    alloc: "allocateSlash (bonded_of op db) (lots_of op db) slash = Inr (min (bonded_of op db) slash, taken)"
    and taken: "sum_list (map (\<lambda>u. taken_of taken (ub_id u)) (filter (is_lot op) (sd_unbonds db)))
       = slash - min (bonded_of op db) slash"
    "\<forall>u \<in> set (sd_unbonds db). is_lot op u \<longrightarrow>
       0 \<le> taken_of taken (ub_id u) \<and> taken_of taken (ub_id u) \<le> ub_amount u" by blast
  have stake: "foldl (\<lambda>s l. s + ub_amount l) (bo_bonded_amount b) (open_lots op db) = stake_of op db"
    using lots_of_facts(3) [OF uwf, of op] bonded by (simp add: foldl_sum comp_def)
  have "executeProposal i tx db = Inr (p\<lparr>pr_status := Executed, pr_execution_tx_hash := Some tx\<rparr>,
      executed_db i tx op (min (bo_bonded_amount b) slash) taken b db)"
    using tx p bond alloc stake slash_lots_eq [OF uwf, of op taken]
    by (simp add: executeProposal_def lockBond_def op_def [symmetric] Let_def slash_def [symmetric] bonded
        executed_db_def requireTransition_def update_proposal_def)
  with that taken bonded show ?thesis by simp
qed

lemma executeProposal_InrE:
  assumes "executeProposal i tx db = Inr (row, db')"
  obtains p b where "js_trim tx \<noteq> []" "List.find (\<lambda>p. pr_id p = i) (sd_proposals db) = Some p"
    "pr_status p = Approved" "sd_bonds db (pr_operator_id p) = Some b"
  using assms
  by (auto simp: executeProposal_def lockBond_def elim!: then_result_InrE split: if_splits option.splits)

lemma executeProposal_stake:
  assumes "staking_wf db" "executeProposal i tx db = Inr (row, db')"
  shows "stake_of k db' = stake_of k db
    - (if k = pr_operator_id row then min (pr_amount row) (stake_of k db) else 0)"
proof -
  from executeProposal_InrE [OF assms(2)] obtain p b where
    pre: "js_trim tx \<noteq> []" "List.find (\<lambda>p. pr_id p = i) (sd_proposals db) = Some p"
    "pr_status p = Approved" "sd_bonds db (pr_operator_id p) = Some b" by blast
  from executeProposal_effect [OF assms(1) pre] assms(2) obtain taken where
    row: "row = p\<lparr>pr_status := Executed, pr_execution_tx_hash := Some tx\<rparr>"
    and db': "db' = executed_db i tx (pr_operator_id p)
      (min (bo_bonded_amount b) (min (pr_amount p) (stake_of (pr_operator_id p) db))) taken b db"
    and sum: "sum_list (map (\<lambda>u. taken_of taken (ub_id u)) (filter (is_lot (pr_operator_id p)) (sd_unbonds db)))
      = min (pr_amount p) (stake_of (pr_operator_id p) db)
        - min (bo_bonded_amount b) (min (pr_amount p) (stake_of (pr_operator_id p) db))"
    by (metis prod.inject sum.inject(2))
  show ?thesis
    using pre(4) sum
    by (simp add: row db' executed_db_def stake_of_def atStake_lots slashed_sum bonded_of_def)
qed

section \<open>Preservation of the invariant\<close>

lemma recordBond_wf [inv_intros]:
  assumes "recordBond op a now db = Inr db'" "staking_wf db"
  shows "staking_wf db'"
proof -
  from assms(1) obtain amount where amount: "parseAmount a ''amount'' = Inr amount" "0 < amount"
    by (auto elim: recordBond_stake)
  show ?thesis using assms(2) amount assms(1) [unfolded recordBond_def amount(1)]
    by (auto simp: wf_defs split: option.splits if_splits)
qed

lemma requestUnbond_wf [inv_intros]:
  assumes "requestUnbond pol op a now db = Inr (r, db')" "staking_wf db"
  shows "staking_wf db'"
proof -
  from assms(1) obtain amount bond where "parseAmount a ''amount'' = Inr amount"
    "sd_bonds db op = Some bond" "amount \<le> bo_bonded_amount bond"
    and db': "db' = db\<lparr>sd_bonds := (sd_bonds db)(op \<mapsto> bond\<lparr>bo_bonded_amount := bo_bonded_amount bond - amount\<rparr>),
      sd_unbonds := sd_unbonds db @ [\<lparr>ub_id = sd_next db, ub_operator_id = op, ub_amount = amount,
        ub_status = Unbonding, ub_requested_at = now, ub_available_at = now + sp_unbondingPeriodSeconds pol * 1000\<rparr>],
      sd_next := Suc (sd_next db)\<rparr>"
    by (auto simp: requestUnbond_def lockBond_def Let_def not_less elim!: then_result_InrE
             split: option.splits if_splits)
  then show ?thesis using assms(2) parseAmount_pos [of a "''amount''" amount]
    by (auto simp: wf_defs less_Suc_eq)
qed

lemma withdraw_wf [inv_intros]:
  assumes "withdraw op now db = Inr (paid, db')" "staking_wf db"
  shows "staking_wf db'"
proof -
  have "db' = db\<lparr>sd_unbonds := map (\<lambda>u. if matured op now u then u\<lparr>ub_status := Withdrawn\<rparr> else u) (sd_unbonds db)\<rparr>"
    using assms(1) by (auto simp: withdraw_def elim!: then_result_InrE split: if_splits)
  moreover have "map ub_id (map (\<lambda>u. if matured op now u then u\<lparr>ub_status := Withdrawn\<rparr> else u) us) = map ub_id us" for us
    by (rule map_if_same) simp
  ultimately show ?thesis using assms(2) by (auto simp: wf_defs simp del: map_map)
qed

lemma slashAmountFor_bounds: "0 \<le> atst \<Longrightarrow> 0 \<le> slashAmountFor atst bps \<and> slashAmountFor atst bps \<le> atst"
  by (auto simp: slashAmountFor_def big_div_nonneg BPS_DENOMINATOR_def pos_imp_zdiv_nonneg_iff)

lemma wf_stake_nonneg: "staking_wf db \<Longrightarrow> 0 \<le> stake_of op db"
  using lots_of_facts(4) [of db op] by (fastforce simp: wf_defs bonded_of_def split: option.splits)

lemma createProposal_wf [inv_intros]:
  assumes "staking_wf db"
  shows "staking_wf (snd (createProposal pol op f now db))"
proof (cases "sd_bonds db op")
  case (Some b)
  have stake: "atStake op (bo_bonded_amount b) db = stake_of op db"
    using Some by (simp add: stake_of_def bonded_of_def)
  have "0 \<le> slashAmountFor (stake_of op db) bps" for bps
    using slashAmountFor_bounds wf_stake_nonneg [OF assms] by blast
  then have "slashAmountFor (stake_of op db) bps \<noteq> 0 \<Longrightarrow> 0 < slashAmountFor (stake_of op db) bps" for bps
    by (metis order_le_less)
  then show ?thesis using assms Some
    by (auto simp: createProposal_def Let_def stake wf_defs find_None_iff less_Suc_eq split: option.split)
qed (simp add: createProposal_def assms)

lemma evaluateSubmission_wf [inv_intros]:
  assumes "staking_wf db"
  shows "staking_wf (snd (evaluateSubmission pol s sib cx now db))"
proof -
  have "staking_wf (snd (evaluate_findings pol op fs now db))" for op fs
    using assms by (induction fs arbitrary: db) (auto simp: Let_def split_beta intro: createProposal_wf)
  then show ?thesis by (simp add: evaluateSubmission_def)
qed

text \<open>A review step on one proposal that keeps its identity and its amount.\<close>

lemma update_proposal_wf:
  assumes "staking_wf db" "requireTransition (update_proposal i cond f db) = Inr (row, db')"
    and "\<And>p. cond p \<Longrightarrow> pr_id (f p) = pr_id p \<and> pr_evidence_key (f p) = pr_evidence_key p \<and> pr_amount (f p) = pr_amount p
      \<and> (pr_status p \<noteq> Executed \<and> pr_execution_tx_hash p = None \<longrightarrow>
           pr_status (f p) \<noteq> Executed \<and> pr_execution_tx_hash (f p) = None)
      \<and> pr_status p \<noteq> Executed \<and> (pr_status (f p) \<in> {Approved, Executed} \<longrightarrow> pr_reviewed_by (f p) \<noteq> None)"
  shows "staking_wf db'"
proof -
  have "map pr_id (map (\<lambda>p. if pr_id p = i \<and> cond p then f p else p) (sd_proposals db)) = map pr_id (sd_proposals db)"
    "map pr_evidence_key (map (\<lambda>p. if pr_id p = i \<and> cond p then f p else p) (sd_proposals db))
      = map pr_evidence_key (sd_proposals db)"
    using assms(3) by (auto intro!: map_if_same)
  then show ?thesis using assms unfolding requireTransition_Inr
    by (auto simp: wf_defs simp del: map_map)
qed

lemma review_wf [inv_intros]:
  assumes "staking_wf db"
  shows "approveProposal i r now db = Inr (row, db') \<Longrightarrow> staking_wf db'"
    and "rejectProposal i r db = Inr (row, db') \<Longrightarrow> staking_wf db'"
    and "appealProposal i now db = Inr (row, db') \<Longrightarrow> staking_wf db'"
  unfolding approveProposal_def rejectProposal_def appealProposal_def
  by (erule update_proposal_wf [OF assms], auto)+

lemma executed_db_wf:
  assumes wf: "staking_wf db" and p: "List.find (\<lambda>p. pr_id p = i) (sd_proposals db) = Some p"
      "pr_status p = Approved" and bond: "sd_bonds db op = Some b" "fromBonded \<le> bo_bonded_amount b"
    and taken: "\<forall>u \<in> set (sd_unbonds db). is_lot op u \<longrightarrow>
       0 \<le> taken_of taken (ub_id u) \<and> taken_of taken (ub_id u) \<le> ub_amount u"
  shows "staking_wf (executed_db i tx op fromBonded taken b db)"
proof -
  have bonds: "bonds_wf (executed_db i tx op fromBonded taken b db)"
    using wf bond by (auto simp: wf_defs executed_db_def)
  have "map ub_id (map (\<lambda>u. if is_lot op u then slashed_row taken u else u) (sd_unbonds db)) = map ub_id (sd_unbonds db)"
    by (simp only: map_if_same slashed_row_amount)
  then have unbonds: "unbonds_wf (executed_db i tx op fromBonded taken b db)"
    using wf taken
    by (auto simp: wf_defs executed_db_def slashed_row_amount simp del: map_map)
  have "pr_id q = i \<Longrightarrow> q \<in> set (sd_proposals db) \<Longrightarrow> q = p" for q
    using wf p by (auto simp: wf_defs find_Some_iff distinct_conv_nth in_set_conv_nth)
  moreover have
    "map pr_id (map (\<lambda>q. if pr_id q = i then q\<lparr>pr_status := Executed, pr_execution_tx_hash := Some tx\<rparr> else q)
       (sd_proposals db)) = map pr_id (sd_proposals db)"
    "map pr_evidence_key (map (\<lambda>q. if pr_id q = i then q\<lparr>pr_status := Executed, pr_execution_tx_hash := Some tx\<rparr> else q)
       (sd_proposals db)) = map pr_evidence_key (sd_proposals db)"
    by (rule map_if_same, simp)+
  ultimately have "proposals_wf (executed_db i tx op fromBonded taken b db)"
    using wf p(2) by (auto simp: wf_defs executed_db_def simp del: map_map)
  with bonds unbonds show ?thesis by (simp add: staking_wf_def)
qed

lemma executeProposal_wf [inv_intros]:
  assumes "staking_wf db" "executeProposal i tx db = Inr (row, db')"
  shows "staking_wf db'"
proof -
  from executeProposal_InrE [OF assms(2)] obtain p b where
    pre: "js_trim tx \<noteq> []" "List.find (\<lambda>p. pr_id p = i) (sd_proposals db) = Some p"
    "pr_status p = Approved" "sd_bonds db (pr_operator_id p) = Some b" by blast
  from executeProposal_effect [OF assms(1) pre] assms(2) obtain taken fromBonded where
    db': "db' = executed_db i tx (pr_operator_id p) fromBonded taken b db"
    "fromBonded \<le> bo_bonded_amount b"
    "\<forall>u \<in> set (sd_unbonds db). is_lot (pr_operator_id p) u \<longrightarrow>
       0 \<le> taken_of taken (ub_id u) \<and> taken_of taken (ub_id u) \<le> ub_amount u"
    by (metis prod.inject sum.inject(2) min.cobounded1)
  show ?thesis unfolding db'(1) by (rule executed_db_wf [OF assms(1) pre(2-4) db'(2,3)])
qed

lemma staking_step_wf:
  assumes "staking_wf db"
  shows "staking_wf (staking_step pol now c db)"
  using assms
  by (cases c) (auto intro: inv_intros split: sum.split)

lemma empty_db_wf: "staking_wf empty_db"
  by (simp add: empty_db_def wf_defs)

lemma reachable_wf: "reachable pol db \<Longrightarrow> staking_wf db"
  by (induction rule: reachable.induct) (auto intro: empty_db_wf staking_step_wf)

section \<open>The life of a proposal\<close>

inductive status_move :: "proposal_status \<Rightarrow> proposal_status \<Rightarrow> bool" where
  appealed: "status_move PendingAppeal PendingReview"
| approved: "status_move PendingReview Approved"
| approved_unappealed: "status_move PendingAppeal Approved"
| rejected: "status_move PendingReview RejectedP"
| rejected_unappealed: "status_move PendingAppeal RejectedP"
| executed: "status_move Approved Executed"

lemmas status_moves = status_move.intros [THEN r_into_rtranclp [of status_move]]

inductive_cases status_move_fromE: "status_move Executed s" "status_move RejectedP s"
inductive_cases status_move_toE: "status_move s Executed"

text \<open>The later row of a proposal: same identity and claim, status moved on.\<close>

definition follows :: "proposal_row \<Rightarrow> proposal_row \<Rightarrow> bool" where
  "follows p q \<longleftrightarrow> pr_id q = pr_id p \<and> pr_operator_id q = pr_operator_id p \<and> pr_amount q = pr_amount p
     \<and> pr_evidence_key q = pr_evidence_key p \<and> status_move\<^sup>*\<^sup>* (pr_status p) (pr_status q)"

lemma follows_refl [simp]: "follows p p"
  by (simp add: follows_def)

lemma follows_trans: "follows p q \<Longrightarrow> follows q r \<Longrightarrow> follows p r"
  by (auto simp: follows_def)

lemma evaluate_appends:
  "\<exists>new. sd_proposals (snd (evaluateSubmission pol s sib cx now db)) = sd_proposals db @ new"
proof -
  have one: "\<exists>new. sd_proposals (snd (createProposal pol op f now db)) = sd_proposals db @ new" for op f db
    by (simp add: createProposal_def Let_def split: option.split)
  have "\<exists>new. sd_proposals (snd (evaluate_findings pol op fs now db)) = sd_proposals db @ new" for op fs
  proof (induction fs arbitrary: db)
    case (Cons f fs)
    obtain n1 where "sd_proposals (snd (createProposal pol op f now db)) = sd_proposals db @ n1"
      using one by blast
    with Cons [of "snd (createProposal pol op f now db)"] show ?case
      by (auto simp: Let_def split_beta)
  qed simp
  then show ?thesis by (simp add: evaluateSubmission_def)
qed

lemma update_follows:
  assumes "requireTransition (update_proposal i cond f db) = Inr (row, db')" "p \<in> set (sd_proposals db)"
    and "\<And>q. cond q \<Longrightarrow> follows q (f q)"
  shows "\<exists>q \<in> set (sd_proposals db'). follows p q"
proof -
  have "follows p (if pr_id p = i \<and> cond p then f p else p)" using assms(3) by simp
  moreover have "(if pr_id p = i \<and> cond p then f p else p) \<in> set (sd_proposals db')"
    using assms(1,2) unfolding requireTransition_Inr by auto
  ultimately show ?thesis by blast
qed

lemma execute_follows:
  assumes "staking_wf db" "executeProposal i tx db = Inr (row, db')" "p \<in> set (sd_proposals db)"
  shows "\<exists>q \<in> set (sd_proposals db'). follows p q"
proof -
  from executeProposal_InrE [OF assms(2)] obtain r b where
    pre: "js_trim tx \<noteq> []" "List.find (\<lambda>p. pr_id p = i) (sd_proposals db) = Some r"
    "pr_status r = Approved" "sd_bonds db (pr_operator_id r) = Some b" by blast
  from executeProposal_effect [OF assms(1) pre] assms(2) obtain taken fromBonded where
    db': "db' = executed_db i tx (pr_operator_id r) fromBonded taken b db" by (metis prod.inject sum.inject(2))
  have "pr_id p = i \<Longrightarrow> p = r"
    using assms(1,3) pre(2) by (auto simp: wf_defs find_Some_iff distinct_conv_nth in_set_conv_nth)
  then have "follows p (if pr_id p = i then p\<lparr>pr_status := Executed, pr_execution_tx_hash := Some tx\<rparr> else p)"
    using pre(3) by (auto simp: follows_def status_moves)
  moreover have "(if pr_id p = i then p\<lparr>pr_status := Executed, pr_execution_tx_hash := Some tx\<rparr> else p)
      \<in> set (sd_proposals db')"
    using assms(3) by (simp add: db' executed_db_def)
  ultimately show ?thesis by blast
qed

lemma staking_step_follows:
  assumes "staking_wf db" "p \<in> set (sd_proposals db)"
  shows "\<exists>q \<in> set (sd_proposals (staking_step pol now c db)). follows p q"
proof (cases c)
  case (CRecordBond op a)
  then show ?thesis using assms(2)
    by (cases "recordBond op a now db") (auto elim!: recordBond_stake intro: follows_refl)
next
  case (CRequestUnbond op a)
  then show ?thesis using assms(2) requestUnbond_stake
    by (cases "requestUnbond pol op a now db") (auto intro: follows_refl)
next
  case (CWithdraw op)
  then show ?thesis using assms(2) withdraw_stake(2)
    by (cases "withdraw op now db") (auto intro: follows_refl)
next
  case (CEvaluate s sib cx)
  then show ?thesis using assms(2) evaluate_appends [of pol s sib cx now db] by (auto intro: follows_refl)
next
  case (CApprove i r)
  have "\<exists>q \<in> set (sd_proposals db'). follows p q" if "approveProposal i r now db = Inr (row, db')" for row db'
    by (rule update_follows [OF that [unfolded approveProposal_def] assms(2)])
       (auto simp: follows_def status_moves)
  then show ?thesis using CApprove assms(2)
    by (cases "approveProposal i r now db") (auto intro: follows_refl)
next
  case (CReject i r)
  have "\<exists>q \<in> set (sd_proposals db'). follows p q" if "rejectProposal i r db = Inr (row, db')" for row db'
    by (rule update_follows [OF that [unfolded rejectProposal_def] assms(2)])
       (auto simp: follows_def status_moves)
  then show ?thesis using CReject assms(2)
    by (cases "rejectProposal i r db") (auto intro: follows_refl)
next
  case (CAppeal i)
  have "\<exists>q \<in> set (sd_proposals db'). follows p q" if "appealProposal i now db = Inr (row, db')" for row db'
    by (rule update_follows [OF that [unfolded appealProposal_def] assms(2)])
       (auto simp: follows_def status_moves)
  then show ?thesis using CAppeal assms(2)
    by (cases "appealProposal i now db") (auto intro: follows_refl)
next
  case (CExecute i tx)
  then show ?thesis using assms(2) execute_follows [OF assms(1)]
    by (cases "executeProposal i tx db") (auto intro: follows_refl)
qed

definition staking_run :: "staking_policy \<Rightarrow> (time_ms \<times> staking_call) list \<Rightarrow> staking_db \<Rightarrow> staking_db" where
  "staking_run pol cs = fold (\<lambda>(now, c). staking_step pol now c) cs"

interpretation staking_life: row_lifecycle "\<lambda>(now, c). staking_step pol now c" staking_wf
  "\<lambda>db. set (sd_proposals db)" follows for pol
  by unfold_locales (auto intro: staking_step_wf staking_step_follows follows_trans)

section \<open>Properties\<close>

text \<open>C15. Executing an approved slash always succeeds and takes exactly what it may: in every
  reachable database, for an approved proposal of an operator with a bond, the operator's
  stake (bond plus unbonding lots) falls by the smaller of the proposed amount and the
  stake, never below zero, and no other operator's stake changes.\<close>

theorem execute_slash_exact:
  assumes "reachable pol db" "js_trim tx \<noteq> []"
    and "List.find (\<lambda>p. pr_id p = i) (sd_proposals db) = Some p" "pr_status p = Approved"
    and "sd_bonds db (pr_operator_id p) = Some b"
  shows "\<exists>row db'. executeProposal i tx db = Inr (row, db') \<and> pr_status row = Executed
    \<and> stake_of k db' = stake_of k db
        - (if k = pr_operator_id p then min (pr_amount p) (stake_of k db) else 0)
    \<and> 0 \<le> stake_of k db'"
proof -
  note wf = reachable_wf [OF assms(1)]
  from executeProposal_effect [OF wf assms(2-5)] obtain db' where
    ex: "executeProposal i tx db = Inr (p\<lparr>pr_status := Executed, pr_execution_tx_hash := Some tx\<rparr>, db')"
    by metis
  have "0 \<le> stake_of k db'" using wf_stake_nonneg executeProposal_wf [OF wf ex] by blast
  then show ?thesis using ex executeProposal_stake [OF wf ex, of k] by auto
qed

text \<open>C14. Unbonding never shields stake from an open proposal: while a proposal against an
  operator is open, no call other than an execution lowers that operator's stake; in
  particular a withdrawal is refused and moving bond into an unbonding lot changes
  nothing.\<close>

theorem open_proposal_protects_stake:
  assumes "reachable pol db" "p \<in> set (sd_proposals db)" "is_open_proposal p"
    and "\<And>i tx. c \<noteq> CExecute i tx"
  shows "stake_of (pr_operator_id p) db \<le> stake_of (pr_operator_id p) (staking_step pol now c db)"
proof (cases c)
  case (CRecordBond op a)
  then show ?thesis
    by (cases "recordBond op a now db") (auto elim!: recordBond_stake [where k = "pr_operator_id p"])
next
  case (CRequestUnbond op a)
  then show ?thesis
    by (cases "requestUnbond pol op a now db") (auto simp: requestUnbond_stake)
next
  case (CWithdraw op)
  then show ?thesis
    using assms(2,3) withdraw_stake(1) [of op now db _ _ "pr_operator_id p"] withdraw_stake(3) [of op now db]
    by (cases "withdraw op now db") fastforce+
next
  case (CApprove i r)
  then show ?thesis by (cases "approveProposal i r now db") (auto simp: review_keeps_stake)
next
  case (CReject i r)
  then show ?thesis by (cases "rejectProposal i r db") (auto simp: review_keeps_stake)
next
  case (CAppeal i)
  then show ?thesis by (cases "appealProposal i now db") (auto simp: review_keeps_stake)
qed (auto simp: evaluateSubmission_stake assms(4))

text \<open>The life of a proposal: whatever calls are made, a proposal keeps its identity,
  operator, amount and evidence, and its status only moves along the documented
  transitions (appeal to review or decision, review to decision, approved to executed), so
  a rejected or executed proposal is final and an execution follows an approval.\<close>

theorem proposal_lifecycle:
  assumes "reachable pol db" "p \<in> set (sd_proposals db)"
  shows "\<exists>q \<in> set (sd_proposals (staking_run pol cs db)).
    pr_id q = pr_id p \<and> pr_operator_id q = pr_operator_id p \<and> pr_amount q = pr_amount p
    \<and> pr_evidence_key q = pr_evidence_key p \<and> status_move\<^sup>*\<^sup>* (pr_status p) (pr_status q)"
  using staking_life.run_row [OF reachable_wf [OF assms(1)] assms(2)]
  by (simp add: staking_run_def follows_def)

text \<open>Evidence is used once: opening a proposal for a finding a second time, at any later
  time, changes nothing and returns the same proposal.\<close>

theorem createProposal_idempotent:
  "createProposal pol op f later (snd (createProposal pol op f now db))
     = (fst (createProposal pol op f now db), snd (createProposal pol op f now db))"
proof -
  have find: "List.find P xs = None \<Longrightarrow> P y \<Longrightarrow> List.find P (xs @ [y]) = Some y" for P xs and y :: proposal_row
    by (induction xs) (auto split: if_splits)
  show ?thesis
    by (simp add: createProposal_def Let_def split: option.split) (auto simp: find)
qed

section \<open>A worked example\<close>

definition demo_policy :: staking_policy where
  "demo_policy = \<lparr>sp_unbondingPeriodSeconds = 100, sp_minBondAgeSeconds = 10, sp_minBondByTier = (\<lambda>_. 1),
     sp_slashBps = (\<lambda>_. 2500), sp_autoSlash = \<lparr>as_enabled = False, as_maxBps = 0, as_appealWindowSeconds = 0\<rparr>\<rparr>"

definition late_submission :: submission where
  "late_submission = \<lparr>sub_evidenceId = ''e'', sub_operatorId = ''a'', sub_feedId = ''f'', sub_roundId = ''r'',
     sub_value = 1, sub_submittedAt = 9\<rparr>"

definition demo_calls :: "(time_ms \<times> staking_call) list" where
  "demo_calls = [(0, CRecordBond ''a'' (Some ''1000'')),
     (1, CEvaluate late_submission [] \<lparr>cx_consensus = None, cx_toleranceBps = 0, cx_quarantinedAt = Some 5\<rparr>),
     (2, CApprove 0 ''ops'')]"

definition demo_proposal :: proposal_row where
  "demo_proposal = \<lparr>pr_id = 0, pr_operator_id = ''a'', pr_reason = PostQuarantine, pr_evidence_ids = [''e''],
     pr_evidence_key = ''post_quarantine:e'', pr_amount = 250, pr_status = Approved, pr_appeal_until = None,
     pr_execution_tx_hash = None, pr_reviewed_by = Some ''ops''\<rparr>"

definition demo_db :: staking_db where
  "demo_db = \<lparr>sd_bonds = Map.empty(''a'' \<mapsto> \<lparr>bo_bonded_amount = 1000, bo_first_bonded_at = Some 0\<rparr>),
     sd_unbonds = [], sd_proposals = [demo_proposal], sd_next = 1\<rparr>"

lemma demo_run: "staking_run demo_policy demo_calls empty_db = demo_db"
  by (simp add: staking_run_def demo_calls_def empty_db_def demo_db_def demo_proposal_def demo_policy_def
      late_submission_def recordBond_def parseAmount_def all_digits_def is_digit_def dec_value_def digit_val_def
      evaluateSubmission_def detectSlashableConditions_def createProposal_def evidenceKey_def slashAmountFor_def
      atStake_def BPS_DENOMINATOR_def big_div_nonneg approveProposal_def requireTransition_def update_proposal_def Let_def)

lemma reachable_run: "reachable pol db \<Longrightarrow> reachable pol (staking_run pol cs db)"
  by (induction cs arbitrary: db) (auto simp: staking_run_def intro: reachable_step)

lemma demo_reachable: "reachable demo_policy demo_db"
  using reachable_run [OF reachable_empty, of demo_policy demo_calls] by (simp add: demo_run)

theorem execute_slash_exact_witness:
  "\<exists>row db'. executeProposal 0 ''tx'' demo_db = Inr (row, db') \<and> stake_of ''a'' db' = 750"
  using execute_slash_exact [OF demo_reachable, of "''tx''" 0 demo_proposal _ "''a''"]
  by (auto simp: demo_db_def demo_proposal_def js_trim_def js_space_def stake_of_def atStake_def bonded_of_def)

theorem open_proposal_protects_stake_witness:
  "stake_of ''a'' demo_db \<le> stake_of ''a'' (staking_step demo_policy 3 (CWithdraw ''a'') demo_db)"
  using open_proposal_protects_stake [OF demo_reachable, of demo_proposal "CWithdraw ''a''" 3]
  by (simp add: demo_db_def demo_proposal_def is_open_proposal_def OPEN_PROPOSAL_STATUSES_def)

end
