(* ===== verification/Operator_Rewards.thy ===== *)
theory Operator_Rewards
  imports Refract_Prelude
begin

text \<open>
  Reward accrual and payouts of oracle operators (\<open>services/operatorRewards.ts\<close>). The
  \<open>RewardLedgerStore\<close> interface is a record of operations over an abstract store, and the
  functions that take a store take that record, as in the source; the in-memory store is
  its instance here. SHA-256 is the parameter \<open>sha256\<close> (hex digest of a string); nothing
  but its being a function is used unless a lemma says that it is injective. Amounts are
  exact rationals.
\<close>

definition CONSENSUS_BASE_REWARD :: rat where "CONSENSUS_BASE_REWARD = 100"
definition STAKE_CAP :: rat where "STAKE_CAP = 100000"
definition POOL_CAP_PER_OPERATOR :: rat where "POOL_CAP_PER_OPERATOR = 250"
definition DUST_PRECISION :: nat where "DUST_PRECISION = 6"
definition MIN_PAYOUT_THRESHOLD :: rat where "MIN_PAYOUT_THRESHOLD = 10"
definition DISPUTE_WINDOW_MS :: int where "DISPUTE_WINDOW_MS = 24 * 60 * 60 * 1000"

datatype reading_status = Committed | Late | QuarantinedR | Duplicate | Invalidated

record consensus_reading =
  cr_readingId :: string
  cr_roundId :: string
  cr_operatorId :: string
  cr_includedInConsensus :: bool
  cr_status :: reading_status
  cr_stake :: js_number
  cr_reputation :: js_number

record reward_accrual =
  ra_idempotencyKey :: string
  ra_roundId :: string
  ra_readingId :: string
  ra_operatorId :: string
  ra_amount :: rat
  ra_createdAt :: time_ms

datatype entry_type = Accrual | Adjustment | Payout

record ledger_entry =
  le_idempotencyKey :: string
  le_type :: entry_type
  le_operatorId :: string
  le_amount :: rat
  le_roundId :: "string option"
  le_readingId :: "string option"
  le_createdAt :: time_ms

datatype payout_status = Pending | Paid | Disputed

record payout_record =
  po_idempotencyKey :: string
  po_operatorId :: string
  po_amount :: rat
  po_scheduledAt :: time_ms
  po_disputeWindowEndsAt :: time_ms
  po_status :: payout_status

record reward_view =
  rv_operatorId :: string
  rv_accrued :: rat
  rv_pending :: rat
  rv_paid :: rat

record 's ledger_store =
  ls_hasEntry :: "'s \<Rightarrow> string \<Rightarrow> bool"
  ls_appendEntry :: "ledger_entry \<Rightarrow> 's \<Rightarrow> 's"
  ls_listEntries :: "'s \<Rightarrow> string option \<Rightarrow> ledger_entry list"
  ls_listPayouts :: "'s \<Rightarrow> string option \<Rightarrow> payout_record list"
  ls_upsertPayout :: "payout_record \<Rightarrow> 's \<Rightarrow> 's"

section \<open>The in-memory store\<close>

record mem_store =
  ms_entries :: "(string, ledger_entry) jmap"
  ms_payouts :: "(string, payout_record) jmap"

definition mem_hasEntry :: "mem_store \<Rightarrow> string \<Rightarrow> bool" where
  "mem_hasEntry s k = js_has k (ms_entries s)"

definition mem_appendEntry :: "ledger_entry \<Rightarrow> mem_store \<Rightarrow> mem_store" where
  "mem_appendEntry e s =
     (if js_has (le_idempotencyKey e) (ms_entries s) then s
      else s\<lparr>ms_entries := js_set (le_idempotencyKey e) e (ms_entries s)\<rparr>)"

text \<open>An absent or empty operator id is falsy and lists everything.\<close>

definition mem_listEntries :: "mem_store \<Rightarrow> string option \<Rightarrow> ledger_entry list" where
  "mem_listEntries s operatorId =
     (let all = js_values (ms_entries s) in
      case operatorId of
        None \<Rightarrow> all
      | Some op \<Rightarrow> (if op = [] then all else filter (\<lambda>e. le_operatorId e = op) all))"

definition mem_listPayouts :: "mem_store \<Rightarrow> string option \<Rightarrow> payout_record list" where
  "mem_listPayouts s operatorId =
     (let all = js_values (ms_payouts s) in
      case operatorId of
        None \<Rightarrow> all
      | Some op \<Rightarrow> (if op = [] then all else filter (\<lambda>p. po_operatorId p = op) all))"

definition mem_upsertPayout :: "payout_record \<Rightarrow> mem_store \<Rightarrow> mem_store" where
  "mem_upsertPayout p s = s\<lparr>ms_payouts := js_set (po_idempotencyKey p) p (ms_payouts s)\<rparr>"

definition InMemoryRewardLedgerStore :: "mem_store ledger_store" where
  "InMemoryRewardLedgerStore = \<lparr>ls_hasEntry = mem_hasEntry, ls_appendEntry = mem_appendEntry,
     ls_listEntries = mem_listEntries, ls_listPayouts = mem_listPayouts, ls_upsertPayout = mem_upsertPayout\<rparr>"

definition empty_store :: mem_store where
  "empty_store = \<lparr>ms_entries = [], ms_payouts = []\<rparr>"

section \<open>Accrual\<close>

definition roundDust :: "rat \<Rightarrow> rat" where
  "roundDust v = of_int \<lfloor>v * 10 ^ DUST_PRECISION\<rfloor> / 10 ^ DUST_PRECISION"

definition clamp01 :: "js_number \<Rightarrow> rat" where
  "clamp01 v = (case v of Num q \<Rightarrow> (if q < 0 then 0 else if q > 1 then 1 else q) | _ \<Rightarrow> 0)"

definition computeRewardWeight :: "js_number \<Rightarrow> js_number \<Rightarrow> rat" where
  "computeRewardWeight stake reputation =
     (case stake of
        Num q \<Rightarrow> (if q \<le> 0 then 0 else min q STAKE_CAP / STAKE_CAP * clamp01 reputation)
      | _ \<Rightarrow> 0)"

definition computeAccrualAmount :: "consensus_reading \<Rightarrow> rat" where
  "computeAccrualAmount reading =
     (if \<not> cr_includedInConsensus reading then 0
      else if cr_status reading \<noteq> Committed then 0
      else let weight = computeRewardWeight (cr_stake reading) (cr_reputation reading) in
        if weight \<le> 0 then 0
        else roundDust (min (CONSENSUS_BASE_REWARD * weight) POOL_CAP_PER_OPERATOR))"

definition accrualIdempotencyKey :: "(string \<Rightarrow> string) \<Rightarrow> string \<Rightarrow> string \<Rightarrow> string \<Rightarrow> string" where
  "accrualIdempotencyKey sha256 roundId readingId operatorId =
     sha256 (''accrual:'' @ roundId @ '':'' @ readingId @ '':'' @ operatorId)"

definition accrual_entry :: "(string \<Rightarrow> string) \<Rightarrow> time_ms \<Rightarrow> consensus_reading \<Rightarrow> ledger_entry" where
  "accrual_entry sha256 now r = \<lparr>
     le_idempotencyKey = accrualIdempotencyKey sha256 (cr_roundId r) (cr_readingId r) (cr_operatorId r),
     le_type = Accrual, le_operatorId = cr_operatorId r, le_amount = computeAccrualAmount r,
     le_roundId = Some (cr_roundId r), le_readingId = Some (cr_readingId r), le_createdAt = now\<rparr>"

fun accrueRewards ::
  "(string \<Rightarrow> string) \<Rightarrow> 's ledger_store \<Rightarrow> consensus_reading list \<Rightarrow> time_ms \<Rightarrow> 's \<Rightarrow> reward_accrual list \<times> 's" where
  "accrueRewards sha256 S [] now s = ([], s)"
| "accrueRewards sha256 S (r # rs) now s =
     (if computeAccrualAmount r \<le> 0 then accrueRewards sha256 S rs now s
      else let e = accrual_entry sha256 now r in
        if ls_hasEntry S s (le_idempotencyKey e) then accrueRewards sha256 S rs now s
        else let (accrued, s') = accrueRewards sha256 S rs now (ls_appendEntry S e s)
             in (\<lparr>ra_idempotencyKey = le_idempotencyKey e, ra_roundId = cr_roundId r,
                  ra_readingId = cr_readingId r, ra_operatorId = cr_operatorId r,
                  ra_amount = le_amount e, ra_createdAt = now\<rparr> # accrued, s'))"

definition invalidateAccrual ::
  "(string \<Rightarrow> string) \<Rightarrow> 's ledger_store \<Rightarrow> string \<Rightarrow> string \<Rightarrow> string \<Rightarrow> time_ms \<Rightarrow> 's \<Rightarrow> ledger_entry option \<times> 's" where
  "invalidateAccrual sha256 S roundId readingId operatorId now s =
     (let accrualKey = accrualIdempotencyKey sha256 roundId readingId operatorId;
          adjustmentKey = sha256 (''adjustment:'' @ accrualKey)
      in if \<not> ls_hasEntry S s accrualKey then (None, s)
         else if ls_hasEntry S s adjustmentKey then (None, s)
         else case List.find (\<lambda>e. le_idempotencyKey e = accrualKey) (ls_listEntries S s (Some operatorId)) of
             None \<Rightarrow> (None, s)
           | Some original \<Rightarrow>
               (let entry = \<lparr>le_idempotencyKey = adjustmentKey, le_type = Adjustment,
                      le_operatorId = operatorId, le_amount = - le_amount original,
                      le_roundId = Some roundId, le_readingId = Some readingId, le_createdAt = now\<rparr>
                in (Some entry, ls_appendEntry S entry s)))"

section \<open>Payouts\<close>

fun add_balances :: "ledger_entry list \<Rightarrow> (string, rat) jmap \<Rightarrow> (string, rat) jmap" where
  "add_balances [] m = m"
| "add_balances (e # es) m =
     (if le_type e = Payout then add_balances es m
      else add_balances es (js_set (le_operatorId e)
        ((case map_of m (le_operatorId e) of None \<Rightarrow> 0 | Some b \<Rightarrow> b) + le_amount e) m))"

text \<open>\<open>Number.toString\<close> on a multiple of \<open>10^-6\<close> in the range printed without an exponent.\<close>

definition micro_to_string :: "rat \<Rightarrow> string" where
  "micro_to_string q =
     (let micro = \<lfloor>q * 1000000\<rfloor>; whole = micro div 1000000; frac = micro mod 1000000;
          digits = rev (dropWhile (\<lambda>c. c = CHR ''0'') (rev (pad_start 6 (CHR ''0'') (big_to_string frac))))
      in big_to_string whole @ (if digits = [] then [] else ''.'' @ digits))"

definition payoutKey :: "(string \<Rightarrow> string) \<Rightarrow> string \<Rightarrow> rat \<Rightarrow> string" where
  "payoutKey sha256 operatorId balance =
     sha256 (''payout:'' @ operatorId @ '':'' @ micro_to_string (roundDust balance))"

fun schedule_balances ::
  "(string \<Rightarrow> string) \<Rightarrow> 's ledger_store \<Rightarrow> (string \<times> rat) list \<Rightarrow> time_ms \<Rightarrow> 's \<Rightarrow> payout_record list \<times> 's" where
  "schedule_balances sha256 S [] now s = ([], s)"
| "schedule_balances sha256 S ((operatorId, balance) # rest) now s =
     (if balance < MIN_PAYOUT_THRESHOLD then schedule_balances sha256 S rest now s
      else let key = payoutKey sha256 operatorId balance in
        case List.find (\<lambda>p. po_idempotencyKey p = key) (ls_listPayouts S s (Some operatorId)) of
          Some _ \<Rightarrow> schedule_balances sha256 S rest now s
        | None \<Rightarrow>
            (let payout = \<lparr>po_idempotencyKey = key, po_operatorId = operatorId, po_amount = roundDust balance,
                   po_scheduledAt = now, po_disputeWindowEndsAt = now + DISPUTE_WINDOW_MS, po_status = Pending\<rparr>;
                 (scheduled, s') = schedule_balances sha256 S rest now (ls_upsertPayout S payout s)
             in (payout # scheduled, s')))"

definition schedulePayouts ::
  "(string \<Rightarrow> string) \<Rightarrow> 's ledger_store \<Rightarrow> time_ms \<Rightarrow> 's \<Rightarrow> payout_record list \<times> 's" where
  "schedulePayouts sha256 S now s =
     schedule_balances sha256 S (add_balances (ls_listEntries S s None) []) now s"

fun settle_all :: "'s ledger_store \<Rightarrow> payout_record list \<Rightarrow> time_ms \<Rightarrow> 's \<Rightarrow> payout_record list \<times> 's" where
  "settle_all S [] now s = ([], s)"
| "settle_all S (p # ps) now s =
     (if po_status p \<noteq> Pending \<or> now < po_disputeWindowEndsAt p then settle_all S ps now s
      else let entry = \<lparr>le_idempotencyKey = po_idempotencyKey p, le_type = Payout,
                 le_operatorId = po_operatorId p, le_amount = - po_amount p,
                 le_roundId = None, le_readingId = None, le_createdAt = now\<rparr>;
               s1 = (if ls_hasEntry S s (le_idempotencyKey entry) then s else ls_appendEntry S entry s);
               paid = p\<lparr>po_status := Paid\<rparr>;
               (settled, s') = settle_all S ps now (ls_upsertPayout S paid s1)
           in (paid # settled, s'))"

definition settlePayouts :: "'s ledger_store \<Rightarrow> time_ms \<Rightarrow> 's \<Rightarrow> payout_record list \<times> 's" where
  "settlePayouts S now s = settle_all S (ls_listPayouts S s None) now s"

definition entries_of_types :: "entry_type set \<Rightarrow> ledger_entry list \<Rightarrow> rat" where
  "entries_of_types T es = sum_list (map le_amount (filter (\<lambda>e. le_type e \<in> T) es))"

definition getOperatorRewardView :: "'s ledger_store \<Rightarrow> 's \<Rightarrow> string \<Rightarrow> reward_view" where
  "getOperatorRewardView S s operatorId =
     (let es = ls_listEntries S s (Some operatorId);
          accrued = entries_of_types {Accrual, Adjustment} es;
          paid = - entries_of_types {Payout} es
      in \<lparr>rv_operatorId = operatorId, rv_accrued = roundDust accrued,
          rv_pending = max 0 (roundDust (accrued - paid)), rv_paid = roundDust paid\<rparr>)"

definition payout_due :: "time_ms \<Rightarrow> payout_record \<Rightarrow> bool" where
  "payout_due now p \<longleftrightarrow> po_status p = Pending \<and> po_disputeWindowEndsAt p \<le> now"

section \<open>The store contract\<close>

text \<open>
  What the reward functions rely on: the entries are an append-only list keyed by the
  idempotency key, the first entry of a key wins, and payouts are kept apart from them.
  \<open>ok\<close> is the provider's representation invariant.
\<close>

locale reward_ledger =
  fixes S :: "'s ledger_store" and ok :: "'s \<Rightarrow> bool"
    and entries :: "'s \<Rightarrow> ledger_entry list" and payouts :: "'s \<Rightarrow> payout_record list"
  assumes has_law: "ok s \<Longrightarrow> ls_hasEntry S s k \<longleftrightarrow> k \<in> le_idempotencyKey ` set (entries s)"
    and append_law: "ok s \<Longrightarrow> entries (ls_appendEntry S e s) =
      (if le_idempotencyKey e \<in> le_idempotencyKey ` set (entries s) then entries s else entries s @ [e])"
    and append_payouts: "ok s \<Longrightarrow> payouts (ls_appendEntry S e s) = payouts s"
    and append_ok: "ok s \<Longrightarrow> ok (ls_appendEntry S e s)"
    and upsert_law: "ok s \<Longrightarrow> entries (ls_upsertPayout S p s) = entries s"
    and upsert_payouts: "ok s \<Longrightarrow> payouts (ls_upsertPayout S p s) =
      (if po_idempotencyKey p \<in> po_idempotencyKey ` set (payouts s)
       then map (\<lambda>q. if po_idempotencyKey q = po_idempotencyKey p then p else q) (payouts s)
       else payouts s @ [p])"
    and upsert_ok: "ok s \<Longrightarrow> ok (ls_upsertPayout S p s)"
    and list_law: "ok s \<Longrightarrow> ls_listEntries S s None = entries s"
    and list_operator: "ok s \<Longrightarrow> op \<noteq> [] \<Longrightarrow>
      ls_listEntries S s (Some op) = filter (\<lambda>e. le_operatorId e = op) (entries s)"
    and payouts_law: "ok s \<Longrightarrow> ls_listPayouts S s None = payouts s"
    and keys_distinct: "ok s \<Longrightarrow> distinct (map le_idempotencyKey (entries s))
      \<and> distinct (map po_idempotencyKey (payouts s))"
begin

lemma accrue_ok: "ok s \<Longrightarrow> ok (snd (accrueRewards sha S rs now s))"
  by (induction rs arbitrary: s) (auto simp: Let_def split_beta append_ok)

lemma accrue_keeps: "ok s \<Longrightarrow> ls_hasEntry S s k \<Longrightarrow> ls_hasEntry S (snd (accrueRewards sha S rs now s)) k"
  by (induction rs arbitrary: s) (auto simp: Let_def split_beta append_ok has_law append_law)

lemma accrue_records:
  assumes "ok s" "r \<in> set rs" "0 < computeAccrualAmount r"
  shows "ls_hasEntry S (snd (accrueRewards sha S rs now s)) (le_idempotencyKey (accrual_entry sha t r))"
  using assms
proof (induction rs arbitrary: s)
  case (Cons x rs)
  have key: "le_idempotencyKey (accrual_entry sha t r) = le_idempotencyKey (accrual_entry sha now r)"
    by (simp add: accrual_entry_def)
  have added: "ls_hasEntry S (ls_appendEntry S e s) (le_idempotencyKey e)" for e
    using Cons.prems(1) by (auto simp: has_law append_ok append_law)
  show ?case
  proof (cases "r = x")
    case True
    then show ?thesis using Cons.prems key added
      by (auto simp: Let_def split_beta intro: accrue_keeps append_ok)
  next
    case False
    then show ?thesis using Cons by (auto simp: Let_def split_beta append_ok)
  qed
qed simp

lemma accrue_skips:
  assumes "\<And>r. r \<in> set rs \<Longrightarrow> 0 < computeAccrualAmount r \<Longrightarrow>
    ls_hasEntry S s (le_idempotencyKey (accrual_entry sha now r))"
  shows "accrueRewards sha S rs now s = ([], s)"
  using assms by (induction rs) (auto simp: Let_def not_le)

lemma accrue_twice:
  assumes "ok s"
  shows "accrueRewards sha S rs later (snd (accrueRewards sha S rs now s))
    = ([], snd (accrueRewards sha S rs now s))"
  using accrue_records [OF assms] by (intro accrue_skips) blast

text \<open>An invalidation appends the negated accrual, once.\<close>

lemma invalidate_entry:
  assumes "ok s" "operatorId \<noteq> []" "e \<in> set (entries s)" "le_operatorId e = operatorId"
    and "le_idempotencyKey e = accrualIdempotencyKey sha roundId readingId operatorId"
    and "\<not> ls_hasEntry S s (sha (''adjustment:'' @ le_idempotencyKey e))"
  obtains a where "invalidateAccrual sha S roundId readingId operatorId now s = (Some a, ls_appendEntry S a s)"
    "entries (ls_appendEntry S a s) = entries s @ [a]" "le_type a = Adjustment"
    "le_operatorId a = operatorId" "le_amount a = - le_amount e"
    "le_idempotencyKey a = sha (''adjustment:'' @ le_idempotencyKey e)"
proof -
  have "distinct (map le_idempotencyKey (filter (\<lambda>e. le_operatorId e = operatorId) (entries s)))"
    using keys_distinct [OF assms(1)] by (simp add: distinct_map_filter)
  then have find: "List.find (\<lambda>x. le_idempotencyKey x = le_idempotencyKey e)
      (filter (\<lambda>e. le_operatorId e = operatorId) (entries s)) = Some e"
    by (rule find_distinct) (use assms in simp)
  have "ls_hasEntry S s (le_idempotencyKey e)" using assms(1,3) by (simp add: has_law)
  with that assms find show ?thesis
    by (auto simp: invalidateAccrual_def Let_def list_operator has_law append_law)
qed

text \<open>A settlement pays the due payouts, each once.\<close>

lemma settle_list: "fst (settle_all S qs now s) = map (\<lambda>p. p\<lparr>po_status := Paid\<rparr>) (filter (payout_due now) qs)"
  by (induction qs arbitrary: s) (auto simp: Let_def split_beta payout_due_def)

lemma settle_payouts:
  assumes "ok s" "set qs \<subseteq> set (payouts s)" "distinct (map po_idempotencyKey qs)"
  shows "ok (snd (settle_all S qs now s)) \<and> payouts (snd (settle_all S qs now s))
    = map (\<lambda>p. if p \<in> set qs \<and> payout_due now p then p\<lparr>po_status := Paid\<rparr> else p) (payouts s)"
  using assms
proof (induction qs arbitrary: s)
  case (Cons q qs)
  show ?case
  proof (cases "payout_due now q")
    case False
    then show ?thesis using Cons.IH [of s] Cons.prems
      by (auto simp: payout_due_def intro!: map_cong)
  next
    case due: True
    define e where "e = \<lparr>le_idempotencyKey = po_idempotencyKey q, le_type = Payout,
      le_operatorId = po_operatorId q, le_amount = - po_amount q, le_roundId = None, le_readingId = None, le_createdAt = now\<rparr>"
    define s1 where "s1 = (if ls_hasEntry S s (le_idempotencyKey e) then s else ls_appendEntry S e s)"
    have s1: "ok s1" "payouts s1 = payouts s"
      using Cons.prems(1) by (auto simp: s1_def append_ok append_payouts)
    have inj: "po_idempotencyKey p = po_idempotencyKey q \<longleftrightarrow> p = q" if "p \<in> set (payouts s)" for p
      using keys_distinct [OF Cons.prems(1)] Cons.prems(2) that by (auto simp: distinct_map inj_on_def)
    define s2 where "s2 = ls_upsertPayout S (q\<lparr>po_status := Paid\<rparr>) s1"
    have s2: "ok s2" "payouts s2 = map (\<lambda>p. if p = q then q\<lparr>po_status := Paid\<rparr> else p) (payouts s)"
      using upsert_payouts [OF s1(1), of "q\<lparr>po_status := Paid\<rparr>"] s1 Cons.prems(2) inj
      by (auto simp: s2_def upsert_ok intro!: map_cong)
    have fresh: "q \<notin> set qs" "set qs \<subseteq> set (payouts s2)"
      using Cons.prems(2,3) by (auto simp: s2(2) image_iff)
    have step: "snd (settle_all S (q # qs) now s) = snd (settle_all S qs now s2)"
      using due by (simp add: payout_due_def Let_def split_beta e_def [symmetric] s1_def [symmetric] s2_def)
    have "q\<lparr>po_status := Paid\<rparr> \<notin> set qs \<or> \<not> payout_due now (q\<lparr>po_status := Paid\<rparr>)"
      by (simp add: payout_due_def)
    then show ?thesis
      using Cons.IH [OF s2(1) fresh(2)] Cons.prems(3) due fresh(1) unfolding step s2(2)
      by (auto simp: payout_due_def)
  qed
qed (simp add: map_idI)

lemma settle_twice:
  assumes "ok s"
  shows "settlePayouts S now (snd (settlePayouts S now s)) = ([], snd (settlePayouts S now s))"
proof -
  let ?s = "snd (settlePayouts S now s)"
  have after: "ok ?s" "\<forall>p \<in> set (payouts ?s). \<not> payout_due now p"
    using settle_payouts [OF assms order_refl] keys_distinct [OF assms]
    by (auto simp: settlePayouts_def payouts_law [OF assms] payout_due_def)
  have "settle_all S qs now t = ([], t)" if "\<forall>p \<in> set qs. \<not> payout_due now p" for qs t
    using that by (induction qs) (auto simp: payout_due_def)
  then show ?thesis using after by (simp add: settlePayouts_def [of S now ?s] payouts_law)
qed

end

lemma js_values_set_fresh: "\<not> js_has k m \<Longrightarrow> js_values (js_set k v m) = js_values m @ [v]"
  by (simp add: js_set_fresh js_values_def)

text \<open>Each map holds its records under their own keys.\<close>

definition mem_ok :: "mem_store \<Rightarrow> bool" where
  "mem_ok s \<longleftrightarrow> distinct (map fst (ms_entries s)) \<and> distinct (map fst (ms_payouts s))
     \<and> map fst (ms_entries s) = map le_idempotencyKey (js_values (ms_entries s))
     \<and> map fst (ms_payouts s) = map po_idempotencyKey (js_values (ms_payouts s))"

lemma js_has_keys: "js_has k m \<longleftrightarrow> k \<in> set (map fst m)"
  by (auto simp: js_has_def map_of_eq_None_iff)

lemma js_set_present:
  assumes "js_has k m" "distinct (map fst m)"
  shows "js_set k v m = map (\<lambda>p. if fst p = k then (k, v) else p) m"
  using assms
proof (induction k v m rule: js_set.induct)
  case (2 k v k' v' m)
  have "map (\<lambda>p. if fst p = k' then (k', v) else p) m = m" if "k' \<notin> fst ` set m"
    using that by (intro map_idI) auto
  moreover have "js_has k ((k', v') # m) \<longleftrightarrow> k = k' \<or> js_has k m" by (auto simp: js_has_def)
  ultimately show ?case using 2 by auto
qed (simp add: js_has_def)

lemma keyed_values_set:
  assumes "distinct (map fst m)" "map fst m = map key (js_values m)"
  shows "js_values (js_set (key v) v m) =
      (if key v \<in> key ` set (js_values m) then map (\<lambda>q. if key q = key v then v else q) (js_values m)
       else js_values m @ [v])"
    and "map fst (js_set (key v) v m) = map key (js_values (js_set (key v) v m))"
proof -
  have keys: "js_has (key v) m \<longleftrightarrow> key v \<in> key ` set (js_values m)"
    by (metis assms(2) js_has_keys list.set_map)
  have pair: "fst p = key (snd p)" if "p \<in> set m" for p
    using assms(2) that by (induction m) (auto simp: js_values_def)
  show "js_values (js_set (key v) v m) =
      (if key v \<in> key ` set (js_values m) then map (\<lambda>q. if key q = key v then v else q) (js_values m)
       else js_values m @ [v])"
    using assms(1) keys pair
    by (cases "js_has (key v) m") (auto simp: js_set_present js_set_fresh js_values_def)
  have "set (js_set k v m) \<subseteq> insert (k, v) (set m)" for k
    by (induction k v m rule: js_set.induct) auto
  then have "\<forall>p \<in> set (js_set (key v) v m). fst p = key (snd p)" using pair by fastforce
  then show "map fst (js_set (key v) v m) = map key (js_values (js_set (key v) v m))"
    by (simp add: js_values_def)
qed

lemma mem_has: "mem_ok s \<Longrightarrow> mem_hasEntry s k \<longleftrightarrow> k \<in> le_idempotencyKey ` set (js_values (ms_entries s))"
  by (metis mem_hasEntry_def mem_ok_def js_has_keys list.set_map)

lemma mem_append_ok: "mem_ok s \<Longrightarrow> mem_ok (mem_appendEntry e s)"
  using keyed_values_set(2) [of "ms_entries s" le_idempotencyKey e]
    distinct_js_set [of "ms_entries s" "le_idempotencyKey e" e]
  by (auto simp: mem_ok_def mem_appendEntry_def)

lemma mem_upsert_ok: "mem_ok s \<Longrightarrow> mem_ok (mem_upsertPayout p s)"
  using keyed_values_set(2) [of "ms_payouts s" po_idempotencyKey p]
    distinct_js_set [of "ms_payouts s" "po_idempotencyKey p" p]
  by (auto simp: mem_ok_def mem_upsertPayout_def)

interpretation mem_ledger: reward_ledger InMemoryRewardLedgerStore mem_ok
  "\<lambda>s. js_values (ms_entries s)" "\<lambda>s. js_values (ms_payouts s)"
proof unfold_locales
  fix s :: mem_store and e p k and op :: string
  assume ok: "mem_ok s"
  note S = InMemoryRewardLedgerStore_def
  show "ls_hasEntry InMemoryRewardLedgerStore s k \<longleftrightarrow> k \<in> le_idempotencyKey ` set (js_values (ms_entries s))"
    using mem_has [OF ok] by (simp add: S)
  show "js_values (ms_entries (ls_appendEntry InMemoryRewardLedgerStore e s)) =
      (if le_idempotencyKey e \<in> le_idempotencyKey ` set (js_values (ms_entries s))
       then js_values (ms_entries s) else js_values (ms_entries s) @ [e])"
    using mem_has [OF ok, of "le_idempotencyKey e"] js_values_set_fresh [of "le_idempotencyKey e" "ms_entries s" e]
    by (auto simp: S mem_appendEntry_def mem_hasEntry_def)
  show "js_values (ms_payouts (ls_upsertPayout InMemoryRewardLedgerStore p s)) =
      (if po_idempotencyKey p \<in> po_idempotencyKey ` set (js_values (ms_payouts s))
       then map (\<lambda>q. if po_idempotencyKey q = po_idempotencyKey p then p else q) (js_values (ms_payouts s))
       else js_values (ms_payouts s) @ [p])"
    using ok keyed_values_set(1) [of "ms_payouts s" po_idempotencyKey p]
    by (auto simp: S mem_upsertPayout_def mem_ok_def)
  show "distinct (map le_idempotencyKey (js_values (ms_entries s)))
      \<and> distinct (map po_idempotencyKey (js_values (ms_payouts s)))"
    using ok by (metis mem_ok_def)
  show "mem_ok (ls_appendEntry InMemoryRewardLedgerStore e s)" using mem_append_ok [OF ok] by (simp add: S)
  show "mem_ok (ls_upsertPayout InMemoryRewardLedgerStore p s)" using mem_upsert_ok [OF ok] by (simp add: S)
qed (simp_all add: InMemoryRewardLedgerStore_def mem_appendEntry_def mem_upsertPayout_def
       mem_listEntries_def mem_listPayouts_def)

section \<open>Properties\<close>

text \<open>Rewards accrue exactly once: delivering the same readings again, at any later time,
  records nothing and leaves the ledger as it is, whatever the hash.\<close>

theorem accrue_exactly_once:
  assumes "mem_ok s"
  shows "accrueRewards sha256 InMemoryRewardLedgerStore rs later
      (snd (accrueRewards sha256 InMemoryRewardLedgerStore rs now s))
    = ([], snd (accrueRewards sha256 InMemoryRewardLedgerStore rs now s))"
  by (rule mem_ledger.accrue_twice [OF assms])

definition full_reading :: "string \<Rightarrow> consensus_reading" where
  "full_reading i = \<lparr>cr_readingId = i, cr_roundId = ''1'', cr_operatorId = ''op'', cr_includedInConsensus = True,
     cr_status = Committed, cr_stake = Num 100000, cr_reputation = Num 1\<rparr>"

lemma empty_store_ok: "mem_ok empty_store"
  by (simp add: mem_ok_def empty_store_def js_values_def)

text \<open>The accrual of a reading lies between zero and the base reward, and it is the base
  reward times the weight, rounded down to dust, for a committed reading of the decision
  and zero for any other: the per-operator pool cap never takes effect.\<close>

theorem accrual_bounds:
  "0 \<le> computeAccrualAmount r \<and> computeAccrualAmount r \<le> CONSENSUS_BASE_REWARD
   \<and> computeAccrualAmount r = (if cr_includedInConsensus r \<and> cr_status r = Committed
       then roundDust (CONSENSUS_BASE_REWARD * computeRewardWeight (cr_stake r) (cr_reputation r)) else 0)"
proof -
  define w where "w = computeRewardWeight (cr_stake r) (cr_reputation r)"
  have rep: "0 \<le> clamp01 (cr_reputation r)" "clamp01 (cr_reputation r) \<le> 1"
    by (auto simp: clamp01_def split: js_number.split)
  have "0 \<le> w \<and> w \<le> 1"
    using rep mult_mono [of "min q STAKE_CAP / STAKE_CAP" 1 "clamp01 (cr_reputation r)" 1 for q]
    by (auto simp: w_def computeRewardWeight_def STAKE_CAP_def split: js_number.split)
  then have w: "0 \<le> w" "w \<le> 1" by auto
  have dust: "0 \<le> roundDust v \<and> roundDust v \<le> v" if "0 \<le> v" for v
  proof -
    have "of_int \<lfloor>v * 10 ^ DUST_PRECISION\<rfloor> \<le> v * 10 ^ DUST_PRECISION" by (rule of_int_floor_le)
    then show ?thesis using that by (simp add: roundDust_def divide_le_eq)
  qed
  have "roundDust 0 = 0" by (simp add: roundDust_def)
  then show ?thesis
    using dust [of "100 * w"] w
    by (auto simp: computeAccrualAmount_def Let_def w_def [symmetric] CONSENSUS_BASE_REWARD_def
        POOL_CAP_PER_OPERATOR_def min_def)
qed

text \<open>Funds move only after the dispute window, and once: a settlement pays exactly the
  pending payouts whose window has ended, in order, and settling again at the same time
  pays nothing and changes nothing.\<close>

theorem settle_after_window_once:
  assumes "mem_ok s"
  shows "fst (settlePayouts InMemoryRewardLedgerStore now s)
      = map (\<lambda>p. p\<lparr>po_status := Paid\<rparr>)
          (filter (\<lambda>p. po_status p = Pending \<and> po_disputeWindowEndsAt p \<le> now) (js_values (ms_payouts s)))
    \<and> settlePayouts InMemoryRewardLedgerStore now (snd (settlePayouts InMemoryRewardLedgerStore now s))
      = ([], snd (settlePayouts InMemoryRewardLedgerStore now s))"
  using mem_ledger.settle_list mem_ledger.settle_twice [OF assms] mem_ledger.payouts_law [OF assms]
  by (simp add: settlePayouts_def payout_due_def [abs_def])

definition due_payout :: payout_record where
  "due_payout = \<lparr>po_idempotencyKey = ''k'', po_operatorId = ''op'', po_amount = 20, po_scheduledAt = 0,
     po_disputeWindowEndsAt = 10, po_status = Pending\<rparr>"

text \<open>Invalidating a reading reverses its accrual exactly: for a hash without collisions,
  accruing a fresh reading and then invalidating it leaves the operator's accrued total
  where it was, and a second invalidation does nothing.\<close>

theorem invalidation_reverses_accrual:
  fixes r :: consensus_reading
  defines "op \<equiv> cr_operatorId r"
  assumes "mem_ok s" "inj sha256" "op \<noteq> []" "0 < computeAccrualAmount r"
    and "\<not> mem_hasEntry s (le_idempotencyKey (accrual_entry sha256 now r))"
    and "\<not> mem_hasEntry s (sha256 (''adjustment:'' @ le_idempotencyKey (accrual_entry sha256 now r)))"
    and "s1 = snd (accrueRewards sha256 InMemoryRewardLedgerStore [r] now s)"
    and "s2 = snd (invalidateAccrual sha256 InMemoryRewardLedgerStore (cr_roundId r) (cr_readingId r) op later s1)"
  shows "entries_of_types {Accrual, Adjustment} (mem_listEntries s2 (Some op))
      = entries_of_types {Accrual, Adjustment} (mem_listEntries s (Some op))
    \<and> invalidateAccrual sha256 InMemoryRewardLedgerStore (cr_roundId r) (cr_readingId r) op again s2 = (None, s2)"
proof -
  let ?e = "accrual_entry sha256 now r"
  let ?adj = "sha256 (''adjustment:'' @ le_idempotencyKey ?e)"
  have S: "ls_hasEntry InMemoryRewardLedgerStore = mem_hasEntry"
    "ls_appendEntry InMemoryRewardLedgerStore = mem_appendEntry"
    "ls_listEntries InMemoryRewardLedgerStore = mem_listEntries"
    by (simp_all add: InMemoryRewardLedgerStore_def)
  have fresh: "le_idempotencyKey ?e \<notin> le_idempotencyKey ` set (js_values (ms_entries s))"
    using assms(6) mem_has [OF assms(2)] by simp
  have s1: "s1 = mem_appendEntry ?e s" "mem_ok s1"
    using assms(2,5,6) by (simp_all add: assms(8) S Let_def mem_append_ok)
  have entries1: "js_values (ms_entries s1) = js_values (ms_entries s) @ [?e]"
    using mem_ledger.append_law [OF assms(2), of ?e] fresh by (simp add: s1 S)
  have "?adj \<noteq> le_idempotencyKey ?e"
    using assms(3) by (simp add: accrual_entry_def accrualIdempotencyKey_def inj_eq)
  then have noadj: "\<not> ls_hasEntry InMemoryRewardLedgerStore s1 ?adj"
    using assms(7) mem_has [OF assms(2), of ?adj] mem_has [OF s1(2), of ?adj] by (auto simp: S entries1)
  have "?e \<in> set (js_values (ms_entries s1))" "le_operatorId ?e = op"
    "le_idempotencyKey ?e = accrualIdempotencyKey sha256 (cr_roundId r) (cr_readingId r) op"
    by (simp_all add: entries1 accrual_entry_def op_def)
  from mem_ledger.invalidate_entry [OF s1(2) assms(4) this noadj, of later] obtain a where
    a: "s2 = mem_appendEntry a s1" "js_values (ms_entries s2) = js_values (ms_entries s1) @ [a]"
    "le_type a = Adjustment" "le_operatorId a = op" "le_amount a = - le_amount ?e" "le_idempotencyKey a = ?adj"
    by (metis assms(9) S(2) snd_conv)
  have "mem_ok s2" using mem_append_ok [OF s1(2)] a(1) by simp
  then have "mem_hasEntry s2 ?adj" using a(2,6) by (simp add: mem_has)
  then have "invalidateAccrual sha256 InMemoryRewardLedgerStore (cr_roundId r) (cr_readingId r) op again s2 = (None, s2)"
    by (simp add: invalidateAccrual_def Let_def S accrual_entry_def op_def)
  moreover have "le_type ?e = Accrual" "le_operatorId ?e = op" by (simp_all add: accrual_entry_def op_def)
  ultimately show ?thesis
    using a assms(4) by (simp add: mem_listEntries_def entries_of_types_def entries1)
qed

definition overpaid_run :: "(string \<Rightarrow> string) \<Rightarrow> mem_store" where
  "overpaid_run sha256 =
     (let S = InMemoryRewardLedgerStore;
          s1 = snd (accrueRewards sha256 S [full_reading ''a''] 0 empty_store);
          s2 = snd (schedulePayouts sha256 S 0 s1);
          s3 = snd (settlePayouts S DISPUTE_WINDOW_MS s2);
          s4 = snd (accrueRewards sha256 S [full_reading ''b''] DISPUTE_WINDOW_MS s3);
          s5 = snd (schedulePayouts sha256 S DISPUTE_WINDOW_MS s4)
      in snd (settlePayouts S (2 * DISPUTE_WINDOW_MS) s5))"

lemma full_reading_amount: "computeAccrualAmount (full_reading i) = 100"
  by (simp add: computeAccrualAmount_def full_reading_def computeRewardWeight_def STAKE_CAP_def clamp01_def
      CONSENSUS_BASE_REWARD_def POOL_CAP_PER_OPERATOR_def roundDust_def DUST_PRECISION_def)

lemma full_reading_entry:
  "accrual_entry sha256 now (full_reading i) = \<lparr>le_idempotencyKey = sha256 (''accrual:1:'' @ i @ '':op''),
     le_type = Accrual, le_operatorId = ''op'', le_amount = 100, le_roundId = Some ''1'', le_readingId = Some i,
     le_createdAt = now\<rparr>"
  by (simp add: accrual_entry_def full_reading_amount accrualIdempotencyKey_def) (simp add: full_reading_def)

lemma demo_payout_keys:
  "payoutKey sha256 ''op'' 100 = sha256 ''payout:op:100''" "payoutKey sha256 ''op'' 200 = sha256 ''payout:op:200''"
proof -
  have "micro_to_string (roundDust 100) = ''100''" by code_simp
  moreover have "micro_to_string (roundDust 200) = ''200''" by code_simp
  ultimately show "payoutKey sha256 ''op'' 100 = sha256 ''payout:op:100''"
    "payoutKey sha256 ''op'' 200 = sha256 ''payout:op:200''"
    by (simp_all add: payoutKey_def)
qed



end
