(* ===== verification/Review_Queue.thy ===== *)
theory Review_Queue
  imports Fixed_Point
begin

text \<open>
  The manual review queue (\<open>services/reviewQueue.ts\<close>). The tables \<open>review_queue\<close> and
  \<open>review_audit\<close> are lists in insertion order; the random identifiers and the clock are
  arguments. The evidence packet is opaque to the queue and is a string. \<open>resolve\<close> is
  given both as one call and as its two database round trips, a read and an unguarded
  update, because the code does not run them in a transaction.
\<close>

datatype review_trigger = ValueAboveThreshold | ConfidenceBelowFloor | EvidenceImmaturity | PostRemediation

datatype review_status = RPending | RApproved | RRejected | REscalated

record review_config =
  rq_valueThreshold :: rat
  rq_confidenceFloor :: rat
  rq_slaSeconds :: int

record review_entry =
  re_id :: string
  re_claimId :: string
  re_decisionId :: string
  re_trigger :: "review_trigger option"
  re_status :: review_status
  re_evidence :: string
  re_createdAt :: time_ms
  re_deadlineAt :: time_ms
  re_resolvedAt :: "time_ms option"
  re_resolvedBy :: "string option"
  re_rejectionReason :: "string option"

record reviewer_context =
  rx_actor :: string
  rx_authorized :: bool

record decision_evaluation =
  de_claimId :: string
  de_decisionId :: string
  de_value :: rat
  de_confidence :: rat
  de_evidenceMature :: bool
  de_postRemediation :: bool
  de_evidence :: string

record audit_row =
  au_entryId :: string
  au_action :: string
  au_actor :: string

record review_db =
  rd_queue :: "review_entry list"
  rd_audit :: "audit_row list"

definition DEFAULT_REVIEW_CONFIG :: review_config where
  "DEFAULT_REVIEW_CONFIG = \<lparr>rq_valueThreshold = 10000, rq_confidenceFloor = 6 / 10, rq_slaSeconds = 24 * 60 * 60\<rparr>"

definition determineTriggers :: "review_config \<Rightarrow> decision_evaluation \<Rightarrow> review_trigger list" where
  "determineTriggers config e =
     (if de_value e > rq_valueThreshold config then [ValueAboveThreshold] else [])
     @ (if de_confidence e < rq_confidenceFloor config then [ConfidenceBelowFloor] else [])
     @ (if \<not> de_evidenceMature e then [EvidenceImmaturity] else [])
     @ (if de_postRemediation e then [PostRemediation] else [])"

definition recordAudit :: "string \<Rightarrow> string \<Rightarrow> string \<Rightarrow> review_db \<Rightarrow> review_db" where
  "recordAudit entryId action actor db =
     db\<lparr>rd_audit := rd_audit db @ [\<lparr>au_entryId = entryId, au_action = action, au_actor = actor\<rparr>]\<rparr>"

definition enqueueForReview ::
  "review_config \<Rightarrow> string \<Rightarrow> time_ms \<Rightarrow> decision_evaluation \<Rightarrow> review_trigger list \<Rightarrow> review_db
     \<Rightarrow> review_entry \<times> review_db" where
  "enqueueForReview config uuid now e triggers db =
     (let entry = \<lparr>re_id = uuid, re_claimId = de_claimId e, re_decisionId = de_decisionId e,
            re_trigger = (case triggers of [] \<Rightarrow> None | t # _ \<Rightarrow> Some t), re_status = RPending,
            re_evidence = de_evidence e, re_createdAt = now, re_deadlineAt = now + rq_slaSeconds config * 1000,
            re_resolvedAt = None, re_resolvedBy = None, re_rejectionReason = None\<rparr>
      in (entry, recordAudit uuid ''enqueue'' ''system'' (db\<lparr>rd_queue := rd_queue db @ [entry]\<rparr>)))"

definition getEntry :: "string \<Rightarrow> review_db \<Rightarrow> review_entry option" where
  "getEntry i db = List.find (\<lambda>e. re_id e = i) (rd_queue db)"

definition is_waiting :: "review_entry \<Rightarrow> bool" where
  "is_waiting e \<longleftrightarrow> re_status e = RPending \<or> re_status e = REscalated"

definition listPending :: "review_db \<Rightarrow> review_entry list" where
  "listPending db = sort_key re_deadlineAt (filter is_waiting (rd_queue db))"

definition queueDepth :: "review_db \<Rightarrow> nat" where
  "queueDepth db = length (filter is_waiting (rd_queue db))"

fun status_name :: "review_status \<Rightarrow> string" where
  "status_name RPending = ''pending''"
| "status_name RApproved = ''approved''"
| "status_name RRejected = ''rejected''"
| "status_name REscalated = ''escalated''"

text \<open>The read of \<open>resolve\<close>, with its two refusals, and its write.\<close>

definition resolve_read :: "string \<Rightarrow> review_db \<Rightarrow> review_entry result" where
  "resolve_read i db =
     (case getEntry i db of
        None \<Rightarrow> Inl (Err (''review queue entry '' @ i @ '' not found''))
      | Some entry \<Rightarrow>
          (if re_status entry = RApproved \<or> re_status entry = RRejected
           then Inl (Err (''review queue entry '' @ i @ '' already resolved as '' @ status_name (re_status entry)))
           else Inr entry))"

definition resolve_write ::
  "string \<Rightarrow> review_status \<Rightarrow> string \<Rightarrow> string option \<Rightarrow> time_ms \<Rightarrow> review_db \<Rightarrow> review_db" where
  "resolve_write i status actor reason now db =
     recordAudit i (status_name status) actor
       (db\<lparr>rd_queue := map (\<lambda>e. if re_id e = i
          then e\<lparr>re_status := status, re_resolvedAt := Some now, re_resolvedBy := Some actor,
                 re_rejectionReason := reason\<rparr> else e) (rd_queue db)\<rparr>)"

definition resolve ::
  "string \<Rightarrow> review_status \<Rightarrow> string \<Rightarrow> string option \<Rightarrow> time_ms \<Rightarrow> review_db \<Rightarrow> (review_entry \<times> review_db) result" where
  "resolve i status actor reason now db =
     then_result (resolve_read i db) (\<lambda>entry.
       Inr (entry\<lparr>re_status := status, re_resolvedAt := Some now, re_resolvedBy := Some actor,
                  re_rejectionReason := reason\<rparr>, resolve_write i status actor reason now db))"

definition assertAuthorized :: "reviewer_context \<Rightarrow> unit result" where
  "assertAuthorized ctx =
     (if \<not> rx_authorized ctx
      then Inl (Err (''actor '' @ rx_actor ctx @ '' is not authorized to act on review queue items''))
      else Inr ())"

definition approve :: "string \<Rightarrow> reviewer_context \<Rightarrow> time_ms \<Rightarrow> review_db \<Rightarrow> (review_entry \<times> review_db) result" where
  "approve i ctx now db =
     then_result (assertAuthorized ctx) (\<lambda>_. resolve i RApproved (rx_actor ctx) None now db)"

definition reject ::
  "string \<Rightarrow> reviewer_context \<Rightarrow> string \<Rightarrow> time_ms \<Rightarrow> review_db \<Rightarrow> (review_entry \<times> review_db) result" where
  "reject i ctx reason now db =
     then_result (assertAuthorized ctx) (\<lambda>_.
       if js_trim reason = [] then Inl (Err ''rejection reason is required'')
       else resolve i RRejected (rx_actor ctx) (Some (js_trim reason)) now db)"

definition escalate :: "string \<Rightarrow> reviewer_context \<Rightarrow> time_ms \<Rightarrow> review_db \<Rightarrow> (review_entry \<times> review_db) result" where
  "escalate i ctx now db =
     then_result (assertAuthorized ctx) (\<lambda>_. resolve i REscalated (rx_actor ctx) None now db)"

text \<open>The sweep stops at the first escalation that throws; the earlier ones stay.\<close>

fun escalate_all :: "string list \<Rightarrow> time_ms \<Rightarrow> review_db \<Rightarrow> unit result \<times> review_db" where
  "escalate_all [] now db = (Inr (), db)"
| "escalate_all (i # is) now db =
     (case escalate i \<lparr>rx_actor = ''system:sla'', rx_authorized = True\<rparr> now db of
        Inl e \<Rightarrow> (Inl e, db)
      | Inr (_, db') \<Rightarrow> escalate_all is now db')"

definition expired :: "time_ms \<Rightarrow> review_entry \<Rightarrow> bool" where
  "expired now e \<longleftrightarrow> re_status e = RPending \<and> re_deadlineAt e \<le> now"

definition sweepExpired :: "time_ms \<Rightarrow> review_db \<Rightarrow> nat result \<times> review_db" where
  "sweepExpired now db =
     (let ids = map re_id (filter (expired now) (rd_queue db));
          (r, db') = escalate_all ids now db
      in (then_result r (\<lambda>_. Inr (length ids)), db'))"

text \<open>\<open>ORDER BY created_at DESC LIMIT 1\<close> over the entries of a decision.\<close>

definition newer :: "review_entry option \<Rightarrow> review_entry \<Rightarrow> review_entry option" where
  "newer acc e = (case acc of None \<Rightarrow> Some e
     | Some a \<Rightarrow> if re_createdAt e > re_createdAt a then Some e else Some a)"

definition latest_entry :: "string \<Rightarrow> review_db \<Rightarrow> review_entry option" where
  "latest_entry decisionId db = foldl newer None (filter (\<lambda>e. re_decisionId e = decisionId) (rd_queue db))"

definition assertSettlementAllowed :: "string \<Rightarrow> review_db \<Rightarrow> unit result" where
  "assertSettlementAllowed decisionId db =
     (case latest_entry decisionId db of
        None \<Rightarrow> Inr ()
      | Some e \<Rightarrow>
          (if re_status e \<noteq> RApproved
           then Inl (Err (''decision '' @ decisionId @ '' cannot settle: review queue status is '' @ status_name (re_status e)))
           else Inr ()))"

section \<open>Calls\<close>

datatype review_call =
    CEnqueue string decision_evaluation "review_trigger list"
  | CApproveR string reviewer_context
  | CRejectR string reviewer_context string
  | CEscalate string reviewer_context
  | CSweep

abbreviation applied :: "('a \<times> review_db) result \<Rightarrow> review_db \<Rightarrow> review_db" where
  "applied r db \<equiv> (case r of Inl _ \<Rightarrow> db | Inr x \<Rightarrow> snd x)"

fun review_step :: "review_config \<Rightarrow> time_ms \<times> review_call \<Rightarrow> review_db \<Rightarrow> review_db" where
  "review_step config (now, CEnqueue uuid e triggers) db = snd (enqueueForReview config uuid now e triggers db)"
| "review_step config (now, CApproveR i ctx) db = applied (approve i ctx now db) db"
| "review_step config (now, CRejectR i ctx reason) db = applied (reject i ctx reason now db) db"
| "review_step config (now, CEscalate i ctx) db = applied (escalate i ctx now db) db"
| "review_step config (now, CSweep) db = snd (sweepExpired now db)"

text \<open>Runs: a random identifier is fresh, so an enqueue with a used one does not occur.\<close>

definition review_event :: "review_config \<Rightarrow> time_ms \<times> review_call \<Rightarrow> review_db \<Rightarrow> review_db" where
  "review_event config ev db =
     (case snd ev of
        CEnqueue uuid _ _ \<Rightarrow> (if uuid \<in> re_id ` set (rd_queue db) then db else review_step config ev db)
      | _ \<Rightarrow> review_step config ev db)"

section \<open>What a resolution may change\<close>

text \<open>Every call but an enqueue rewrites rows in place. A rewrite keeps identity, decision and
  creation time, and never touches a resolved entry.\<close>

definition row_becomes :: "review_entry \<Rightarrow> review_entry \<Rightarrow> bool" where
  "row_becomes e e' \<longleftrightarrow> re_id e' = re_id e \<and> re_decisionId e' = re_decisionId e
     \<and> re_createdAt e' = re_createdAt e \<and> re_evidence e' = re_evidence e
     \<and> (re_status e \<in> {RApproved, RRejected} \<longrightarrow> e' = e)"

definition ids_distinct :: "review_db \<Rightarrow> bool" where
  "ids_distinct db \<longleftrightarrow> distinct (map re_id (rd_queue db))"

lemma row_becomes_refl [simp]: "row_becomes e e"
  by (simp add: row_becomes_def)

lemma life_refl: "e \<in> A \<Longrightarrow> \<exists>e' \<in> A. row_becomes e e'"
  using row_becomes_refl by blast

lemma row_becomes_trans: "row_becomes a b \<Longrightarrow> row_becomes b c \<Longrightarrow> row_becomes a c"
  unfolding row_becomes_def by (metis insertCI)

definition rewritten :: "string \<Rightarrow> review_status \<Rightarrow> string \<Rightarrow> string option \<Rightarrow> time_ms \<Rightarrow> review_entry \<Rightarrow> review_entry" where
  "rewritten i status actor reason now e = (if re_id e = i
     then e\<lparr>re_status := status, re_resolvedAt := Some now, re_resolvedBy := Some actor,
            re_rejectionReason := reason\<rparr> else e)"

lemma resolve_InrD:
  assumes "resolve i status actor reason now db = Inr (r, db')"
  shows "rd_queue db' = map (rewritten i status actor reason now) (rd_queue db)"
    and "\<exists>e \<in> set (rd_queue db). re_id e = i \<and> re_status e \<notin> {RApproved, RRejected}"
  using assms
  by (auto simp: resolve_def resolve_read_def resolve_write_def recordAudit_def getEntry_def
      rewritten_def [abs_def] find_Some_iff elim!: then_result_InrE split: option.splits if_splits)

lemma resolve_row:
  assumes "ids_distinct db" "resolve i status actor reason now db = Inr (r, db')" "e \<in> set (rd_queue db)"
  shows "row_becomes e (rewritten i status actor reason now e)"
proof (cases "re_id e = i")
  case True
  from resolve_InrD(2) [OF assms(2)] obtain e0 where
    "e0 \<in> set (rd_queue db)" "re_id e0 = i" "re_status e0 \<notin> {RApproved, RRejected}" by blast
  then have "e0 = e" using assms(1,3) True by (auto simp: ids_distinct_def distinct_map inj_on_def)
  then show ?thesis using \<open>re_status e0 \<notin> _\<close> by (simp add: row_becomes_def rewritten_def)
qed (simp add: rewritten_def)

lemma rewritten_ids: "map re_id (map (rewritten i status actor reason now) es) = map re_id es"
  by (simp add: rewritten_def)

lemma resolve_life:
  assumes "ids_distinct db" "resolve i status actor reason now db = Inr (r, db')"
  shows "ids_distinct db' \<and> (\<forall>e \<in> set (rd_queue db). \<exists>e' \<in> set (rd_queue db'). row_becomes e e')"
proof
  show "ids_distinct db'"
    using assms(1) unfolding ids_distinct_def resolve_InrD(1) [OF assms(2)] rewritten_ids by simp
  show "\<forall>e \<in> set (rd_queue db). \<exists>e' \<in> set (rd_queue db'). row_becomes e e'"
    using resolve_row [OF assms] by (auto simp: resolve_InrD(1) [OF assms(2)])
qed

lemma escalate_all_life:
  assumes "ids_distinct db"
  shows "ids_distinct (snd (escalate_all is now db))
    \<and> (\<forall>e \<in> set (rd_queue db). \<exists>e' \<in> set (rd_queue (snd (escalate_all is now db))). row_becomes e e')"
  using assms
proof (induction "is" arbitrary: db)
  case (Cons i js)
  show ?case
  proof (cases "escalate i \<lparr>rx_actor = ''system:sla'', rx_authorized = True\<rparr> now db")
    case (Inr x)
    obtain r db1 where x: "x = (r, db1)" by (cases x)
    have "resolve i REscalated ''system:sla'' None now db = Inr (r, db1)"
      using Inr x by (simp add: escalate_def assertAuthorized_def)
    note one = resolve_life [OF Cons.prems this]
    have rec: "escalate_all (i # js) now db = escalate_all js now db1" using Inr x by simp
    have "\<exists>e' \<in> set (rd_queue (snd (escalate_all js now db1))). row_becomes e e'" if "e \<in> set (rd_queue db)" for e
      using one Cons.IH [of db1] that by (meson row_becomes_trans)
    then show ?thesis using Cons.IH [of db1] one unfolding rec by blast
  qed (use Cons.prems life_refl in auto)
qed (auto intro: life_refl)

lemma call_resolves:
  "approve i ctx now db = Inr x \<Longrightarrow> resolve i RApproved (rx_actor ctx) None now db = Inr x \<and> rx_authorized ctx"
  "escalate i ctx now db = Inr x \<Longrightarrow> resolve i REscalated (rx_actor ctx) None now db = Inr x"
  "reject i ctx reason now db = Inr x \<Longrightarrow>
     resolve i RRejected (rx_actor ctx) (Some (js_trim reason)) now db = Inr x"
  by (auto simp: approve_def escalate_def reject_def assertAuthorized_def elim!: then_result_InrE split: if_splits)

lemma review_event_life:
  assumes "ids_distinct db"
  shows "ids_distinct (review_event config ev db)
    \<and> (\<forall>e \<in> set (rd_queue db). \<exists>e' \<in> set (rd_queue (review_event config ev db)). row_becomes e e')"
proof (cases ev)
  case (Pair now c)
  have via: "ids_distinct (applied x db) \<and> (\<forall>e \<in> set (rd_queue db). \<exists>e' \<in> set (rd_queue (applied x db)). row_becomes e e')"
    if "\<And>y. x = Inr y \<Longrightarrow> \<exists>i st a r. resolve i st a r now db = Inr y" for x
    using that resolve_life [OF assms] assms by (cases x) (auto intro: life_refl)
  show ?thesis
  proof (cases c)
    case (CEnqueue uuid e ts)
    then show ?thesis using Pair assms
      by (cases "uuid \<in> re_id ` set (rd_queue db)")
         (auto simp: review_event_def enqueueForReview_def recordAudit_def Let_def ids_distinct_def intro: life_refl)
  next
    case CSweep
    then show ?thesis using Pair escalate_all_life [OF assms]
      by (simp add: review_event_def sweepExpired_def Let_def split_beta)
  next
    case (CApproveR i ctx)
    from via [of "approve i ctx now db"] call_resolves(1) [of i ctx now db] show ?thesis
      unfolding Pair CApproveR review_event_def by (simp only: snd_conv review_call.case review_step.simps) blast
  next
    case (CRejectR i ctx reason)
    from via [of "reject i ctx reason now db"] call_resolves(3) [of i ctx reason now db] show ?thesis
      unfolding Pair CRejectR review_event_def by (simp only: snd_conv review_call.case review_step.simps) blast
  next
    case (CEscalate i ctx)
    from via [of "escalate i ctx now db"] call_resolves(2) [of i ctx now db] show ?thesis
      unfolding Pair CEscalate review_event_def by (simp only: snd_conv review_call.case review_step.simps) blast
  qed
qed

interpretation review_life: row_lifecycle "review_event config" ids_distinct "\<lambda>db. set (rd_queue db)" row_becomes
  for config
  by unfold_locales (use review_event_life row_becomes_trans in auto)

section \<open>The settlement gate\<close>

lemma foldl_newer_snoc: "foldl newer a (es @ [e]) = newer (foldl newer a es) e"
  by simp

lemma latest_map:
  assumes "\<And>e. re_decisionId (f e) = re_decisionId e" "\<And>e. re_createdAt (f e) = re_createdAt e"
  shows "foldl newer None (filter (\<lambda>e. re_decisionId e = d) (map f es))
    = map_option f (foldl newer None (filter (\<lambda>e. re_decisionId e = d) es))"
  using assms by (induction es rule: rev_induct) (auto simp: newer_def split: option.splits)

lemma latest_in: "foldl newer None es = Some e \<Longrightarrow> e \<in> set es"
  by (induction es arbitrary: e rule: rev_induct) (auto simp: newer_def split: option.splits if_splits)

lemma latest_entry_in: "latest_entry d db = Some e \<Longrightarrow> e \<in> set (rd_queue db) \<and> re_decisionId e = d"
  using latest_in [of "filter (\<lambda>e. re_decisionId e = d) (rd_queue db)" e] by (auto simp: latest_entry_def)

definition settles :: "string \<Rightarrow> review_db \<Rightarrow> bool" where
  "settles d db \<longleftrightarrow> assertSettlementAllowed d db = Inr ()"

lemma settles_iff: "settles d db \<longleftrightarrow> (\<forall>e. latest_entry d db = Some e \<longrightarrow> re_status e = RApproved)"
  by (auto simp: settles_def assertSettlementAllowed_def split: option.splits)

text \<open>Queueing a decision blocks it, if the entry is its newest; an authorised approval of
  an entry of the decision is the only release.\<close>

definition queues :: "string \<Rightarrow> review_db \<Rightarrow> time_ms \<times> review_call \<Rightarrow> bool" where
  "queues d db ev \<longleftrightarrow> (\<exists>now uuid e ts. ev = (now, CEnqueue uuid e ts) \<and> de_decisionId e = d
     \<and> uuid \<notin> re_id ` set (rd_queue db)
     \<and> (\<forall>x \<in> set (rd_queue db). re_decisionId x = d \<longrightarrow> re_createdAt x < now))"

definition approves :: "string \<Rightarrow> review_db \<Rightarrow> time_ms \<times> review_call \<Rightarrow> bool" where
  "approves d db ev \<longleftrightarrow> (\<exists>now i ctx. ev = (now, CApproveR i ctx) \<and> rx_authorized ctx
     \<and> (\<exists>e \<in> set (rd_queue db). re_id e = i \<and> re_decisionId e = d))"

lemma resolve_latest:
  assumes "resolve i st actor reason now db = Inr (r, db')"
  shows "latest_entry d db' = map_option (rewritten i st actor reason now) (latest_entry d db)"
  unfolding latest_entry_def resolve_InrD(1) [OF assms] by (rule latest_map) (simp_all add: rewritten_def)

lemma resolve_blocked:
  assumes "\<not> settles d db" "resolve i st actor reason now db = Inr (r, db')"
    and "st = RApproved \<Longrightarrow> \<not> (\<exists>e \<in> set (rd_queue db). re_id e = i \<and> re_decisionId e = d)"
  shows "\<not> settles d db'"
proof -
  from assms(1) obtain e where e: "latest_entry d db = Some e" "re_status e \<noteq> RApproved"
    by (auto simp: settles_iff)
  then have "e \<in> set (rd_queue db)" "re_decisionId e = d" using latest_entry_in by auto
  then have "re_status (rewritten i st actor reason now e) \<noteq> RApproved"
    using e(2) assms(3) by (auto simp: rewritten_def)
  then show ?thesis using resolve_latest [OF assms(2), of d] e(1) by (auto simp: settles_iff)
qed

lemma escalate_all_blocked: "\<not> settles d db \<Longrightarrow> \<not> settles d (snd (escalate_all is now db))"
proof (induction "is" arbitrary: db)
  case (Cons i js)
  show ?case
  proof (cases "escalate i \<lparr>rx_actor = ''system:sla'', rx_authorized = True\<rparr> now db")
    case (Inr x)
    obtain r db1 where x: "x = (r, db1)" by (cases x)
    then have "resolve i REscalated ''system:sla'' None now db = Inr (r, db1)"
      using Inr by (simp add: escalate_def assertAuthorized_def)
    from resolve_blocked [OF Cons.prems this] have "\<not> settles d db1" by simp
    then show ?thesis using Cons.IH Inr x by simp
  qed (use Cons.prems in simp)
qed simp

lemma enqueue_latest:
  "latest_entry d (snd (enqueueForReview config uuid now e ts db)) =
     (if de_decisionId e = d then newer (latest_entry d db) (fst (enqueueForReview config uuid now e ts db))
      else latest_entry d db)"
  by (simp add: latest_entry_def enqueueForReview_def recordAudit_def Let_def)

interpretation review_gate: fail_safe_gate "review_event config" "settles d" "queues d" "approves d" for config d
proof unfold_locales
  fix db and ev :: "time_ms \<times> review_call"
  show "queues d db ev \<Longrightarrow> \<not> settles d (review_event config ev db)"
  proof -
    assume "queues d db ev"
    then obtain now uuid e ts where ev: "ev = (now, CEnqueue uuid e ts)" "de_decisionId e = d"
      "uuid \<notin> re_id ` set (rd_queue db)" "\<forall>x \<in> set (rd_queue db). re_decisionId x = d \<longrightarrow> re_createdAt x < now"
      by (auto simp: queues_def)
    then have "\<And>x. latest_entry d db = Some x \<Longrightarrow> re_createdAt x < now"
      using latest_entry_in by blast
    then show ?thesis using ev enqueue_latest [of d config uuid now e ts db]
      by (auto simp: review_event_def settles_iff newer_def enqueueForReview_def Let_def split: option.splits)
  qed
  show "\<not> settles d (review_event config ev db)" if blocked: "\<not> settles d db" and no: "\<not> approves d db ev"
  proof (cases ev)
    case (Pair now c)
    have via: "\<not> settles d (applied x db)"
      if "\<And>y. x = Inr y \<Longrightarrow> \<exists>i st a r. resolve i st a r now db = Inr y
        \<and> (st = RApproved \<longrightarrow> \<not> (\<exists>e \<in> set (rd_queue db). re_id e = i \<and> re_decisionId e = d))" for x :: "(review_entry \<times> review_db) result"
      using that resolve_blocked [OF blocked] blocked by (cases x) fastforce+
    show ?thesis
    proof (cases c)
      case (CEnqueue uuid e ts)
      then show ?thesis using Pair blocked enqueue_latest [of d config uuid now e ts db]
        by (auto simp: review_event_def settles_iff newer_def enqueueForReview_def Let_def split: option.splits)
    next
      case CSweep
      then show ?thesis using Pair escalate_all_blocked [OF blocked]
        by (simp add: review_event_def sweepExpired_def Let_def split_beta)
    next
      case (CApproveR i ctx)
      from via [of "approve i ctx now db"] call_resolves(1) [of i ctx now db] no show ?thesis
        unfolding Pair CApproveR review_event_def approves_def
        by (simp only: snd_conv review_call.case review_step.simps) blast
    next
      case (CRejectR i ctx reason)
      from via [of "reject i ctx reason now db"] call_resolves(3) [of i ctx reason now db] show ?thesis
        unfolding Pair CRejectR review_event_def by (simp only: snd_conv review_call.case review_step.simps) blast
    next
      case (CEscalate i ctx)
      from via [of "escalate i ctx now db"] call_resolves(2) [of i ctx now db] show ?thesis
        unfolding Pair CEscalate review_event_def by (simp only: snd_conv review_call.case review_step.simps) blast
    qed
  qed
qed

section \<open>Properties\<close>

text \<open>C16. No queued decision settles without an authorised approval: once a decision has
  been queued (as its newest entry), whatever calls follow, including the sweep of expired
  entries, the settlement gate opens again only after an authorised approval of an entry
  of that decision.\<close>

theorem settlement_needs_approval:
  assumes "de_decisionId e = d" "uuid \<notin> re_id ` set (rd_queue db)"
    and "\<And>x. x \<in> set (rd_queue db) \<Longrightarrow> re_decisionId x = d \<Longrightarrow> re_createdAt x < now"
    and "db1 = review_event config (now, CEnqueue uuid e ts) db"
    and "assertSettlementAllowed d (fold (review_event config) evs db1) = Inr ()"
  shows "\<exists>pre t i ctx post. evs = pre @ (t, CApproveR i ctx) # post \<and> rx_authorized ctx
    \<and> (\<exists>x \<in> set (rd_queue (fold (review_event config) pre db1)). re_id x = i \<and> re_decisionId x = d)"
proof -
  have "queues d db (now, CEnqueue uuid e ts)" unfolding queues_def using assms(1-3) by blast
  moreover have "settles d (fold (review_event config) evs (review_event config (now, CEnqueue uuid e ts) db))"
    using assms(5) unfolding settles_def assms(4) .
  ultimately obtain pre ev post where
    ev: "evs = pre @ ev # post" "approves d (fold (review_event config) pre db1) ev"
    unfolding assms(4) using review_gate.bad_then_release by blast
  then obtain t i ctx where "ev = (t, CApproveR i ctx)" "rx_authorized ctx"
    "\<exists>x \<in> set (rd_queue (fold (review_event config) pre db1)). re_id x = i \<and> re_decisionId x = d"
    unfolding approves_def by blast
  with ev(1) show ?thesis by blast
qed

definition sample_evaluation :: decision_evaluation where
  "sample_evaluation = \<lparr>de_claimId = ''c'', de_decisionId = ''d'', de_value = 20000, de_confidence = 1,
     de_evidenceMature = True, de_postRemediation = False, de_evidence = []\<rparr>"

definition reviewer :: reviewer_context where
  "reviewer = \<lparr>rx_actor = ''ann'', rx_authorized = True\<rparr>"

definition queued_db :: review_db where
  "queued_db = review_event DEFAULT_REVIEW_CONFIG (5, CEnqueue ''u'' sample_evaluation [ValueAboveThreshold])
    \<lparr>rd_queue = [], rd_audit = []\<rparr>"

lemma queued_then_approved:
  "assertSettlementAllowed ''d'' (fold (review_event DEFAULT_REVIEW_CONFIG) [(9, CApproveR ''u'' reviewer)] queued_db) = Inr ()"
  by code_simp

theorem settlement_needs_approval_witness:
  "\<exists>pre t i ctx post. [(9, CApproveR ''u'' reviewer)] = pre @ (t, CApproveR i ctx) # post \<and> rx_authorized ctx
    \<and> (\<exists>x \<in> set (rd_queue (fold (review_event DEFAULT_REVIEW_CONFIG) pre queued_db)). re_id x = i \<and> re_decisionId x = ''d'')"
  by (rule settlement_needs_approval [OF _ _ _ queued_db_def queued_then_approved])
     (simp_all add: sample_evaluation_def)

text \<open>A resolved entry is final under sequential calls: in any run of calls, one at a time,
  an approved or rejected entry stays in the queue exactly as it was.\<close>

theorem resolved_entry_final:
  assumes "distinct (map re_id (rd_queue db))" "x \<in> set (rd_queue db)" "re_status x \<in> {RApproved, RRejected}"
  shows "x \<in> set (rd_queue (fold (review_event config) evs db))"
  using review_life.run_row [of db x config evs] assms by (auto simp: ids_distinct_def row_becomes_def)

definition rejected_entry :: review_entry where
  "rejected_entry = \<lparr>re_id = ''u'', re_claimId = ''c'', re_decisionId = ''d'', re_trigger = None,
     re_status = RRejected, re_evidence = [], re_createdAt = 0, re_deadlineAt = 1, re_resolvedAt = Some 2,
     re_resolvedBy = Some ''ann'', re_rejectionReason = Some ''no''\<rparr>"

text \<open>C40. Resolutions race: the read of one call and the write of another may interleave.
  When a rejection and an approval of the same pending entry both read before either
  writes, both succeed and the rejected decision ends approved, so it settles.\<close>

theorem concurrent_resolution_overwrites:
  assumes "getEntry i db = Some x" "re_status x = RPending" "distinct (map re_id (rd_queue db))"
    and "latest_entry (re_decisionId x) db = Some x"
    and "db1 = resolve_write i RRejected a (Some r) t1 db"
    and "db2 = resolve_write i RApproved b None t2 db1"
  shows "resolve_read i db = Inr x \<and> assertSettlementAllowed (re_decisionId x) db1 \<noteq> Inr ()
    \<and> assertSettlementAllowed (re_decisionId x) db2 = Inr ()"
proof -
  have id: "re_id x = i" using assms(1) by (auto simp: getEntry_def find_Some_iff)
  have q1: "rd_queue db1 = map (rewritten i RRejected a (Some r) t1) (rd_queue db)"
    by (simp add: assms(5) resolve_write_def recordAudit_def rewritten_def [abs_def])
  have q2: "rd_queue db2 = map (rewritten i RApproved b None t2) (rd_queue db1)"
    by (simp add: assms(6) resolve_write_def recordAudit_def rewritten_def [abs_def])
  have l1: "latest_entry (re_decisionId x) db1 = Some (rewritten i RRejected a (Some r) t1 x)"
    using assms(4) unfolding latest_entry_def q1 by (subst latest_map) (simp_all add: rewritten_def)
  have l2: "latest_entry (re_decisionId x) db2
      = Some (rewritten i RApproved b None t2 (rewritten i RRejected a (Some r) t1 x))"
    using l1 unfolding latest_entry_def q2 by (subst latest_map) (simp_all add: rewritten_def)
  show ?thesis using l1 l2 id assms(1,2) by (simp add: assertSettlementAllowed_def rewritten_def resolve_read_def)
qed

theorem concurrent_resolution_overwrites_witness:
  "assertSettlementAllowed ''d'' (resolve_write ''u'' RApproved ''bob'' None 6
     (resolve_write ''u'' RRejected ''ann'' (Some ''no'') 5
       \<lparr>rd_queue = [rejected_entry\<lparr>re_status := RPending\<rparr>], rd_audit = []\<rparr>)) = Inr ()"
  using concurrent_resolution_overwrites [of "''u''"
      "\<lparr>rd_queue = [rejected_entry\<lparr>re_status := RPending\<rparr>], rd_audit = []\<rparr>" "rejected_entry\<lparr>re_status := RPending\<rparr>"]
  by (simp add: getEntry_def rejected_entry_def latest_entry_def newer_def resolve_read_def)

end
