(* ===== verification/Consensus.thy ===== *)
theory Consensus
  imports Refract_Prelude "HOL-Library.Char_ord" "HOL-Library.List_Lexorder"
begin

text \<open>
  Multi-source consensus over one round of observations (\<open>oracle/consensus/consensus.ts\<close>):
  screening, the median, the deviation tolerance, the weighted quorum and the decision with
  its identifier. The fields of an observation and of a policy are \<^typ>\<open>js_number\<close>, because
  the code screens them for \<open>NaN\<close> and infinities; the finite ones are exact rationals, so
  the sum of two finite values is finite and the branch of \<open>median\<close> that halves before
  adding is not reached. SHA-256 (\<open>H\<close>) and the printing of a double by \<open>String\<close> (\<open>S\<close>) are
  arguments.
\<close>

record source_observation =
  sourceId :: string
  ob_value :: js_number
  ob_weight :: js_number
  observedAt :: js_number

record consensus_policy =
  quorumRatio :: js_number
  minAgreeingSources :: js_number
  maxDeviationRatio :: js_number
  absoluteDeviationFloor :: js_number
  maxStalenessMs :: js_number
  maxFutureSkewMs :: js_number

definition DEFAULT_CONSENSUS_POLICY :: consensus_policy where
  "DEFAULT_CONSENSUS_POLICY =
     \<lparr>quorumRatio = Num (2 / 3), minAgreeingSources = Num 2, maxDeviationRatio = Num (2 / 100),
      absoluteDeviationFloor = Num 0, maxStalenessMs = Num (5 * 60000), maxFutureSkewMs = Num 30000\<rparr>"

datatype trust_tier = Unverified | SingleSource | Corroborated | Unanimous

text \<open>The numbers of the tiers in the on-chain encoding.\<close>

fun tier_number :: "trust_tier \<Rightarrow> nat" where
  "tier_number Unverified = 0"
| "tier_number SingleSource = 1"
| "tier_number Corroborated = 2"
| "tier_number Unanimous = 3"

datatype consensus_status = Agreed | NoValidSources | InsufficientSources | NoQuorum

fun status_name :: "consensus_status \<Rightarrow> string" where
  "status_name Agreed = ''agreed''"
| "status_name NoValidSources = ''no_valid_sources''"
| "status_name InsufficientSources = ''insufficient_sources''"
| "status_name NoQuorum = ''no_quorum''"

record consensus_decision =
  status :: consensus_status
  cd_value :: "rat option"
  trustTier :: trust_tier
  decisionId :: string
  center :: "rat option"
  agreeingSources :: "string list"
  outlierSources :: "string list"
  staleSources :: "string list"
  invalidSources :: "string list"
  agreeingWeight :: rat
  totalWeight :: rat
  sourceTimestamp :: "rat option"
  evaluatedAt :: rat

section \<open>Median, tolerance and quorum\<close>

definition median :: "js_number list \<Rightarrow> rat result" where
  "median values =
     (if values = [] then Inl (RangeErr ''median() of an empty list'')
      else if \<not> list_all isFinite values then Inl (RangeErr ''median() requires finite numbers'')
      else let sorted = sort (map num_of values); mid = length sorted div 2
           in if length sorted mod 2 = 1 then Inr (sorted ! mid)
              else let lo = sorted ! (mid - 1); hi = sorted ! mid in Inr ((lo + hi) / 2))"

definition deviationTolerance :: "rat \<Rightarrow> consensus_policy \<Rightarrow> rat" where
  "deviationTolerance c policy =
     max (num_of (maxDeviationRatio policy) * \<bar>c\<bar>) (num_of (absoluteDeviationFloor policy))"

definition isAnomalous :: "rat \<Rightarrow> rat \<Rightarrow> consensus_policy \<Rightarrow> bool" where
  "isAnomalous v c policy \<longleftrightarrow> \<bar>v - c\<bar> > deviationTolerance c policy"

definition meetsQuorum :: "rat \<Rightarrow> rat \<Rightarrow> rat \<Rightarrow> bool" where
  "meetsQuorum agreeing total_w ratio =
     (if \<not> (total_w > 0) \<or> \<not> (agreeing \<ge> 0) then False else agreeing / total_w \<ge> ratio)"

definition finite_nonneg :: "js_number \<Rightarrow> bool" where
  "finite_nonneg x \<longleftrightarrow> isFinite x \<and> js_le (Num 0) x"

definition policy_problems :: "consensus_policy \<Rightarrow> string list" where
  "policy_problems policy =
     (if \<not> (js_less (Num 0) (quorumRatio policy) \<and> js_le (quorumRatio policy) (Num 1))
      then [''quorumRatio must be in (0, 1]''] else [])
   @ (if \<not> isInteger (minAgreeingSources policy) \<or> js_less (minAgreeingSources policy) (Num 1)
      then [''minAgreeingSources must be an integer >= 1''] else [])
   @ concat (map (\<lambda>(key, x). if \<not> finite_nonneg x then [key @ '' must be finite and >= 0''] else [])
       [(''maxDeviationRatio'', maxDeviationRatio policy),
        (''absoluteDeviationFloor'', absoluteDeviationFloor policy),
        (''maxStalenessMs'', maxStalenessMs policy),
        (''maxFutureSkewMs'', maxFutureSkewMs policy)])"

definition validateConsensusPolicy :: "consensus_policy \<Rightarrow> unit result" where
  "validateConsensusPolicy policy =
     (if policy_problems policy \<noteq> []
      then Inl (RangeErr (''Invalid consensus policy: '' @ join ''; '' (policy_problems policy)))
      else Inr ())"

definition isUsableWeight :: "js_number \<Rightarrow> bool" where
  "isUsableWeight w = finite_nonneg w"

section \<open>Screening\<close>

type_synonym source_group = "string \<times> source_observation list"

definition bySource :: "source_observation list \<Rightarrow> source_group list" where
  "bySource observations =
     fold (\<lambda>obs m. js_set (sourceId obs)
             (case map_of m (sourceId obs) of Some copies \<Rightarrow> copies @ [obs] | None \<Rightarrow> [obs]) m)
          observations []"

definition group_weight :: "source_observation list \<Rightarrow> rat" where
  "group_weight copies =
     (let usableWeights = filter isUsableWeight (map ob_weight copies)
      in if length usableWeights > 0 then Max (num_of ` set usableWeights) else 0)"

definition wellFormed :: "consensus_policy \<Rightarrow> rat \<Rightarrow> source_observation \<Rightarrow> bool" where
  "wellFormed policy now obs \<longleftrightarrow>
     length (sourceId obs) > 0 \<and> isFinite (ob_value obs) \<and> isUsableWeight (ob_weight obs)
   \<and> isFinite (observedAt obs) \<and> num_of (observedAt obs) \<le> now + num_of (maxFutureSkewMs policy)"

record screening =
  sc_invalid :: "string list"
  sc_stale :: "string list"
  sc_fresh :: "source_observation list"
  sc_totalWeight :: rat

fun screen_group :: "consensus_policy \<Rightarrow> rat \<Rightarrow> source_group \<Rightarrow> screening \<Rightarrow> screening" where
  "screen_group policy now (i, copies) sc =
     (let sc = sc\<lparr>sc_totalWeight := sc_totalWeight sc + group_weight copies\<rparr> in
      case copies of
        [obs] \<Rightarrow>
          if \<not> wellFormed policy now obs then sc\<lparr>sc_invalid := sc_invalid sc @ [i]\<rparr>
          else if now - num_of (observedAt obs) > num_of (maxStalenessMs policy)
               then sc\<lparr>sc_stale := sc_stale sc @ [i]\<rparr>
               else sc\<lparr>sc_fresh := sc_fresh sc @ [obs]\<rparr>
      | _ \<Rightarrow> sc\<lparr>sc_invalid := sc_invalid sc @ [i]\<rparr>)"

definition screen :: "consensus_policy \<Rightarrow> rat \<Rightarrow> source_observation list \<Rightarrow> screening" where
  "screen policy now observations =
     fold (screen_group policy now) (bySource observations)
       \<lparr>sc_invalid = [], sc_stale = [], sc_fresh = [], sc_totalWeight = 0\<rparr>"

section \<open>The decision and its identifier\<close>

text \<open>\<open>JSON.stringify\<close> of a string, of a list of strings and of the canonical object.\<close>

definition hex_digit :: "nat \<Rightarrow> char" where
  "hex_digit n = (if n < 10 then char_of (48 + n) else char_of (87 + n))"

definition json_char :: "char \<Rightarrow> string" where
  "json_char c =
     (let n = (of_char c :: nat); bs = CHR 0x5C in
      if n = 34 \<or> n = 92 then [bs, c]
      else if n = 8 then [bs, CHR ''b''] else if n = 9 then [bs, CHR ''t'']
      else if n = 10 then [bs, CHR ''n''] else if n = 12 then [bs, CHR ''f'']
      else if n = 13 then [bs, CHR ''r'']
      else if n < 32 then [bs, CHR ''u'', CHR ''0'', CHR ''0'', hex_digit (n div 16), hex_digit (n mod 16)]
      else [c])"

definition json_string :: "string \<Rightarrow> string" where
  "json_string s = [CHR 0x22] @ concat (map json_char s) @ [CHR 0x22]"

definition json_strings :: "string list \<Rightarrow> string" where
  "json_strings xs = ''['' @ join '','' (map json_string xs) @ '']''"

definition json_field :: "string \<Rightarrow> string \<Rightarrow> string" where
  "json_field k v = json_string k @ '':'' @ v"

definition computeDecisionId ::
  "(string \<Rightarrow> string) \<Rightarrow> (js_number \<Rightarrow> string) \<Rightarrow> source_observation list \<Rightarrow> consensus_policy
     \<Rightarrow> consensus_decision \<Rightarrow> string" where
  "computeDecisionId H S observations policy decision =
     (let rows = sort (map (\<lambda>ob. join ''|'' [sourceId ob, S (ob_value ob), S (ob_weight ob), S (observedAt ob)])
                           observations);
          canonical = ''{'' @ join '',''
            [json_field ''v'' ''1'', json_field ''rows'' (json_strings rows),
             json_field ''policy'' (json_strings (map S
               [quorumRatio policy, minAgreeingSources policy, maxDeviationRatio policy,
                absoluteDeviationFloor policy, maxStalenessMs policy, maxFutureSkewMs policy])),
             json_field ''status'' (json_string (status_name (status decision))),
             json_field ''value'' (json_string (case cd_value decision of None \<Rightarrow> ''null'' | Some v \<Rightarrow> S (Num v))),
             json_field ''at'' (json_string (S (Num (evaluatedAt decision))))] @ ''}''
      in take 16 (H canonical))"

definition finalize ::
  "(string \<Rightarrow> string) \<Rightarrow> (js_number \<Rightarrow> string) \<Rightarrow> source_observation list \<Rightarrow> consensus_policy
     \<Rightarrow> consensus_decision \<Rightarrow> consensus_decision" where
  "finalize H S observations policy decision =
     decision\<lparr>decisionId := computeDecisionId H S observations policy decision\<rparr>"

definition tier_of :: "nat \<Rightarrow> nat \<Rightarrow> nat \<Rightarrow> nat \<Rightarrow> trust_tier" where
  "tier_of agreeing outliers stale invalid =
     (if agreeing = 1 then SingleSource
      else if agreeing \<ge> 3 \<and> outliers = 0 \<and> stale = 0 \<and> invalid = 0 then Unanimous
      else Corroborated)"

definition decide_fresh :: "consensus_policy \<Rightarrow> screening \<Rightarrow> consensus_decision \<Rightarrow> consensus_decision result" where
  "decide_fresh policy sc base =
     then_result (median (map ob_value (sc_fresh sc))) (\<lambda>c.
       let agreeing = filter (\<lambda>ob. \<not> isAnomalous (num_of (ob_value ob)) c policy) (sc_fresh sc);
           outliers = filter (\<lambda>ob. isAnomalous (num_of (ob_value ob)) c policy) (sc_fresh sc);
           aw = sum_list (map (num_of \<circ> ob_weight) agreeing);
           common = base\<lparr>center := Some c, agreeingSources := sort (map sourceId agreeing),
                         outlierSources := sort (map sourceId outliers), agreeingWeight := aw\<rparr>
       in if rat_of_nat (length agreeing) < num_of (minAgreeingSources policy)
          then Inr (common\<lparr>status := InsufficientSources\<rparr>)
          else if \<not> meetsQuorum aw (sc_totalWeight sc) (num_of (quorumRatio policy))
          then Inr (common\<lparr>status := NoQuorum\<rparr>)
          else then_result (median (map ob_value agreeing)) (\<lambda>v.
            Inr (common\<lparr>status := Agreed, cd_value := Some v,
                        trustTier := tier_of (length agreeing) (length outliers)
                                       (length (sc_stale sc)) (length (sc_invalid sc)),
                        sourceTimestamp := Some (Min (num_of ` observedAt ` set agreeing))\<rparr>)))"

definition evaluateConsensus ::
  "(string \<Rightarrow> string) \<Rightarrow> (js_number \<Rightarrow> string) \<Rightarrow> source_observation list \<Rightarrow> consensus_policy
     \<Rightarrow> js_number \<Rightarrow> consensus_decision result" where
  "evaluateConsensus H S observations policy now =
     then_result (validateConsensusPolicy policy) (\<lambda>_.
       if \<not> isFinite now then Inl (RangeErr ''evaluateConsensus() requires a finite now'')
       else let t = num_of now; sc = screen policy t observations;
                base = \<lparr>status = NoValidSources, cd_value = None, trustTier = Unverified, decisionId = [],
                        center = None, agreeingSources = [], outlierSources = [],
                        staleSources = sort (sc_stale sc), invalidSources = sort (sc_invalid sc),
                        agreeingWeight = 0, totalWeight = sc_totalWeight sc,
                        sourceTimestamp = None, evaluatedAt = t\<rparr>
            in then_result (if sc_fresh sc = [] then Inr base else decide_fresh policy sc base)
                 (\<lambda>d. Inr (finalize H S observations policy d)))"

section \<open>Grouping and screening, characterised\<close>

definition copies_of :: "source_observation list \<Rightarrow> string \<Rightarrow> source_observation list" where
  "copies_of obs i = filter (\<lambda>ob. sourceId ob = i) obs"

lemma bySource_snoc:
  "bySource (obs @ [ob]) = js_set (sourceId ob)
     (case map_of (bySource obs) (sourceId ob) of Some copies \<Rightarrow> copies @ [ob] | None \<Rightarrow> [ob]) (bySource obs)"
  by (simp add: bySource_def)

lemma bySource_keys: "distinct (map fst (bySource obs)) \<and> set (map fst (bySource obs)) = sourceId ` set obs"
proof (induction obs rule: rev_induct)
  case Nil
  then show ?case by (simp add: bySource_def)
next
  case (snoc ob obs)
  then show ?case by (simp only: bySource_snoc keys_js_set distinct_js_set) auto
qed

lemma map_of_bySource:
  "map_of (bySource obs) i = (if copies_of obs i = [] then None else Some (copies_of obs i))"
proof (induction obs rule: rev_induct)
  case Nil
  then show ?case by (simp add: bySource_def copies_of_def)
next
  case (snoc ob obs)
  have "map_of (bySource obs) (sourceId ob)
      = (if copies_of obs (sourceId ob) = [] then None else Some (copies_of obs (sourceId ob)))"
    if "i = sourceId ob" using snoc that by simp
  with snoc show ?case by (cases "i = sourceId ob") (auto simp: bySource_snoc copies_of_def)
qed

lemma bySource_eq: "bySource obs = map (\<lambda>i. (i, copies_of obs i)) (map fst (bySource obs))"
proof -
  have "g = (fst g, copies_of obs (fst g))" if "g \<in> set (bySource obs)" for g
  proof -
    from that bySource_keys [of obs] have "map_of (bySource obs) (fst g) = Some (snd g)"
      by (metis map_of_eq_Some_iff prod.collapse)
    then show ?thesis by (auto simp: map_of_bySource split: if_splits)
  qed
  then have "map (\<lambda>g. (fst g, copies_of obs (fst g))) (bySource obs) = bySource obs"
    by (intro map_idI) metis
  then show ?thesis by (simp only: list.map_comp comp_def)
qed

text \<open>Anything read from the groups through a function that ignores the order of the copies
  depends only on the multiset of observations.\<close>

lemma copies_of_mset: "mset obs = mset obs' \<Longrightarrow> mset (copies_of obs i) = mset (copies_of obs' i)"
  by (simp add: copies_of_def)

lemma bySource_map_mset:
  assumes "mset obs = mset obs'" "\<And>i c c'. mset c = mset c' \<Longrightarrow> f (i, c) = f (i, c')"
  shows "mset (map f (bySource obs)) = mset (map f (bySource obs'))"
proof -
  let ?k = "map fst (bySource obs)" and ?k' = "map fst (bySource obs')"
  have "set obs = set obs'" using assms(1) by (metis set_mset_mset)
  then have "set ?k = set ?k'" using bySource_keys [of obs] bySource_keys [of obs'] by (simp del: set_map)
  then have "mset ?k = mset ?k'"
    using bySource_keys [of obs] bySource_keys [of obs'] set_eq_iff_mset_eq_distinct by blast
  then have "image_mset g (mset ?k) = image_mset g (mset ?k')" for g :: "string \<Rightarrow> 'a" by (rule arg_cong)
  then have "mset (map (\<lambda>i. f (i, copies_of obs i)) ?k) = mset (map (\<lambda>i. f (i, copies_of obs i)) ?k')"
    by (simp only: mset_map)
  also have "map (\<lambda>i. f (i, copies_of obs i)) ?k' = map (\<lambda>i. f (i, copies_of obs' i)) ?k'"
    using assms(2) [OF copies_of_mset [OF assms(1)]] by simp
  finally have "mset (map (\<lambda>i. f (i, copies_of obs i)) ?k) = mset (map (\<lambda>i. f (i, copies_of obs' i)) ?k')" .
  moreover have e: "map f (bySource xs) = map (\<lambda>i. f (i, copies_of xs i)) (map fst (bySource xs))" for xs
    by (subst bySource_eq) (simp add: comp_def)
  ultimately show ?thesis by (subst e [of obs], subst e [of obs'])
qed

definition invalid_of :: "consensus_policy \<Rightarrow> rat \<Rightarrow> source_group \<Rightarrow> string list" where
  "invalid_of policy now g =
     (case snd g of [ob] \<Rightarrow> if wellFormed policy now ob then [] else [fst g] | _ \<Rightarrow> [fst g])"

definition is_stale :: "consensus_policy \<Rightarrow> rat \<Rightarrow> source_observation \<Rightarrow> bool" where
  "is_stale policy now ob \<longleftrightarrow> now - num_of (observedAt ob) > num_of (maxStalenessMs policy)"

definition stale_of :: "consensus_policy \<Rightarrow> rat \<Rightarrow> source_group \<Rightarrow> string list" where
  "stale_of policy now g =
     (case snd g of [ob] \<Rightarrow> if wellFormed policy now ob \<and> is_stale policy now ob then [fst g] else [] | _ \<Rightarrow> [])"

definition fresh_of :: "consensus_policy \<Rightarrow> rat \<Rightarrow> source_group \<Rightarrow> source_observation list" where
  "fresh_of policy now g =
     (case snd g of [ob] \<Rightarrow> if wellFormed policy now ob \<and> \<not> is_stale policy now ob then [ob] else [] | _ \<Rightarrow> [])"

lemmas group_defs = invalid_of_def stale_of_def fresh_of_def is_stale_def

lemma screen_group_eq:
  "screen_group policy now g sc =
     \<lparr>sc_invalid = sc_invalid sc @ invalid_of policy now g, sc_stale = sc_stale sc @ stale_of policy now g,
      sc_fresh = sc_fresh sc @ fresh_of policy now g, sc_totalWeight = sc_totalWeight sc + group_weight (snd g)\<rparr>"
proof -
  obtain i c where g: "g = (i, c)" by (cases g)
  consider "c = []" | ob where "c = [ob]" | a b r where "c = a # b # r"
    by (cases c; cases "tl c") auto
  then show ?thesis
    by cases (simp_all add: g group_defs Let_def)
qed

lemma fold_screen_group:
  "fold (screen_group policy now) gs sc =
     \<lparr>sc_invalid = sc_invalid sc @ concat (map (invalid_of policy now) gs),
      sc_stale = sc_stale sc @ concat (map (stale_of policy now) gs),
      sc_fresh = sc_fresh sc @ concat (map (fresh_of policy now) gs),
      sc_totalWeight = sc_totalWeight sc + sum_list (map (group_weight \<circ> snd) gs)\<rparr>"
  by (induction gs arbitrary: sc) (simp_all add: screen_group_eq add.assoc)

lemma screen_eq [spec_simps]:
  "screen policy now obs =
     \<lparr>sc_invalid = concat (map (invalid_of policy now) (bySource obs)),
      sc_stale = concat (map (stale_of policy now) (bySource obs)),
      sc_fresh = concat (map (fresh_of policy now) (bySource obs)),
      sc_totalWeight = sum_list (map (group_weight \<circ> snd) (bySource obs))\<rparr>"
  by (simp add: screen_def fold_screen_group)

lemma mset_concat_map: "mset (map f xs) = mset (map f ys) \<Longrightarrow> mset (concat (map f xs)) = mset (concat (map f ys))"
proof -
  assume a: "mset (map f xs) = mset (map f ys)"
  have e: "mset (concat zs) = \<Sum>\<^sub># (image_mset mset (mset zs))" for zs
    by (induction zs) auto
  show ?thesis unfolding e by (simp only: a)
qed

lemma group_case_mset:
  assumes "mset c = mset c'"
  shows "(case c of [ob] \<Rightarrow> f ob | _ \<Rightarrow> d) = (case c' of [ob] \<Rightarrow> f ob | _ \<Rightarrow> d)"
proof (cases "length c = 1")
  case True
  then obtain ob where "c = [ob]" by (cases c) auto
  with assms have "c' = [ob]" by simp
  with \<open>c = [ob]\<close> show ?thesis by simp
next
  case False
  moreover from assms have "length c' = length c" by (metis size_mset)
  ultimately show ?thesis by (auto split: list.splits)
qed

lemma screen_mset:
  fixes policy now
  assumes "mset obs = mset obs'"
  defines "sc \<equiv> screen policy now obs" and "sc' \<equiv> screen policy now obs'"
  shows "mset (sc_invalid sc) = mset (sc_invalid sc')" "mset (sc_stale sc) = mset (sc_stale sc')"
    "mset (sc_fresh sc) = mset (sc_fresh sc')" "sc_totalWeight sc = sc_totalWeight sc'"
proof -
  have w: "group_weight c = group_weight c'" if "mset c = mset c'" for c c'
  proof -
    have m: "mset (filter isUsableWeight (map ob_weight c)) = mset (filter isUsableWeight (map ob_weight c'))"
      using that by (simp only: mset_filter mset_map)
    show ?thesis unfolding group_weight_def Let_def
      by (simp only: mset_eq_setD [OF m] mset_eq_length [OF m])
  qed
  note m = bySource_map_mset [OF assms(1)]
  show "mset (sc_invalid sc) = mset (sc_invalid sc')" unfolding sc_def sc'_def screen_eq screening.simps
    by (intro mset_concat_map m) (unfold invalid_of_def fst_conv snd_conv, rule group_case_mset)
  show "mset (sc_stale sc) = mset (sc_stale sc')" unfolding sc_def sc'_def screen_eq screening.simps
    by (intro mset_concat_map m) (unfold stale_of_def fst_conv snd_conv, rule group_case_mset)
  show "mset (sc_fresh sc) = mset (sc_fresh sc')" unfolding sc_def sc'_def screen_eq screening.simps
    by (intro mset_concat_map m) (unfold fresh_of_def fst_conv snd_conv, rule group_case_mset)
  have "mset (map (group_weight \<circ> snd) (bySource obs)) = mset (map (group_weight \<circ> snd) (bySource obs'))"
    by (rule m) (auto intro: w)
  from arg_cong [OF this, of sum_mset]
  show "sc_totalWeight sc = sc_totalWeight sc'" unfolding sc_def sc'_def screen_eq screening.simps
    by (simp only: sum_mset_sum_list)
qed

section \<open>The result does not depend on the order of the reports\<close>

lemma median_eq:
  assumes "vs \<noteq> []" "list_all isFinite vs"
  shows "median vs = Inr (mid_of (map num_of vs))"
  using assms by (simp add: median_def mid_of_def Let_def)

lemma median_mset:
  assumes "mset vs = mset ws"
  shows "median vs = median ws"
proof -
  have "list_all isFinite vs = list_all isFinite ws" by (simp add: list_all_iff mset_eq_setD [OF assms])
  moreover have "vs = [] \<longleftrightarrow> ws = []" using mset_eq_length [OF assms] by auto
  moreover have "sort (map num_of vs) = sort (map num_of ws)"
    using assms by (intro sort_mset_eq) (simp only: mset_map)
  ultimately show ?thesis by (simp add: median_def)
qed

lemma decide_fresh_mset:
  assumes "mset (sc_fresh sc) = mset (sc_fresh sc')" "sc_totalWeight sc = sc_totalWeight sc'"
    and "length (sc_stale sc) = length (sc_stale sc')" "length (sc_invalid sc) = length (sc_invalid sc')"
  shows "decide_fresh policy sc base = decide_fresh policy sc' base"
proof -
  have f: "mset (filter P (sc_fresh sc)) = mset (filter P (sc_fresh sc'))" for P
    using assms(1) by simp
  have m: "mset (map g (filter P (sc_fresh sc))) = mset (map g (filter P (sc_fresh sc')))" for g :: "source_observation \<Rightarrow> 'x" and P
    using f by (simp only: mset_map)
  have l: "length (filter P (sc_fresh sc)) = length (filter P (sc_fresh sc'))"
    and s: "set (filter P (sc_fresh sc)) = set (filter P (sc_fresh sc'))" for P
    using mset_eq_length [OF f] mset_eq_setD [OF f] by blast+
  have str: "sort (map sourceId (filter P (sc_fresh sc))) = sort (map sourceId (filter P (sc_fresh sc')))" for P
    by (rule sort_mset_eq, rule m)
  have sum: "sum_list (map (num_of \<circ> ob_weight) (filter P (sc_fresh sc)))
      = sum_list (map (num_of \<circ> ob_weight) (filter P (sc_fresh sc')))" for P
    using arg_cong [OF m [of "num_of \<circ> ob_weight" P], of sum_mset] by (simp only: sum_mset_sum_list)
  have med: "median (map ob_value (filter P (sc_fresh sc))) = median (map ob_value (filter P (sc_fresh sc')))" for P
    by (rule median_mset, rule m)
  have "median (map ob_value (sc_fresh sc)) = median (map ob_value (sc_fresh sc'))"
    using assms(1) by (intro median_mset) (simp only: mset_map)
  then show ?thesis
    unfolding decide_fresh_def Let_def assms(2-4) l s str sum med by (rule arg_cong)
qed

lemma computeDecisionId_mset:
  assumes "mset obs = mset obs'"
  shows "computeDecisionId H S obs policy d = computeDecisionId H S obs' policy d"
proof -
  have "sort (map f obs) = sort (map f obs')" for f :: "source_observation \<Rightarrow> string"
    using assms by (intro sort_mset_eq) (simp only: mset_map)
  then show ?thesis unfolding computeDecisionId_def by simp
qed


section \<open>What an agreed decision rests on\<close>

definition is_fresh :: "consensus_policy \<Rightarrow> rat \<Rightarrow> source_observation \<Rightarrow> bool" where
  "is_fresh policy now ob \<longleftrightarrow> wellFormed policy now ob \<and> now - num_of (observedAt ob) \<le> num_of (maxStalenessMs policy)"

lemma copies_of_nonempty: "g \<in> set (bySource obs) \<Longrightarrow> snd g = copies_of obs (fst g) \<and> snd g \<noteq> []"
proof -
  assume g: "g \<in> set (bySource obs)"
  with bySource_keys [of obs] have "map_of (bySource obs) (fst g) = Some (snd g)"
    by (metis map_of_eq_Some_iff prod.collapse)
  then show ?thesis by (auto simp: map_of_bySource split: if_splits)
qed

lemma fresh_mem:
  "ob \<in> set (sc_fresh (screen policy now obs)) \<longleftrightarrow>
     copies_of obs (sourceId ob) = [ob] \<and> is_fresh policy now ob"
proof
  assume "ob \<in> set (sc_fresh (screen policy now obs))"
  then obtain g where g: "g \<in> set (bySource obs)" "ob \<in> set (fresh_of policy now g)"
    by (auto simp: screen_eq)
  have f: "snd g = [ob] \<and> is_fresh policy now ob"
  proof (cases "snd g")
    case (Cons x xs)
    with g(2) show ?thesis
      by (cases xs) (simp_all add: fresh_of_def is_fresh_def is_stale_def split: if_splits)
  qed (use g(2) in \<open>simp add: fresh_of_def\<close>)
  with copies_of_nonempty [OF g(1)] have c: "copies_of obs (fst g) = [ob]" by metis
  then have "ob \<in> set (copies_of obs (fst g))" by simp
  then have "sourceId ob = fst g" by (simp add: copies_of_def)
  then show "copies_of obs (sourceId ob) = [ob] \<and> is_fresh policy now ob" using c f by simp
next
  assume a: "copies_of obs (sourceId ob) = [ob] \<and> is_fresh policy now ob"
  then have "map_of (bySource obs) (sourceId ob) = Some [ob]" by (simp add: map_of_bySource)
  then have "(sourceId ob, [ob]) \<in> set (bySource obs)" by (rule map_of_SomeD)
  moreover have "ob \<in> set (fresh_of policy now (sourceId ob, [ob]))"
    using a by (simp add: fresh_of_def is_fresh_def is_stale_def)
  ultimately show "ob \<in> set (sc_fresh (screen policy now obs))" by (auto simp: screen_eq)
qed

lemma fresh_finite: "list_all isFinite (map ob_value (sc_fresh (screen policy now obs)))"
  by (auto simp: list_all_iff fresh_mem is_fresh_def wellFormed_def)

lemma fresh_weights: "ob \<in> set (sc_fresh (screen policy now obs)) \<Longrightarrow> 0 \<le> num_of (ob_weight ob)"
  by (cases "ob_weight ob") (auto simp: fresh_mem is_fresh_def wellFormed_def isUsableWeight_def finite_nonneg_def)

definition fresh_center :: "screening \<Rightarrow> rat" where
  "fresh_center sc = mid_of (map (num_of \<circ> ob_value) (sc_fresh sc))"

definition inside :: "consensus_policy \<Rightarrow> screening \<Rightarrow> source_observation list" where
  "inside policy sc = filter (\<lambda>ob. \<not> isAnomalous (num_of (ob_value ob)) (fresh_center sc) policy) (sc_fresh sc)"

definition outside :: "consensus_policy \<Rightarrow> screening \<Rightarrow> source_observation list" where
  "outside policy sc = filter (\<lambda>ob. isAnomalous (num_of (ob_value ob)) (fresh_center sc) policy) (sc_fresh sc)"

definition weight_within :: "consensus_policy \<Rightarrow> screening \<Rightarrow> rat" where
  "weight_within policy sc = sum_list (map (num_of \<circ> ob_weight) (inside policy sc))"

text \<open>The same decision without the exceptions, which a valid policy rules out.\<close>

lemma policy_min:
  assumes "policy_problems policy = []"
  shows "1 \<le> num_of (minAgreeingSources policy)"
  using assms by (cases "minAgreeingSources policy") (auto simp: policy_problems_def split: if_splits)

lemma decide_fresh_eq:
  assumes "policy_problems policy = []"
    and "sc = screen policy now obs" "sc_fresh sc \<noteq> []"
  shows "decide_fresh policy sc base =
    (let common = base\<lparr>center := Some (fresh_center sc), agreeingSources := sort (map sourceId (inside policy sc)),
            outlierSources := sort (map sourceId (outside policy sc)), agreeingWeight := weight_within policy sc\<rparr>
     in Inr (if rat_of_nat (length (inside policy sc)) < num_of (minAgreeingSources policy)
             then common\<lparr>status := InsufficientSources\<rparr>
             else if \<not> meetsQuorum (weight_within policy sc) (sc_totalWeight sc) (num_of (quorumRatio policy))
             then common\<lparr>status := NoQuorum\<rparr>
             else common\<lparr>status := Agreed, cd_value := Some (mid_of (map (num_of \<circ> ob_value) (inside policy sc))),
                    trustTier := tier_of (length (inside policy sc)) (length (outside policy sc))
                                   (length (sc_stale sc)) (length (sc_invalid sc)),
                    sourceTimestamp := Some (Min (num_of ` observedAt ` set (inside policy sc)))\<rparr>))"
proof -
  have c: "median (map ob_value (sc_fresh sc)) = Inr (fresh_center sc)"
    using assms(3) fresh_finite [of policy now obs] by (simp add: median_eq assms(2) fresh_center_def)
  have v: "median (map ob_value (inside policy sc)) = Inr (mid_of (map (num_of \<circ> ob_value) (inside policy sc)))"
    if "\<not> rat_of_nat (length (inside policy sc)) < num_of (minAgreeingSources policy)"
  proof -
    have "inside policy sc \<noteq> []" using that policy_min [OF assms(1)] by auto
    moreover have "list_all isFinite (map ob_value (inside policy sc))"
      using fresh_finite [of policy now obs] by (auto simp: assms(2) inside_def list_all_iff)
    ultimately show ?thesis by (simp add: median_eq)
  qed
  show ?thesis
    using v by (simp add: decide_fresh_def c Let_def inside_def [symmetric] outside_def [symmetric]
      weight_within_def [symmetric])
qed

lemma evaluateConsensus_cases:
  assumes "evaluateConsensus H S obs policy now = Inr d"
  obtains sc base d' where "policy_problems policy = []" "isFinite now" "sc = screen policy (num_of now) obs"
    and "base = \<lparr>status = NoValidSources, cd_value = None, trustTier = Unverified, decisionId = [],
                 center = None, agreeingSources = [], outlierSources = [],
                 staleSources = sort (sc_stale sc), invalidSources = sort (sc_invalid sc),
                 agreeingWeight = 0, totalWeight = sc_totalWeight sc, sourceTimestamp = None, evaluatedAt = num_of now\<rparr>"
    and "(if sc_fresh sc = [] then Inr base else decide_fresh policy sc base) = Inr d'"
    and "d = finalize H S obs policy d'"
  using assms
  by (auto simp: evaluateConsensus_def validateConsensusPolicy_def Let_def elim!: then_result_InrE split: if_splits)

lemma group_partition:
  assumes "g \<in> set (bySource obs)"
  shows "mset (map sourceId (fresh_of policy now g)) + mset (stale_of policy now g) + mset (invalid_of policy now g)
       = {#fst g#}"
proof (cases "\<exists>ob. snd g = [ob]")
  case True
  then obtain ob where ob: "snd g = [ob]" by blast
  with copies_of_nonempty [OF assms] have "ob \<in> set (copies_of obs (fst g))" by (metis list.set_intros(1))
  then have "sourceId ob = fst g" by (simp add: copies_of_def)
  with ob show ?thesis by (simp add: fresh_of_def stale_of_def invalid_of_def)
next
  case False
  then show ?thesis
    by (cases "snd g"; cases "tl (snd g)") (auto simp: fresh_of_def stale_of_def invalid_of_def)
qed

lemma screen_partition:
  "mset (map sourceId (sc_fresh (screen policy now obs))) + mset (sc_stale (screen policy now obs))
     + mset (sc_invalid (screen policy now obs)) = mset_set (sourceId ` set obs)"
proof -
  have "set gs \<subseteq> set (bySource obs) \<Longrightarrow>
      mset (map sourceId (concat (map (fresh_of policy now) gs))) + mset (concat (map (stale_of policy now) gs))
        + mset (concat (map (invalid_of policy now) gs)) = mset (map fst gs)" for gs
  proof (induction gs)
    case (Cons g gs)
    then have IH: "mset (map sourceId (concat (map (fresh_of policy now) gs))) + mset (concat (map (stale_of policy now) gs))
        + mset (concat (map (invalid_of policy now) gs)) = mset (map fst gs)" by simp
    have g: "mset (map sourceId (fresh_of policy now g)) + mset (stale_of policy now g) + mset (invalid_of policy now g)
       = {#fst g#}" using Cons.prems by (intro group_partition [of _ obs]) simp
    show ?case using arg_cong2 [OF g IH, of "(+)"] by (simp add: ac_simps)
  qed simp
  from this [of "bySource obs"] show ?thesis
    using bySource_keys [of obs] by (metis mset_set_set order_refl screen_eq screening.select_convs(1-3))
qed

lemma mset_inside_outside:
  "mset (map sourceId (inside policy sc)) + mset (map sourceId (outside policy sc)) = mset (map sourceId (sc_fresh sc))"
proof -
  have "mset (map f (filter (\<lambda>x. \<not> P x) xs)) + mset (map f (filter P xs)) = mset (map f xs)"
    for f :: "source_observation \<Rightarrow> string" and P xs
    by (induction xs) auto
  then show ?thesis unfolding inside_def outside_def .
qed

lemma decision_cases:
  assumes "evaluateConsensus H S obs policy now = Inr d" "sc = screen policy (num_of now) obs"
  shows "sc_fresh sc = [] \<and> status d = NoValidSources \<and> cd_value d = None \<and> trustTier d = Unverified
       \<and> agreeingSources d = [] \<and> outlierSources d = []
     \<or> sc_fresh sc \<noteq> [] \<and> center d = Some (fresh_center sc)
       \<and> agreeingSources d = sort (map sourceId (inside policy sc))
       \<and> outlierSources d = sort (map sourceId (outside policy sc)) \<and> agreeingWeight d = weight_within policy sc
       \<and> (if rat_of_nat (length (inside policy sc)) < num_of (minAgreeingSources policy)
          then status d = InsufficientSources \<and> cd_value d = None \<and> trustTier d = Unverified
          else if \<not> meetsQuorum (weight_within policy sc) (sc_totalWeight sc) (num_of (quorumRatio policy))
          then status d = NoQuorum \<and> cd_value d = None \<and> trustTier d = Unverified
          else status d = Agreed \<and> cd_value d = Some (mid_of (map (num_of \<circ> ob_value) (inside policy sc)))
             \<and> trustTier d = tier_of (length (inside policy sc)) (length (outside policy sc))
                               (length (sc_stale sc)) (length (sc_invalid sc)))" (is ?main)
    and "staleSources d = sort (sc_stale sc)" "invalidSources d = sort (sc_invalid sc)"
    and "totalWeight d = sc_totalWeight sc" "policy_problems policy = []"
proof -
  from assms(1) obtain base d' where e: "policy_problems policy = []"
      "base = \<lparr>status = NoValidSources, cd_value = None, trustTier = Unverified, decisionId = [],
                 center = None, agreeingSources = [], outlierSources = [],
                 staleSources = sort (sc_stale sc), invalidSources = sort (sc_invalid sc),
                 agreeingWeight = 0, totalWeight = sc_totalWeight sc, sourceTimestamp = None, evaluatedAt = num_of now\<rparr>"
      "(if sc_fresh sc = [] then Inr base else decide_fresh policy sc base) = Inr d'"
      "d = finalize H S obs policy d'"
    by (rule evaluateConsensus_cases) (use assms(2) in auto)
  note f = decide_fresh_eq [OF e(1) assms(2), of base]
  show "policy_problems policy = []" by (rule e(1))
  show ?main
    using e f by (cases "sc_fresh sc = []") (auto simp: finalize_def Let_def)
  show "staleSources d = sort (sc_stale sc)" "invalidSources d = sort (sc_invalid sc)"
    "totalWeight d = sc_totalWeight sc"
    using e f by (cases "sc_fresh sc = []"; auto simp: finalize_def Let_def)+
qed

lemma total_weight_eq:
  "sc_totalWeight (screen policy now obs) = (\<Sum>i \<in> sourceId ` set obs. group_weight (copies_of obs i))"
proof -
  have "map (group_weight \<circ> snd) (bySource obs) = map (\<lambda>i. group_weight (copies_of obs i)) (map fst (bySource obs))"
    using copies_of_nonempty [of _ obs] by simp
  then show ?thesis
    using bySource_keys [of obs] sum_list_distinct_conv_sum_set [of "map fst (bySource obs)"]
    unfolding screen_eq screening.simps by metis
qed

lemma inside_mem:
  "ob \<in> set (inside policy (screen policy now obs)) \<longleftrightarrow>
     copies_of obs (sourceId ob) = [ob] \<and> is_fresh policy now ob
   \<and> \<not> isAnomalous (num_of (ob_value ob)) (fresh_center (screen policy now obs)) policy"
  by (auto simp: inside_def fresh_mem)

lemma inside_support:
  assumes "x \<in> set (inside policy (screen policy now obs))" "c = fresh_center (screen policy now obs)"
  shows "filter (\<lambda>y. sourceId y = sourceId x) obs = [x] \<and> is_fresh policy now x \<and> x \<in> set obs
       \<and> \<bar>num_of (ob_value x) - c\<bar> \<le> deviationTolerance c policy"
  using assms filter_is_subset [of "\<lambda>y. sourceId y = sourceId x" obs]
  by (auto simp: inside_mem copies_of_def isAnomalous_def)

lemma agreed_facts:
  assumes "evaluateConsensus H S obs policy (Num now) = Inr d" "status d = Agreed" "sc = screen policy now obs"
  shows "center d = Some (fresh_center sc)" "agreeingSources d = sort (map sourceId (inside policy sc))"
    "cd_value d = Some (mid_of (map (num_of \<circ> ob_value) (inside policy sc)))"
    "num_of (minAgreeingSources policy) \<le> rat_of_nat (length (inside policy sc))"
    "num_of (quorumRatio policy) * totalWeight d \<le> agreeingWeight d"
    "trustTier d \<noteq> Unverified" "inside policy sc \<noteq> []" "sc_fresh sc \<noteq> []"
proof -
  note dc = decision_cases [OF assms(1), of sc, unfolded num_of.simps, OF assms(3)]
  show "center d = Some (fresh_center sc)" "agreeingSources d = sort (map sourceId (inside policy sc))"
    "cd_value d = Some (mid_of (map (num_of \<circ> ob_value) (inside policy sc)))"
    and len: "num_of (minAgreeingSources policy) \<le> rat_of_nat (length (inside policy sc))"
    and "trustTier d \<noteq> Unverified" "sc_fresh sc \<noteq> []"
    using dc(1) assms(2) by (auto simp: tier_of_def split: if_splits)
  have "agreeingWeight d = weight_within policy sc"
      "meetsQuorum (weight_within policy sc) (sc_totalWeight sc) (num_of (quorumRatio policy))"
    using dc(1) assms(2) by (auto split: if_splits)
  then show "num_of (quorumRatio policy) * totalWeight d \<le> agreeingWeight d"
    by (simp add: meetsQuorum_def dc(4) pos_le_divide_eq split: if_splits)
  show "inside policy sc \<noteq> []" using len policy_min [OF dc(5)] by auto
qed

text \<open>C6. An agreed decision is supported and every other carries no value. When the status is
  agreed: at least the configured number of sources agree; each of them reported exactly
  once, with a well-formed and fresh observation inside the tolerance around the centre; their
  weight reaches the quorum share of the weight of every source that reported, valid or not;
  and the value lies between two of their values. Every source that reported is in exactly
  one of the four lists, so a source cannot vote twice or disappear.\<close>

theorem consensus_decision_sound:
  assumes "evaluateConsensus H S obs policy (Num now) = Inr d"
  shows "(status d = Agreed \<longrightarrow>
            num_of (minAgreeingSources policy) \<le> rat_of_nat (length (agreeingSources d))
          \<and> num_of (quorumRatio policy) * totalWeight d \<le> agreeingWeight d
          \<and> totalWeight d = (\<Sum>i \<in> sourceId ` set obs. group_weight (filter (\<lambda>ob. sourceId ob = i) obs))
          \<and> (\<exists>c v lo hi. center d = Some c \<and> cd_value d = Some v \<and> trustTier d \<noteq> Unverified
               \<and> (\<forall>s \<in> set (agreeingSources d). \<exists>ob. filter (\<lambda>ob. sourceId ob = s) obs = [ob] \<and> is_fresh policy now ob
                    \<and> \<bar>num_of (ob_value ob) - c\<bar> \<le> deviationTolerance c policy)
               \<and> lo \<in> set obs \<and> sourceId lo \<in> set (agreeingSources d) \<and> num_of (ob_value lo) \<le> v
               \<and> hi \<in> set obs \<and> sourceId hi \<in> set (agreeingSources d) \<and> v \<le> num_of (ob_value hi)))
       \<and> (status d \<noteq> Agreed \<longrightarrow> cd_value d = None \<and> trustTier d = Unverified)
       \<and> mset (agreeingSources d) + mset (outlierSources d) + mset (staleSources d) + mset (invalidSources d)
           = mset_set (sourceId ` set obs)"
proof -
  define sc where "sc = screen policy now obs"
  note dc = decision_cases [OF assms, of sc, unfolded num_of.simps, OF sc_def]
  have part: "mset (agreeingSources d) + mset (outlierSources d) + mset (staleSources d) + mset (invalidSources d)
           = mset_set (sourceId ` set obs)"
    using dc(1-3) screen_partition [of policy now obs] mset_inside_outside [of policy sc]
    by (auto simp: sc_def)
  have other: "status d \<noteq> Agreed \<longrightarrow> cd_value d = None \<and> trustTier d = Unverified"
    using dc(1) by (auto split: if_splits)
  have agreed: "\<exists>c v lo hi. center d = Some c \<and> cd_value d = Some v \<and> trustTier d \<noteq> Unverified
               \<and> (\<forall>s \<in> set (agreeingSources d). \<exists>ob. filter (\<lambda>ob. sourceId ob = s) obs = [ob] \<and> is_fresh policy now ob
                    \<and> \<bar>num_of (ob_value ob) - c\<bar> \<le> deviationTolerance c policy)
               \<and> lo \<in> set obs \<and> sourceId lo \<in> set (agreeingSources d) \<and> num_of (ob_value lo) \<le> v
               \<and> hi \<in> set obs \<and> sourceId hi \<in> set (agreeingSources d) \<and> v \<le> num_of (ob_value hi)"
    if "status d = Agreed"
  proof -
    note f = agreed_facts [OF assms that sc_def]
    have "\<exists>x \<in> set (inside policy sc). num_of (ob_value x) \<le> mid_of (map (num_of \<circ> ob_value) (inside policy sc))"
      and "\<exists>x \<in> set (inside policy sc). mid_of (map (num_of \<circ> ob_value) (inside policy sc)) \<le> num_of (ob_value x)"
      using mid_of_hull [of "map (num_of \<circ> ob_value) (inside policy sc)"] f(7) by auto
    then obtain lo hi where lh: "lo \<in> set (inside policy sc)" "hi \<in> set (inside policy sc)"
        "num_of (ob_value lo) \<le> mid_of (map (num_of \<circ> ob_value) (inside policy sc))"
        "mid_of (map (num_of \<circ> ob_value) (inside policy sc)) \<le> num_of (ob_value hi)" by blast
    note cp = inside_support [of _ policy now obs, folded sc_def, OF _ refl]
    show ?thesis
      by (rule exI [of _ "fresh_center sc"], rule exI [of _ "mid_of (map (num_of \<circ> ob_value) (inside policy sc))"],
          rule exI [of _ lo], rule exI [of _ hi]) (use f lh cp in auto)
  qed
  show ?thesis
    using agreed other part agreed_facts(2,4,5) [OF assms _ sc_def] dc(4) total_weight_eq [of policy now obs]
    by (simp add: sc_def [symmetric] copies_of_def)
qed

text \<open>Bad observations never make an evaluation throw.\<close>

lemma evaluateConsensus_total:
  "is_ok (evaluateConsensus H S obs policy now) \<longleftrightarrow> policy_problems policy = [] \<and> isFinite now"
proof (cases "policy_problems policy = [] \<and> isFinite now")
  case True
  let ?sc = "screen policy (num_of now) obs"
  have "is_ok (decide_fresh policy ?sc base)" if "sc_fresh ?sc \<noteq> []" for base
    using decide_fresh_eq [OF _ refl that, of base] True by (simp add: Let_def)
  then have ok: "is_ok (if sc_fresh ?sc = [] then Inr base else decide_fresh policy ?sc base)" for base by simp
  have "is_ok (then_result r (\<lambda>d. Inr (f d)))" if "is_ok r" for r and f :: "consensus_decision \<Rightarrow> consensus_decision"
    using that by (cases r) auto
  from this [OF ok] True show ?thesis
    by (simp add: evaluateConsensus_def validateConsensusPolicy_def Let_def)
next
  case False
  then show ?thesis by (auto simp: evaluateConsensus_def validateConsensusPolicy_def)
qed

text \<open>C8. A majority of honest sources holds the value: when more than half of the fresh
  observations lie in an interval, the centre lies in it, and an agreed value is no further
  from the centre than the tolerance, whatever the other sources report.\<close>

theorem consensus_honest_majority:
  assumes "evaluateConsensus H S obs policy (Num now) = Inr d" "status d = Agreed"
    and "length (sc_fresh (screen policy now obs))
       < 2 * length (filter (\<lambda>ob. a \<le> num_of (ob_value ob) \<and> num_of (ob_value ob) \<le> b) (sc_fresh (screen policy now obs)))"
  shows "\<exists>c v. center d = Some c \<and> cd_value d = Some v \<and> a \<le> c \<and> c \<le> b \<and> \<bar>v - c\<bar> \<le> deviationTolerance c policy"
proof -
  define sc where "sc = screen policy now obs"
  note f = agreed_facts [OF assms(1,2) sc_def]
  let ?v = "mid_of (map (num_of \<circ> ob_value) (inside policy sc))" and ?c = "fresh_center sc"
  have "a \<le> ?c \<and> ?c \<le> b"
    unfolding fresh_center_def using assms(3) by (intro mid_of_majority) (simp add: sc_def filter_map comp_def)
  moreover have "?c - deviationTolerance ?c policy \<le> ?v \<and> ?v \<le> ?c + deviationTolerance ?c policy"
  proof (rule mid_of_bounds)
    show "map (num_of \<circ> ob_value) (inside policy sc) \<noteq> []" using f(7) by simp
    fix x assume "x \<in> set (map (num_of \<circ> ob_value) (inside policy sc))"
    then obtain ob where "ob \<in> set (inside policy sc)" "x = num_of (ob_value ob)" by auto
    with inside_support [of ob policy now obs, OF _ refl]
    show "?c - deviationTolerance ?c policy \<le> x \<and> x \<le> ?c + deviationTolerance ?c policy"
      by (auto simp: sc_def abs_le_iff algebra_simps)
  qed
  ultimately show ?thesis using f(1,3) by (auto simp: abs_le_iff algebra_simps)
qed

section \<open>A round\<close>

definition report :: "string \<Rightarrow> rat \<Rightarrow> source_observation" where
  "report i v = \<lparr>sourceId = i, ob_value = Num v, ob_weight = Num 1, observedAt = Num 0\<rparr>"

definition sample_round :: "source_observation list" where
  "sample_round = [report ''a'' 100, report ''b'' 101, report ''c'' 100, report ''d'' 900, report ''e'' 7, report ''e'' 8]"

definition sample_policy :: consensus_policy where
  "sample_policy = DEFAULT_CONSENSUS_POLICY\<lparr>quorumRatio := Num (1 / 2)\<rparr>"

lemma sample_round_agrees:
  "\<exists>d. evaluateConsensus id (\<lambda>_. ''n'') sample_round sample_policy (Num 1000) = Inr d \<and> status d = Agreed"
proof -
  have "case evaluateConsensus id (\<lambda>_. ''n'') sample_round sample_policy (Num 1000) of Inl _ \<Rightarrow> False | Inr d \<Rightarrow> status d = Agreed"
    by code_simp
  then show ?thesis by (simp split: sum.splits)
qed


theorem consensus_decision_sound_witness:
  "\<exists>d. evaluateConsensus id (\<lambda>_. ''n'') sample_round sample_policy (Num 1000) = Inr d \<and> status d = Agreed
     \<and> (1 / 2) * totalWeight d \<le> agreeingWeight d
     \<and> (\<exists>v (lo :: source_observation) (hi :: source_observation). cd_value d = Some v \<and> sourceId lo \<in> set (agreeingSources d) \<and> num_of (ob_value lo) \<le> v
          \<and> sourceId hi \<in> set (agreeingSources d) \<and> v \<le> num_of (ob_value hi))"
proof -
  obtain d where d: "evaluateConsensus id (\<lambda>_. ''n'') sample_round sample_policy (Num 1000) = Inr d" "status d = Agreed"
    using sample_round_agrees by blast
  have "num_of (quorumRatio sample_policy) = 1 / 2" by (simp add: sample_policy_def)
  moreover note s = mp [OF conjunct1 [OF consensus_decision_sound [OF d(1)]] d(2)]
  from s obtain v and lo hi :: source_observation where "cd_value d = Some v" "sourceId lo \<in> set (agreeingSources d)" "num_of (ob_value lo) \<le> v"
      "sourceId hi \<in> set (agreeingSources d)" "v \<le> num_of (ob_value hi)" by (elim conjE exE)
  moreover from s have "num_of (quorumRatio sample_policy) * totalWeight d \<le> agreeingWeight d" by (elim conjE)
  ultimately show ?thesis using d by (metis (no_types))
qed

theorem consensus_honest_majority_witness:
  "\<exists>d c v. evaluateConsensus id (\<lambda>_. ''n'') sample_round sample_policy (Num 1000) = Inr d
     \<and> center d = Some c \<and> cd_value d = Some v \<and> 100 \<le> c \<and> c \<le> 101 \<and> \<bar>v - c\<bar> \<le> deviationTolerance c sample_policy"
proof -
  obtain d where d: "evaluateConsensus id (\<lambda>_. ''n'') sample_round sample_policy (Num 1000) = Inr d" "status d = Agreed"
    using sample_round_agrees by blast
  have "length (sc_fresh (screen sample_policy 1000 sample_round))
      < 2 * length (filter (\<lambda>ob. 100 \<le> num_of (ob_value ob) \<and> num_of (ob_value ob) \<le> 101)
                     (sc_fresh (screen sample_policy 1000 sample_round)))"
    by code_simp
  from consensus_honest_majority [OF d this] d(1) show ?thesis by blast
qed

end
