(* ===== verification/Evidence_Ledger.thy ===== *)
theory Evidence_Ledger
  imports Refract_Prelude "HOL-Library.Char_ord" "HOL-Library.List_Lexorder"
begin

text \<open>
  The append-only evidence ledger (\<open>oracle/consensus/evidence.types.ts\<close>,
  \<open>evidence-ledger.ts\<close>), the lookups over it as known at a time
  (\<open>ledger-view.ts\<close>) and the completeness precheck (\<open>evidence-completeness.ts\<close>).
  An event is its sequence number, its recording time and a body, one constructor per event
  kind. The clock is an argument, read once per call of a service; the file behind the ledger
  is the argument \<open>persist\<close>, which says whether writing a line succeeds. The order of
  \<open>localeCompare\<close> depends on the locale of the process and is the argument \<open>lc\<close>
  (\<open>lc a b\<close> when \<open>a.localeCompare(b) <= 0\<close>).
\<close>

section \<open>Events\<close>

datatype source_status = SActive | SWarmup | SQuarantined | SRetired
datatype signature_status = SigVerified | SigPending | SigFailed | SigNotRequired
datatype trigger_op = OpLt | OpGt

record trigger_rule =
  tr_op :: trigger_op
  tr_threshold :: rat

record 'b event =
  ev_seq :: int
  ev_recordedAt :: time_ms
  ev_body :: 'b

record source_version =
  sv_sourceId :: string
  sv_providerId :: string
  sv_feedId :: string
  sv_version :: int
  sv_status :: source_status
  sv_weight :: rat
  sv_warmupUntil :: "time_ms option"
  sv_retentionDays :: int
  sv_credentialRef :: "string option"
  sv_declaredUpstream :: "string option"
  sv_effectiveFrom :: time_ms

record quorum_policy =
  qp_feedId :: string
  qp_version :: int
  qp_minSources :: int
  qp_expectedSources :: int
  qp_minTotalWeight :: rat
  qp_maxReadingAgeMs :: int
  qp_trigger :: trigger_rule
  qp_effectiveFrom :: time_ms

record reading =
  rd_readingId :: string
  rd_feedId :: string
  rd_sourceId :: string
  rd_value :: rat
  rd_observedAt :: time_ms
  rd_ledgerSeq :: "int option"
  rd_payloadHash :: "string option"
  rd_signature :: signature_status
  rd_fingerprint :: "string option"

datatype sig_result = ResVerified | ResFailed

record contributing_reading =
  ct_readingId :: string
  ct_sourceId :: string
  ct_value :: rat
  ct_effectiveWeight :: rat
  ct_independent :: "bool option"

datatype outcome = OutDecision | OutNoDecision

record decision =
  de_decisionId :: string
  de_feedId :: string
  de_at :: time_ms
  de_ledgerSeq :: "int option"
  de_outcome :: outcome
  de_value :: "rat option"
  de_triggered :: bool
  de_reason :: string
  de_policyVersion :: "int option"
  de_contributing :: "contributing_reading list"

datatype gap_type = MissingRawPayload | InsufficientSourcesGap | SourceInWarmup | SignaturePending

record evidence_gap =
  eg_type :: gap_type
  eg_detail :: string
  eg_readingId :: "string option"
  eg_sourceId :: "string option"

datatype escalation_reason = DeadlineExceeded | VerdictContradicted | PolicyExpiredWhileHeld
datatype hold_disposition = ApprovePayout | Deny | ExtendHold

record hold_placed =
  hp_holdId :: string
  hp_policyId :: string
  hp_holder :: string
  hp_feedId :: string
  hp_decisionId :: string
  hp_gaps :: "evidence_gap list"
  hp_reason :: string
  hp_deadline :: time_ms
  hp_policyExpiresAt :: time_ms

record matched_sample =
  ms_bucket :: int
  ms_readingA :: string
  ms_readingB :: string
  ms_valueA :: rat
  ms_valueB :: rat

record independence_penalty =
  ip_penaltyId :: string
  ip_feedId :: string
  ip_sourceA :: string
  ip_sourceB :: string
  ip_factor :: rat
  ip_windowStart :: time_ms
  ip_windowEnd :: time_ms
  ip_lagBuckets :: int
  ip_informativeSamples :: nat
  ip_matches :: nat
  ip_exactMatches :: nat
  ip_matchRatio :: rat
  ip_evidence :: "matched_sample list"

record penalty_cleared =
  pc_penaltyId :: string
  pc_feedId :: string
  pc_sourceA :: string
  pc_sourceB :: string
  pc_reason :: string
  pc_matchRatio :: rat
  pc_informativeSamples :: nat

datatype retain_reason = WithinLicenseRetention | OpenDispute | SharedWithActiveSource

record offboarding_started =
  os_offboardingId :: string
  os_sourceId :: string
  os_actor :: string
  os_reason :: string
  os_purgeScope :: "string list"
  os_retained :: "(string \<times> retain_reason) list"

text \<open>The \<open>details\<close> of an audit entry are free-form and only ever written; the entry keeps
  its action, actor and reason.\<close>

datatype event_body =
    SourceVersionE source_version
  | QuorumPolicyE quorum_policy
  | ReadingE reading
  | SignatureResultE string sig_result
  | PayloadStoredE string string int
  | DecisionE decision
  | HoldPlacedE hold_placed
  | HoldReevaluatedE string string "evidence_gap list"
  | HoldReleasedE string string string
  | HoldEscalatedE string escalation_reason string
  | HoldDisposedE string hold_disposition string string "time_ms option"
  | HoldSettledE string
  | IndependencePenaltyE independence_penalty
  | PenaltyClearedE penalty_cleared
  | PayloadPurgedE string string string string
  | OffboardingStartedE offboarding_started
  | CredentialRevokedE string string string
  | OffboardingCompletedE string string nat nat
  | AuditE string string string

type_synonym evidence_event = "event_body event"
type_synonym ledger = "evidence_event list"

section \<open>The ledger\<close>

definition lastRecordedAt :: "ledger \<Rightarrow> time_ms option" where
  "lastRecordedAt lg = (if lg = [] then None else Some (ev_recordedAt (last lg)))"

definition ledger_now :: "time_ms \<Rightarrow> ledger \<Rightarrow> time_ms" where
  "ledger_now clock lg = (case lastRecordedAt lg of None \<Rightarrow> clock | Some t \<Rightarrow> max clock t)"

definition reserveTimestamp :: "time_ms \<Rightarrow> ledger \<Rightarrow> time_ms" where
  "reserveTimestamp clock lg = (case lastRecordedAt lg of None \<Rightarrow> clock | Some t \<Rightarrow> max clock (t + 1))"

definition stamp :: "time_ms \<Rightarrow> event_body \<Rightarrow> time_ms option \<Rightarrow> ledger \<Rightarrow> evidence_event" where
  "stamp clock b rec_at lg =
     \<lparr>ev_seq = int (length lg) + 1,
      ev_recordedAt = reserveTimestamp (case rec_at of None \<Rightarrow> clock | Some t \<Rightarrow> t) lg,
      ev_body = b\<rparr>"

text \<open>A computation over the ledger: it may throw, and what it appended before stays.\<close>

type_synonym 'a ledger_op = "ledger \<Rightarrow> 'a result \<times> ledger"

definition l_return :: "'a \<Rightarrow> 'a ledger_op" where
  "l_return x = (\<lambda>s. (Inr x, s))"

definition l_throw :: "js_error \<Rightarrow> 'a ledger_op" where
  "l_throw e = (\<lambda>s. (Inl e, s))"

definition l_read :: "(ledger \<Rightarrow> 'a result) \<Rightarrow> 'a ledger_op" where
  "l_read f = (\<lambda>s. (f s, s))"

definition l_get :: "(ledger \<Rightarrow> 'a ledger_op) \<Rightarrow> 'a ledger_op" where
  "l_get f = (\<lambda>s. f s s)"

definition l_bind :: "'a ledger_op \<Rightarrow> ('a \<Rightarrow> 'b ledger_op) \<Rightarrow> 'b ledger_op" where
  "l_bind m f = (\<lambda>s. case m s of (Inl e, s') \<Rightarrow> (Inl e, s') | (Inr x, s') \<Rightarrow> f x s')"

definition append_event ::
  "(evidence_event \<Rightarrow> bool) \<Rightarrow> time_ms \<Rightarrow> event_body \<Rightarrow> time_ms option \<Rightarrow> evidence_event ledger_op" where
  "append_event persist clock b rec_at = (\<lambda>lg.
     let full = stamp clock b rec_at lg in
     if persist full then (Inr full, lg @ [full]) else (Inl (Err ''write failed''), lg))"

section \<open>The payload store\<close>

definition is_hex :: "char \<Rightarrow> bool" where
  "is_hex c \<longleftrightarrow> is_digit c \<or> 97 \<le> (of_char c :: nat) \<and> (of_char c :: nat) \<le> 102"

definition assertHash :: "string \<Rightarrow> unit result" where
  "assertHash h = (if length h = 64 \<and> list_all is_hex h then Inr () else Inl (Err ''Invalid payload hash''))"

type_synonym payload_store = "string \<rightharpoonup> string"

definition put_payload :: "(string \<Rightarrow> string) \<Rightarrow> string \<Rightarrow> payload_store \<Rightarrow> string \<times> payload_store" where
  "put_payload payloadHash body st = (payloadHash body, st(payloadHash body \<mapsto> body))"

definition has_payload :: "payload_store \<Rightarrow> string \<Rightarrow> bool result" where
  "has_payload st h = then_result (assertHash h) (\<lambda>_. Inr (st h \<noteq> None))"

definition get_payload :: "payload_store \<Rightarrow> string \<Rightarrow> string option result" where
  "get_payload st h = then_result (assertHash h) (\<lambda>_. Inr (st h))"

definition delete_payload :: "string \<Rightarrow> payload_store \<Rightarrow> payload_store result" where
  "delete_payload h st = then_result (assertHash h) (\<lambda>_. Inr (st(h := None)))"

section \<open>State as known at a time\<close>

definition with_body :: "'a event \<Rightarrow> 'b \<Rightarrow> 'b event" where
  "with_body e b = \<lparr>ev_seq = ev_seq e, ev_recordedAt = ev_recordedAt e, ev_body = b\<rparr>"

definition knownAt :: "ledger \<Rightarrow> time_ms \<Rightarrow> ledger" where
  "knownAt events t = filter (\<lambda>e. ev_recordedAt e \<le> t) events"

record source_state =
  ss_sourceId :: string
  ss_providerId :: string
  ss_feedId :: string
  ss_version :: int
  ss_status :: source_status
  ss_weight :: rat
  ss_retentionDays :: int
  ss_credentialRef :: "string option"
  ss_declaredUpstream :: "string option"
  ss_effectiveFrom :: time_ms

definition status_at :: "time_ms \<Rightarrow> source_version \<Rightarrow> source_status" where
  "status_at t v =
     (case sv_warmupUntil v of
        Some w \<Rightarrow> if sv_status v = SActive \<and> t < w then SWarmup else sv_status v
      | None \<Rightarrow> sv_status v)"

definition to_source_state :: "time_ms \<Rightarrow> source_version \<Rightarrow> source_state" where
  "to_source_state t v =
     \<lparr>ss_sourceId = sv_sourceId v, ss_providerId = sv_providerId v, ss_feedId = sv_feedId v,
      ss_version = sv_version v, ss_status = status_at t v, ss_weight = sv_weight v,
      ss_retentionDays = sv_retentionDays v, ss_credentialRef = sv_credentialRef v,
      ss_declaredUpstream = sv_declaredUpstream v, ss_effectiveFrom = sv_effectiveFrom v\<rparr>"

definition latest_source ::
  "string \<Rightarrow> time_ms \<Rightarrow> evidence_event \<Rightarrow> (string, source_version) jmap \<Rightarrow> (string, source_version) jmap" where
  "latest_source feedId t e latest =
     (case ev_body e of
        SourceVersionE v \<Rightarrow>
          if sv_feedId v \<noteq> feedId \<or> ev_recordedAt e > t \<or> sv_effectiveFrom v > t then latest
          else (case map_of latest (sv_sourceId v) of
                  Some prev \<Rightarrow> if sv_version v > sv_version prev then js_set (sv_sourceId v) v latest else latest
                | None \<Rightarrow> js_set (sv_sourceId v) v latest)
      | _ \<Rightarrow> latest)"

definition sourcesAt :: "(string \<Rightarrow> string \<Rightarrow> bool) \<Rightarrow> ledger \<Rightarrow> string \<Rightarrow> time_ms \<Rightarrow> source_state list" where
  "sourcesAt lc events feedId t =
     js_sort (\<lambda>a b. lc (ss_sourceId a) (ss_sourceId b))
       (map (to_source_state t) (js_values (fold (latest_source feedId t) events [])))"

text \<open>Here and below a bound \<open>None\<close> is infinity.\<close>

definition sourceVersionAt :: "ledger \<Rightarrow> string \<Rightarrow> time_ms option \<Rightarrow> source_version option" where
  "sourceVersionAt events srcId t =
     fold (\<lambda>e found. case ev_body e of
        SourceVersionE v \<Rightarrow>
          if sv_sourceId v \<noteq> srcId then found
          else if (case t of None \<Rightarrow> False | Some b \<Rightarrow> ev_recordedAt e > b \<or> sv_effectiveFrom v > b) then found
          else (case found of None \<Rightarrow> Some v
                | Some f \<Rightarrow> if sv_version v > sv_version f then Some v else found)
      | _ \<Rightarrow> found) events None"

definition latestSourceVersionNumber :: "ledger \<Rightarrow> string \<Rightarrow> int" where
  "latestSourceVersionNumber events srcId =
     fold (\<lambda>e m. case ev_body e of SourceVersionE v \<Rightarrow> if sv_sourceId v = srcId then max m (sv_version v) else m
                 | _ \<Rightarrow> m) events 0"

definition latest_policy ::
  "string \<Rightarrow> time_ms \<Rightarrow> evidence_event \<Rightarrow> quorum_policy event option \<Rightarrow> quorum_policy event option" where
  "latest_policy feedId t e found =
     (case ev_body e of
        QuorumPolicyE p \<Rightarrow>
          if qp_feedId p \<noteq> feedId \<or> ev_recordedAt e > t \<or> qp_effectiveFrom p > t then found
          else (case found of None \<Rightarrow> Some (with_body e p)
                | Some f \<Rightarrow> if qp_version p > qp_version (ev_body f) then Some (with_body e p) else found)
      | _ \<Rightarrow> found)"

definition policyAt :: "ledger \<Rightarrow> string \<Rightarrow> time_ms \<Rightarrow> quorum_policy event option" where
  "policyAt events feedId t = fold (latest_policy feedId t) events None"

definition latestPolicyVersionNumber :: "ledger \<Rightarrow> string \<Rightarrow> int" where
  "latestPolicyVersionNumber events feedId =
     fold (\<lambda>e m. case ev_body e of QuorumPolicyE p \<Rightarrow> if qp_feedId p = feedId then max m (qp_version p) else m
                 | _ \<Rightarrow> m) events 0"

record reading_state =
  rs_readingId :: string
  rs_feedId :: string
  rs_sourceId :: string
  rs_value :: rat
  rs_observedAt :: time_ms
  rs_ledgerSeq :: "int option"
  rs_payloadHash :: "string option"
  rs_signature :: signature_status
  rs_seq :: int

definition toReadingState :: "evidence_event \<Rightarrow> reading \<Rightarrow> sig_result option \<Rightarrow> reading_state" where
  "toReadingState e r override =
     \<lparr>rs_readingId = rd_readingId r, rs_feedId = rd_feedId r, rs_sourceId = rd_sourceId r,
      rs_value = rd_value r, rs_observedAt = rd_observedAt r, rs_ledgerSeq = rd_ledgerSeq r,
      rs_payloadHash = rd_payloadHash r,
      rs_signature = (if rd_signature r = SigPending
                      then (case override of None \<Rightarrow> SigPending | Some ResVerified \<Rightarrow> SigVerified | Some ResFailed \<Rightarrow> SigFailed)
                      else rd_signature r),
      rs_seq = ev_seq e\<rparr>"

definition signature_result :: "time_ms \<Rightarrow> evidence_event \<Rightarrow> (string, sig_result) jmap \<Rightarrow> (string, sig_result) jmap" where
  "signature_result t e m =
     (case ev_body e of SignatureResultE rid res \<Rightarrow> if ev_recordedAt e \<le> t then js_set rid res m else m | _ \<Rightarrow> m)"

definition signatureResultsAt :: "ledger \<Rightarrow> time_ms \<Rightarrow> (string, sig_result) jmap" where
  "signatureResultsAt events t = fold (signature_result t) events []"

definition reading_at ::
  "(string, sig_result) jmap \<Rightarrow> string \<Rightarrow> time_ms \<Rightarrow> time_ms option \<Rightarrow> evidence_event \<Rightarrow> reading_state list" where
  "reading_at sig feedId t from_ms e =
     (case ev_body e of
        ReadingE r \<Rightarrow>
          if rd_feedId r \<noteq> feedId \<or> ev_recordedAt e > t then []
          else if rd_observedAt r > t \<or> (case from_ms of None \<Rightarrow> False | Some f \<Rightarrow> rd_observedAt r < f) then []
          else [toReadingState e r (map_of sig (rd_readingId r))]
      | _ \<Rightarrow> [])"

definition readingsAt :: "ledger \<Rightarrow> string \<Rightarrow> time_ms \<Rightarrow> time_ms option \<Rightarrow> reading_state list" where
  "readingsAt events feedId t from_ms =
     concat (map (reading_at (signatureResultsAt events t) feedId t from_ms) events)"

definition readingById :: "ledger \<Rightarrow> string \<Rightarrow> time_ms \<Rightarrow> reading_state option" where
  "readingById events rid t =
     (let sig = signatureResultsAt events t in
      case List.find (\<lambda>e. case ev_body e of ReadingE r \<Rightarrow> rd_readingId r = rid \<and> ev_recordedAt e \<le> t | _ \<Rightarrow> False) events of
        None \<Rightarrow> None
      | Some e \<Rightarrow> (case ev_body e of ReadingE r \<Rightarrow> Some (toReadingState e r (map_of sig (rd_readingId r))) | _ \<Rightarrow> None))"

definition storedPayloadsAt :: "ledger \<Rightarrow> time_ms \<Rightarrow> string set" where
  "storedPayloadsAt events t =
     fold (\<lambda>e s. case ev_body e of PayloadStoredE h _ _ \<Rightarrow> if ev_recordedAt e \<le> t then insert h s else s | _ \<Rightarrow> s) events {}"

definition later_decision ::
  "string \<Rightarrow> time_ms \<Rightarrow> evidence_event \<Rightarrow> decision event option \<Rightarrow> decision event option" where
  "later_decision feedId t e found =
     (case ev_body e of
        DecisionE d \<Rightarrow>
          if de_feedId d \<noteq> feedId \<or> ev_recordedAt e > t \<or> de_at d > t then found
          else (case found of None \<Rightarrow> Some (with_body e d)
                | Some f \<Rightarrow> if de_at d > de_at (ev_body f) \<or> de_at d = de_at (ev_body f) \<and> ev_seq e > ev_seq f
                            then Some (with_body e d) else found)
      | _ \<Rightarrow> found)"

definition decisionInForceAt :: "ledger \<Rightarrow> string \<Rightarrow> time_ms \<Rightarrow> decision event option" where
  "decisionInForceAt events feedId t = fold (later_decision feedId t) events None"

definition decisionById :: "ledger \<Rightarrow> string \<Rightarrow> decision event option" where
  "decisionById events did =
     (case List.find (\<lambda>e. case ev_body e of DecisionE d \<Rightarrow> de_decisionId d = did | _ \<Rightarrow> False) events of
        None \<Rightarrow> None
      | Some e \<Rightarrow> (case ev_body e of DecisionE d \<Rightarrow> Some (with_body e d) | _ \<Rightarrow> None))"

definition penalty_step ::
  "string \<Rightarrow> time_ms \<Rightarrow> evidence_event \<Rightarrow> (string, independence_penalty event) jmap
     \<Rightarrow> (string, independence_penalty event) jmap" where
  "penalty_step feedId t e active =
     (if ev_recordedAt e > t then active
      else case ev_body e of
        IndependencePenaltyE p \<Rightarrow> if ip_feedId p = feedId then js_set (ip_penaltyId p) (with_body e p) active else active
      | PenaltyClearedE p \<Rightarrow> if pc_feedId p = feedId then js_delete (pc_penaltyId p) active else active
      | _ \<Rightarrow> active)"

definition penaltiesAt :: "ledger \<Rightarrow> string \<Rightarrow> time_ms \<Rightarrow> independence_penalty event list" where
  "penaltiesAt events feedId t =
     js_sort (\<lambda>a b. ev_seq a \<le> ev_seq b) (js_values (fold (penalty_step feedId t) events []))"

section \<open>The completeness precheck\<close>

definition count_str :: "nat \<Rightarrow> string" where
  "count_str n = big_to_string (int n)"

definition independent_count :: "contributing_reading list \<Rightarrow> nat" where
  "independent_count cs = length (filter (\<lambda>c. ct_independent c \<noteq> Some False) cs)"

definition source_gap :: "decision \<Rightarrow> quorum_policy event option \<Rightarrow> evidence_gap list" where
  "source_gap d policy =
     (let expected = (case policy of None \<Rightarrow> 0 | Some p \<Rightarrow> qp_expectedSources (ev_body p));
          independent = independent_count (de_contributing d);
          mirrored = length (de_contributing d) - independent
      in if int independent < expected
         then [\<lparr>eg_type = InsufficientSourcesGap,
                eg_detail = count_str independent @ '' independent source(s) contributed''
                  @ (if mirrored \<noteq> 0 then '' (+'' @ count_str mirrored @ '' suspected mirror)'' else [])
                  @ ''; policy v'' @ (case policy of None \<Rightarrow> ''undefined'' | Some p \<Rightarrow> big_to_string (qp_version (ev_body p)))
                  @ '' expects '' @ big_to_string expected,
                eg_readingId = None, eg_sourceId = None\<rparr>]
         else [])"

definition warmup_gap :: "(string, source_state) jmap \<Rightarrow> contributing_reading \<Rightarrow> evidence_gap list" where
  "warmup_gap srcs c =
     (if (case map_of srcs (ct_sourceId c) of None \<Rightarrow> False | Some s \<Rightarrow> ss_status s = SWarmup)
      then [\<lparr>eg_type = SourceInWarmup,
             eg_detail = ''source '' @ ct_sourceId c @ '' was in warm-up when the decision was made'',
             eg_readingId = Some (ct_readingId c), eg_sourceId = Some (ct_sourceId c)\<rparr>]
      else [])"

text \<open>The store refuses a malformed hash, so the availability test may throw.\<close>

definition reading_gaps ::
  "ledger \<Rightarrow> time_ms \<Rightarrow> (string \<Rightarrow> bool result) \<Rightarrow> contributing_reading \<Rightarrow> evidence_gap list result" where
  "reading_gaps events now payloadAvailable c =
     (let reading = readingById events (ct_readingId c) now;
          missing = (case reading of None \<Rightarrow> Inr True
                     | Some r \<Rightarrow> (case rs_payloadHash r of None \<Rightarrow> Inr True
                                  | Some h \<Rightarrow> then_result (payloadAvailable h) (\<lambda>a. Inr (\<not> a))));
          pending = (case reading of None \<Rightarrow> False | Some r \<Rightarrow> rs_signature r = SigPending);
          gap = (\<lambda>ty txt. \<lparr>eg_type = ty, eg_detail = txt, eg_readingId = Some (ct_readingId c), eg_sourceId = Some (ct_sourceId c)\<rparr>)
      in then_result missing (\<lambda>m. Inr (
           (if m then [gap MissingRawPayload (''raw payload for reading '' @ ct_readingId c @ '' (source ''
                          @ ct_sourceId c @ '') is not in the evidence store'')] else [])
         @ (if pending then [gap SignaturePending (''signature for reading '' @ ct_readingId c @ '' (source ''
                          @ ct_sourceId c @ '') is still pending verification'')] else []))))"

fun collect :: "('a \<Rightarrow> 'b list result) \<Rightarrow> 'a list \<Rightarrow> 'b list result" where
  "collect f [] = Inr []"
| "collect f (x # xs) = then_result (f x) (\<lambda>a. then_result (collect f xs) (\<lambda>b. Inr (a @ b)))"

definition assessEvidenceCompleteness ::
  "(string \<Rightarrow> string \<Rightarrow> bool) \<Rightarrow> ledger \<Rightarrow> decision \<Rightarrow> time_ms \<Rightarrow> (string \<Rightarrow> bool result) \<Rightarrow> evidence_gap list result" where
  "assessEvidenceCompleteness lc events d now payloadAvailable =
     (let policy = policyAt events (de_feedId d) (de_at d);
          srcs = map (\<lambda>s. (ss_sourceId s, s)) (sourcesAt lc events (de_feedId d) (de_at d));
          contributors = js_sort (\<lambda>a b. lc (ct_readingId a) (ct_readingId b)) (de_contributing d)
      in then_result (collect (reading_gaps events now payloadAvailable) contributors) (\<lambda>gs.
           Inr (source_gap d policy @ concat (map (warmup_gap srcs) contributors) @ gs)))"

fun gap_type_name :: "gap_type \<Rightarrow> string" where
  "gap_type_name MissingRawPayload = ''missing_raw_payload''"
| "gap_type_name InsufficientSourcesGap = ''insufficient_sources''"
| "gap_type_name SourceInWarmup = ''source_in_warmup''"
| "gap_type_name SignaturePending = ''signature_pending''"

text \<open>\<open>new Set\<close> keeps the first occurrence of each element.\<close>

definition js_dedup :: "'a list \<Rightarrow> 'a list" where
  "js_dedup xs = rev (remdups (rev xs))"

definition describeGaps :: "evidence_gap list \<Rightarrow> string" where
  "describeGaps gaps =
     (if gaps = [] then ''evidence complete''
      else ''held for incomplete evidence ('' @ join '', '' (js_dedup (map (gap_type_name \<circ> eg_type) gaps)) @ ''): ''
           @ join ''; '' (map eg_detail gaps))"

section \<open>The ledger is a strictly ordered log\<close>

definition ledger_inv :: "ledger \<Rightarrow> bool" where
  "ledger_inv lg \<longleftrightarrow> sorted_wrt (<) (map ev_recordedAt lg) \<and> map ev_seq lg = map int [1..<Suc (length lg)]"

lemma ledger_inv_Nil [simp]: "ledger_inv []"
  by (simp add: ledger_inv_def)

lemma reserve_after: "ev_recordedAt e < reserveTimestamp clock lg" if "ledger_inv lg" "e \<in> set lg"
proof (cases lg rule: rev_cases)
  case (snoc ys z)
  with that have "ev_recordedAt e \<le> ev_recordedAt z" by (auto simp: ledger_inv_def sorted_wrt_append)
  with snoc show ?thesis by (simp add: reserveTimestamp_def lastRecordedAt_def)
qed (use that in simp)

lemma ledger_inv_stamp [inv_intros]:
  assumes "ledger_inv lg"
  shows "ledger_inv (lg @ [stamp clock b rec_at lg])"
  using assms reserve_after [OF assms]
  by (auto simp: ledger_inv_def stamp_def sorted_wrt_append)

lemma append_event_cases:
  "(\<exists>full. append_event persist clock b rec_at lg = (Inr full, lg @ [full]) \<and> full = stamp clock b rec_at lg)
 \<or> append_event persist clock b rec_at lg = (Inl (Err ''write failed''), lg)"
  by (auto simp: append_event_def Let_def)

lemma ledger_now_bound: "e \<in> set lg \<Longrightarrow> ledger_inv lg \<Longrightarrow> ev_recordedAt e \<le> ledger_now clock lg"
  using reserve_after [of lg e clock]
  by (auto simp: ledger_now_def reserveTimestamp_def lastRecordedAt_def max_def split: if_splits)

text \<open>Since the times increase, what was known at a time is a prefix of the ledger.\<close>

lemma filter_upto_prefix:
  assumes "sorted_wrt (<) (map f xs)"
  shows "filter (\<lambda>x. f x \<le> (t :: int)) xs = takeWhile (\<lambda>x. f x \<le> t) xs"
  using assms
proof (induction xs)
  case (Cons x xs)
  show ?case
  proof (cases "f x \<le> t")
    case False
    with Cons.prems have "\<forall>y \<in> set xs. \<not> f y \<le> t" by auto
    with False show ?thesis by (simp add: filter_empty_conv)
  qed (use Cons in simp)
qed simp

lemma knownAt_takeWhile: "ledger_inv lg \<Longrightarrow> knownAt lg t = takeWhile (\<lambda>e. ev_recordedAt e \<le> t) lg"
  by (simp add: ledger_inv_def knownAt_def filter_upto_prefix)

lemma knownAt_append: "knownAt (lg @ later) t = knownAt lg t @ knownAt later t"
  by (simp add: knownAt_def)

text \<open>The lookups at a time read only what was known then.\<close>

lemma fold_filter_skip:
  assumes "\<And>e acc. \<not> P e \<Longrightarrow> f e acc = acc"
  shows "fold f (filter P es) acc = fold f es acc"
  using assms by (induction es arbitrary: acc) auto

lemma sourcesAt_known [simp]: "sourcesAt lc (knownAt events t) feedId t = sourcesAt lc events feedId t"
  unfolding sourcesAt_def knownAt_def
  by (subst fold_filter_skip) (auto simp: latest_source_def split: event_body.splits)

lemma policyAt_known [simp]: "policyAt (knownAt events t) feedId t = policyAt events feedId t"
  unfolding policyAt_def knownAt_def
  by (rule fold_filter_skip) (auto simp: latest_policy_def split: event_body.splits)

lemma signatureResultsAt_known [simp]: "signatureResultsAt (knownAt events t) t = signatureResultsAt events t"
  unfolding signatureResultsAt_def knownAt_def
  by (rule fold_filter_skip) (auto simp: signature_result_def split: event_body.splits)

lemma readingsAt_known [simp]: "readingsAt (knownAt events t) feedId t from_ms = readingsAt events feedId t from_ms"
proof -
  have "concat (map (reading_at sig feedId t from_ms) (filter (\<lambda>e. ev_recordedAt e \<le> t) es))
      = concat (map (reading_at sig feedId t from_ms) es)" for sig es
    by (induction es) (auto simp: reading_at_def split: event_body.splits)
  then show ?thesis by (simp add: readingsAt_def knownAt_def [of events]) (simp flip: knownAt_def)
qed

lemma penaltiesAt_known [simp]: "penaltiesAt (knownAt events t) feedId t = penaltiesAt events feedId t"
  unfolding penaltiesAt_def knownAt_def
  by (subst fold_filter_skip) (auto simp: penalty_step_def)

lemma decisionInForceAt_known [simp]: "decisionInForceAt (knownAt events t) feedId t = decisionInForceAt events feedId t"
  unfolding decisionInForceAt_def knownAt_def
  by (rule fold_filter_skip) (auto simp: later_decision_def split: event_body.splits)

text \<open>The sources a feed has at a time are the ones it registered, once each.\<close>

lemma latest_source_keys:
  assumes "distinct (map fst m)" "\<forall>(k, v) \<in> set m. k = sv_sourceId v"
  shows "distinct (map fst (latest_source feedId t e m)) \<and> (\<forall>(k, v) \<in> set (latest_source feedId t e m). k = sv_sourceId v)"
proof -
  have "(\<forall>(k, v) \<in> set (js_set (sv_sourceId w) w m). k = sv_sourceId v)" for w
    using assms(2) by (induction "sv_sourceId w" w m rule: js_set.induct) auto
  with assms show ?thesis
    by (auto simp: latest_source_def distinct_js_set split: event_body.splits option.splits)
qed

lemma fold_latest_source_keys:
  assumes "distinct (map fst m)" "\<forall>(k, v) \<in> set m. k = sv_sourceId v"
  shows "distinct (map fst (fold (latest_source feedId t) es m))
       \<and> (\<forall>(k, v) \<in> set (fold (latest_source feedId t) es m). k = sv_sourceId v)"
  using assms
proof (induction es arbitrary: m)
  case (Cons e es)
  note step = latest_source_keys [OF Cons.prems, of feedId t e]
  from Cons.IH [OF conjunct1 [OF step] conjunct2 [OF step]] show ?case by simp
qed simp

lemma sourcesAt_distinct: "distinct (map ss_sourceId (sourcesAt lc events feedId t))"
proof -
  let ?m = "fold (latest_source feedId t) events []"
  have k: "distinct (map fst ?m)" "\<forall>(k, v) \<in> set ?m. k = sv_sourceId v"
    using fold_latest_source_keys [of "[]" feedId t events] by auto
  have "map (sv_sourceId \<circ> snd) ?m = map fst ?m" using k(2) by (intro map_cong) auto
  then have "map ss_sourceId (map (to_source_state t) (js_values ?m)) = map fst ?m"
    by (simp add: js_values_def to_source_state_def comp_def)
  with k(1) have "distinct (map ss_sourceId (map (to_source_state t) (js_values ?m)))" by simp
  moreover have "mset (map ss_sourceId (sourcesAt lc events feedId t)) = mset (map ss_sourceId (map (to_source_state t) (js_values ?m)))"
    unfolding sourcesAt_def by (metis mset_js_sort mset_map)
  ultimately show ?thesis by (metis mset_eq_imp_distinct_iff)
qed

section \<open>What a complete assessment means\<close>

lemma collect_Nil_iff: "collect f xs = Inr [] \<longleftrightarrow> (\<forall>x \<in> set xs. f x = Inr [])"
proof (induction xs)
  case (Cons x xs)
  then show ?case by (cases "f x"; cases "collect f xs") auto
qed simp

definition reading_complete :: "ledger \<Rightarrow> time_ms \<Rightarrow> (string \<Rightarrow> bool result) \<Rightarrow> contributing_reading \<Rightarrow> bool" where
  "reading_complete events now payloadAvailable c \<longleftrightarrow>
     (\<exists>r h. readingById events (ct_readingId c) now = Some r \<and> rs_payloadHash r = Some h
          \<and> payloadAvailable h = Inr True \<and> rs_signature r \<noteq> SigPending)"

lemma reading_gaps_Nil: "reading_gaps events now avail c = Inr [] \<longleftrightarrow> reading_complete events now avail c"
proof (cases "readingById events (ct_readingId c) now")
  case (Some r)
  then show ?thesis
    by (cases "rs_payloadHash r"; cases "avail (the (rs_payloadHash r))")
       (auto simp: reading_gaps_def reading_complete_def)
qed (simp add: reading_gaps_def reading_complete_def)

lemma find_sourceId:
  assumes "distinct (map ss_sourceId ss)"
  shows "map_of (map (\<lambda>s. (ss_sourceId s, s)) ss) i = Some s \<longleftrightarrow> s \<in> set ss \<and> ss_sourceId s = i"
  using assms by (subst map_of_eq_Some_iff) (auto simp: comp_def)

text \<open>C10. The precheck is exact: it reports no gap if and only if the decision has as many independent
  contributors as its policy expects, none of them was warming up when the decision was made,
  and for each of them the reading is on the ledger, its raw payload is in the store and its
  signature is not pending.\<close>

theorem complete_evidence_exact:
  "assessEvidenceCompleteness lc events d now avail = Inr [] \<longleftrightarrow>
     (case policyAt events (de_feedId d) (de_at d) of None \<Rightarrow> True
      | Some p \<Rightarrow> qp_expectedSources (ev_body p) \<le> int (independent_count (de_contributing d)))
   \<and> (\<forall>c \<in> set (de_contributing d).
        (\<forall>s \<in> set (sourcesAt lc events (de_feedId d) (de_at d)). ss_sourceId s = ct_sourceId c \<longrightarrow> ss_status s \<noteq> SWarmup)
      \<and> reading_complete events now avail c)"
proof -
  let ?ss = "sourcesAt lc events (de_feedId d) (de_at d)"
  let ?cs = "js_sort (\<lambda>a b. lc (ct_readingId a) (ct_readingId b)) (de_contributing d)"
  let ?policy = "policyAt events (de_feedId d) (de_at d)"
  have warm: "warmup_gap (map (\<lambda>s. (ss_sourceId s, s)) ?ss) c = []
      \<longleftrightarrow> (\<forall>s \<in> set ?ss. ss_sourceId s = ct_sourceId c \<longrightarrow> ss_status s \<noteq> SWarmup)" for c
  proof -
    note f = find_sourceId [OF sourcesAt_distinct [of lc events "de_feedId d" "de_at d"], of "ct_sourceId c"]
    show ?thesis
    proof (cases "map_of (map (\<lambda>s. (ss_sourceId s, s)) ?ss) (ct_sourceId c)")
      case None
      with f show ?thesis by (auto simp: warmup_gap_def)
    next
      case (Some x)
      then have "\<forall>s \<in> set ?ss. ss_sourceId s = ct_sourceId c \<longrightarrow> s = x" using f by (metis option.inject)
      moreover have "x \<in> set ?ss \<and> ss_sourceId x = ct_sourceId c" using Some f by blast
      ultimately show ?thesis using Some by (auto simp: warmup_gap_def)
    qed
  qed
  have src: "source_gap d ?policy = [] \<longleftrightarrow>
      (case ?policy of None \<Rightarrow> True | Some p \<Rightarrow> qp_expectedSources (ev_body p) \<le> int (independent_count (de_contributing d)))"
    by (auto simp: source_gap_def Let_def split: option.splits)
  have "assessEvidenceCompleteness lc events d now avail = Inr [] \<longleftrightarrow>
      source_gap d ?policy = [] \<and> concat (map (warmup_gap (map (\<lambda>s. (ss_sourceId s, s)) ?ss)) ?cs) = []
    \<and> collect (reading_gaps events now avail) ?cs = Inr []"
    by (cases "collect (reading_gaps events now avail) ?cs") (auto simp: assessEvidenceCompleteness_def Let_def)
  also have "\<dots> \<longleftrightarrow> source_gap d ?policy = []
    \<and> (\<forall>c \<in> set (de_contributing d). warmup_gap (map (\<lambda>s. (ss_sourceId s, s)) ?ss) c = [] \<and> reading_gaps events now avail c = Inr [])"
    by (simp only: collect_Nil_iff concat_eq_Nil_conv set_map ball_simps set_js_sort) blast
  finally show ?thesis by (simp only: warm src reading_gaps_Nil)
qed

definition sample_reading :: evidence_event where
  "sample_reading = \<lparr>ev_seq = 1, ev_recordedAt = 5, ev_body = ReadingE
     \<lparr>rd_readingId = ''r'', rd_feedId = ''f'', rd_sourceId = ''s'', rd_value = 1, rd_observedAt = 4, rd_ledgerSeq = None,
      rd_payloadHash = Some ''h'', rd_signature = SigVerified, rd_fingerprint = None\<rparr>\<rparr>"

definition sample_decision :: decision where
  "sample_decision = \<lparr>de_decisionId = ''d'', de_feedId = ''f'', de_at = 6, de_ledgerSeq = None, de_outcome = OutDecision,
     de_value = Some 1, de_triggered = True, de_reason = [], de_policyVersion = None,
     de_contributing = [\<lparr>ct_readingId = ''r'', ct_sourceId = ''s'', ct_value = 1, ct_effectiveWeight = 1, ct_independent = None\<rparr>]\<rparr>"

theorem complete_evidence_exact_witness:
  "assessEvidenceCompleteness (\<le>) [sample_reading] sample_decision 9 (\<lambda>h. Inr (h = ''h'')) = Inr []"
  by (subst complete_evidence_exact)
     (simp add: sample_reading_def sample_decision_def policyAt_def latest_policy_def sourcesAt_def latest_source_def
        js_values_def reading_complete_def readingById_def toReadingState_def)

end
