(* ===== verification/Consensus_Engine.thy ===== *)
theory Consensus_Engine
  imports Evidence_Ledger
begin

text \<open>
  The governed consensus of one feed at one instant (\<open>oracle/consensus/consensus.engine.ts\<close>):
  eligibility of the sources, independence penalties, the quorum and the weighted median.
  Values and weights are exact rationals; the printing of a number inside a reason is the
  argument \<open>S\<close>. The loop of \<open>applyPenalties\<close> mutates the entries its map points to, so the
  model updates the list at the index the map holds, the last entry with the identifier.
\<close>

datatype ineligible_reason = RetiredR | QuarantinedR | ZeroWeight | NoReadingInWindow | SignatureFailed

record eligibility =
  el_sourceId :: string
  el_version :: int
  el_status :: source_status
  el_eligible :: bool
  el_reason :: "ineligible_reason option"
  el_immature :: bool
  el_weight :: rat
  el_effectiveWeight :: rat
  el_readingId :: "string option"
  el_independent :: bool
  el_mirrorOf :: "string option"

record pair_penalty =
  pp_sourceA :: string
  pp_sourceB :: string
  pp_factor :: rat

record consensus_input =
  ci_feedId :: string
  ci_at :: time_ms
  ci_policy :: "quorum_policy option"
  ci_sources :: "source_state list"
  ci_readings :: "reading_state list"
  ci_penalties :: "pair_penalty list"

record consensus_result =
  cr_feedId :: string
  cr_at :: time_ms
  cr_outcome :: outcome
  cr_value :: "rat option"
  cr_triggered :: bool
  cr_reason :: string
  cr_policyVersion :: "int option"
  cr_contributing :: "contributing_reading list"
  cr_eligibility :: "eligibility list"

definition ineligible :: "source_state \<Rightarrow> reading_state option \<Rightarrow> ineligible_reason \<Rightarrow> eligibility" where
  "ineligible s reading reason =
     \<lparr>el_sourceId = ss_sourceId s, el_version = ss_version s, el_status = ss_status s, el_eligible = False,
      el_reason = Some reason, el_immature = (ss_status s = SWarmup), el_weight = ss_weight s,
      el_effectiveWeight = 0, el_readingId = map_option rs_readingId reading,
      el_independent = True, el_mirrorOf = None\<rparr>"

text \<open>\<open>Math.round\<close> rounds half up.\<close>

definition round6 :: "rat \<Rightarrow> rat" where
  "round6 n = of_int \<lfloor>n * 1000000 + 1 / 2\<rfloor> / 1000000"

definition newer_reading :: "reading_state \<Rightarrow> reading_state \<Rightarrow> bool" where
  "newer_reading r prev \<longleftrightarrow>
     rs_observedAt r > rs_observedAt prev \<or> rs_observedAt r = rs_observedAt prev \<and> rs_seq r > rs_seq prev"

definition latest_reading ::
  "time_ms \<Rightarrow> time_ms \<Rightarrow> reading_state \<Rightarrow> (string, reading_state) jmap \<Rightarrow> (string, reading_state) jmap" where
  "latest_reading at_ms windowStart r latest =
     (if rs_observedAt r > at_ms \<or> rs_observedAt r < windowStart then latest
      else case map_of latest (rs_sourceId r) of
             None \<Rightarrow> js_set (rs_sourceId r) r latest
           | Some prev \<Rightarrow> if newer_reading r prev then js_set (rs_sourceId r) r latest else latest)"

definition latestBySource :: "time_ms \<Rightarrow> time_ms \<Rightarrow> reading_state list \<Rightarrow> (string, reading_state) jmap" where
  "latestBySource at_ms windowStart readings = fold (latest_reading at_ms windowStart) readings []"

definition source_eligibility :: "(string, reading_state) jmap \<Rightarrow> source_state \<Rightarrow> eligibility" where
  "source_eligibility latest s =
     (let reading = map_of latest (ss_sourceId s) in
      if ss_status s = SRetired then ineligible s reading RetiredR
      else if ss_status s = SQuarantined then ineligible s reading QuarantinedR
      else if ss_weight s \<le> 0 then ineligible s reading ZeroWeight
      else case reading of
        None \<Rightarrow> ineligible s None NoReadingInWindow
      | Some r \<Rightarrow>
          if rs_signature r = SigFailed then ineligible s reading SignatureFailed
          else \<lparr>el_sourceId = ss_sourceId s, el_version = ss_version s, el_status = ss_status s, el_eligible = True,
                el_reason = None, el_immature = (ss_status s = SWarmup), el_weight = ss_weight s,
                el_effectiveWeight = ss_weight s, el_readingId = Some (rs_readingId r),
                el_independent = True, el_mirrorOf = None\<rparr>)"

fun last_index :: "('a \<Rightarrow> bool) \<Rightarrow> 'a list \<Rightarrow> nat option" where
  "last_index P [] = None"
| "last_index P (x # xs) = (case last_index P xs of Some n \<Rightarrow> Some (Suc n) | None \<Rightarrow> if P x then Some 0 else None)"

definition apply_penalty :: "pair_penalty \<Rightarrow> eligibility list \<Rightarrow> eligibility list" where
  "apply_penalty p es =
     (case (last_index (\<lambda>e. el_sourceId e = pp_sourceA p) es, last_index (\<lambda>e. el_sourceId e = pp_sourceB p) es) of
        (Some i, Some j) \<Rightarrow>
          let a = es ! i; b = es ! j in
          if \<not> el_eligible a \<or> \<not> el_eligible b then es
          else let (keep, k) = (if el_weight a > el_weight b \<or> el_weight a = el_weight b \<and> el_sourceId a < el_sourceId b
                                then (a, j) else (b, i));
                   shadow = es ! k
               in if \<not> el_independent shadow then es
                  else es[k := shadow\<lparr>el_independent := False,
                               el_mirrorOf := Some (case el_mirrorOf keep of None \<Rightarrow> el_sourceId keep | Some m \<Rightarrow> m),
                               el_effectiveWeight := round6 (el_weight shadow * pp_factor p)\<rparr>]
      | _ \<Rightarrow> es)"

definition applyPenalties ::
  "(string \<Rightarrow> string \<Rightarrow> bool) \<Rightarrow> pair_penalty list \<Rightarrow> eligibility list \<Rightarrow> eligibility list" where
  "applyPenalties lc penalties es =
     fold apply_penalty
       (js_sort (\<lambda>x y. if lc (pp_sourceA x) (pp_sourceA y) \<and> lc (pp_sourceA y) (pp_sourceA x)
                       then lc (pp_sourceB x) (pp_sourceB y) else lc (pp_sourceA x) (pp_sourceA y)) penalties) es"

text \<open>The loop returns the value at which the accumulated weight reaches half of the total,
  and the last value when it never does; on an empty list it reads a field of
  \<open>undefined\<close> and throws.\<close>

fun median_scan :: "rat \<Rightarrow> rat \<Rightarrow> contributing_reading list \<Rightarrow> rat option" where
  "median_scan half acc [] = None"
| "median_scan half acc (c # cs) =
     (if acc + ct_effectiveWeight c \<ge> half then Some (ct_value c)
      else median_scan half (acc + ct_effectiveWeight c) cs)"

definition by_value :: "(string \<Rightarrow> string \<Rightarrow> bool) \<Rightarrow> contributing_reading \<Rightarrow> contributing_reading \<Rightarrow> bool" where
  "by_value lc a b \<longleftrightarrow> ct_value a < ct_value b \<or> ct_value a = ct_value b \<and> lc (ct_sourceId a) (ct_sourceId b)"

definition weightedMedian :: "(string \<Rightarrow> string \<Rightarrow> bool) \<Rightarrow> contributing_reading list \<Rightarrow> rat result" where
  "weightedMedian lc items =
     (let sorted = js_sort (by_value lc) items;
          total_w = sum_list (map ct_effectiveWeight sorted)
      in case median_scan (total_w / 2) 0 sorted of
           Some v \<Rightarrow> Inr v
         | None \<Rightarrow> if sorted = [] then Inl (Err ''TypeError'') else Inr (ct_value (last sorted)))"

definition contribution :: "(string, reading_state) jmap \<Rightarrow> eligibility \<Rightarrow> contributing_reading" where
  "contribution latest e =
     \<lparr>ct_readingId = the (el_readingId e), ct_sourceId = el_sourceId e,
      ct_value = rs_value (the (map_of latest (el_sourceId e))),
      ct_effectiveWeight = el_effectiveWeight e, ct_independent = Some (el_independent e)\<rparr>"

definition triggers :: "trigger_rule \<Rightarrow> rat \<Rightarrow> bool" where
  "triggers tr v = (if tr_op tr = OpLt then v < tr_threshold tr else v > tr_threshold tr)"

definition op_name :: "trigger_op \<Rightarrow> string" where
  "op_name op = (case op of OpLt \<Rightarrow> ''lt'' | OpGt \<Rightarrow> ''gt'')"

definition computeConsensus ::
  "(string \<Rightarrow> string \<Rightarrow> bool) \<Rightarrow> (rat \<Rightarrow> string) \<Rightarrow> consensus_input \<Rightarrow> consensus_result result" where
  "computeConsensus lc S inp =
     (case ci_policy inp of
        None \<Rightarrow> Inr \<lparr>cr_feedId = ci_feedId inp, cr_at = ci_at inp, cr_outcome = OutNoDecision, cr_value = None,
                     cr_triggered = False, cr_reason = ''no_quorum_policy'', cr_policyVersion = None,
                     cr_contributing = [],
                     cr_eligibility = map (\<lambda>s. ineligible s None NoReadingInWindow) (ci_sources inp)\<rparr>
      | Some policy \<Rightarrow>
          let latest = latestBySource (ci_at inp) (ci_at inp - qp_maxReadingAgeMs policy) (ci_readings inp);
              elig = applyPenalties lc (ci_penalties inp)
                       (map (source_eligibility latest)
                         (js_sort (\<lambda>a b. lc (ss_sourceId a) (ss_sourceId b)) (ci_sources inp)));
              eligible = filter el_eligible elig;
              independentCount = length (filter el_independent eligible);
              contributing = map (contribution latest) eligible;
              totalWeight = sum_list (map ct_effectiveWeight contributing);
              mirrored = length eligible - independentCount;
              none = (\<lambda>reason. \<lparr>cr_feedId = ci_feedId inp, cr_at = ci_at inp, cr_outcome = OutNoDecision, cr_value = None,
                        cr_triggered = False, cr_reason = reason, cr_policyVersion = Some (qp_version policy),
                        cr_contributing = contributing, cr_eligibility = elig\<rparr>)
          in if int independentCount < qp_minSources policy
             then Inr (none (''quorum_not_met: '' @ count_str independentCount @ '' independent eligible source(s)''
                        @ (if mirrored \<noteq> 0 then '' (+'' @ count_str mirrored @ '' suspected mirror)'' else [])
                        @ '', policy requires '' @ big_to_string (qp_minSources policy)))
             else if totalWeight < qp_minTotalWeight policy
             then Inr (none (''weight_not_met: eligible weight '' @ S (round6 totalWeight)
                        @ '', policy requires '' @ S (qp_minTotalWeight policy)))
             else then_result (weightedMedian lc contributing) (\<lambda>v.
               let t = triggers (qp_trigger policy) v in
               Inr ((none ((if t then ''triggered'' else ''not_triggered'') @ '': '' @ S v @ '' ''
                            @ op_name (tr_op (qp_trigger policy)) @ '' '' @ S (tr_threshold (qp_trigger policy))))
                    \<lparr>cr_outcome := OutDecision, cr_value := Some v, cr_triggered := t\<rparr>)))"

section \<open>Penalties\<close>

lemma last_index_Some: "last_index P xs = Some i \<Longrightarrow> i < length xs \<and> P (xs ! i)"
  by (induction xs arbitrary: i) (auto split: option.splits if_splits)

lemma last_index_map: "map f xs = map f ys \<Longrightarrow> last_index (\<lambda>x. Q (f x)) xs = last_index (\<lambda>x. Q (f x)) ys"
proof (induction xs arbitrary: ys)
  case (Cons x xs)
  then obtain y ys' where "ys = y # ys'" "f x = f y" "map f xs = map f ys'" by (cases ys) auto
  with Cons.IH [of ys'] show ?case by simp
qed simp

text \<open>A penalty keeps everything of an entry but its independence, its mirror and its
  effective weight.\<close>

definition el_base :: "eligibility \<Rightarrow> eligibility" where
  "el_base e = e\<lparr>el_effectiveWeight := 0, el_independent := True, el_mirrorOf := None\<rparr>"

lemma el_base_fields:
  assumes "el_base e = el_base e'"
  shows "el_sourceId e = el_sourceId e'" "el_eligible e = el_eligible e'" "el_weight e = el_weight e'"
    "el_readingId e = el_readingId e'" "el_status e = el_status e'"
  using arg_cong [OF assms, of el_sourceId] arg_cong [OF assms, of el_eligible] arg_cong [OF assms, of el_weight]
    arg_cong [OF assms, of el_readingId] arg_cong [OF assms, of el_status]
  by (simp_all add: el_base_def)

lemma apply_penalty_form:
  "apply_penalty p es = es
 \<or> (\<exists>k m w. k < length es \<and> el_eligible (es ! k)
      \<and> apply_penalty p es = es[k := (es ! k)\<lparr>el_independent := False, el_mirrorOf := m, el_effectiveWeight := round6 (w * pp_factor p)\<rparr>]
      \<and> w = el_weight (es ! k))"
  unfolding apply_penalty_def Let_def
  by (auto split: option.splits dest!: last_index_Some)

lemma apply_penalty_base: "map el_base (apply_penalty p es) = map el_base es"
proof -
  have "map el_base (es[k := (es ! k)\<lparr>el_independent := False, el_mirrorOf := m, el_effectiveWeight := w\<rparr>]) = map el_base es"
    if "k < length es" for k m w
    using that by (simp add: map_update el_base_def list_update_same_conv)
  with apply_penalty_form [of p es] show ?thesis by auto
qed

lemma fold_penalties_base: "map el_base (fold apply_penalty ps es) = map el_base es"
  by (induction ps arbitrary: es) (simp_all add: apply_penalty_base)

text \<open>Once shadowed, an entry stays shadowed.\<close>

lemma apply_penalty_shadowed:
  assumes "i < length es" "\<not> el_independent (es ! i)"
  shows "\<not> el_independent (apply_penalty p es ! i)"
  using apply_penalty_form [of p es] assms by (auto simp: nth_list_update split: if_splits)

lemma fold_penalties_shadowed:
  assumes "i < length es" "\<not> el_independent (es ! i)"
  shows "\<not> el_independent (fold apply_penalty ps es ! i)"
  using assms
proof (induction ps arbitrary: es)
  case (Cons p ps)
  have "length (apply_penalty p es) = length es" by (metis apply_penalty_base length_map)
  with Cons show ?case by (simp add: apply_penalty_shadowed)
qed simp

lemma apply_penalty_pair:
  assumes "last_index (\<lambda>e. el_sourceId e = pp_sourceA p) es = Some i" "el_eligible (es ! i)"
    and "last_index (\<lambda>e. el_sourceId e = pp_sourceB p) es = Some j" "el_eligible (es ! j)"
  shows "\<not> el_independent (apply_penalty p es ! i) \<or> \<not> el_independent (apply_penalty p es ! j)"
proof -
  have "i < length es" "j < length es" using last_index_Some assms(1,3) by blast+
  with assms show ?thesis by (auto simp: apply_penalty_def Let_def nth_list_update)
qed

lemma last_index_base:
  assumes "map el_base es = map el_base es'"
  shows "last_index (\<lambda>e. el_sourceId e = i) es = last_index (\<lambda>e. el_sourceId e = i) es'"
proof -
  have "map el_sourceId es = map el_sourceId es'"
    using arg_cong [OF assms, of "map el_sourceId"] by (simp add: el_base_def comp_def)
  from last_index_map [OF this, of "\<lambda>x. x = i"] show ?thesis .
qed

lemma nth_base:
  assumes "map el_base es = map el_base es'" "i < length es"
  shows "el_base (es ! i) = el_base (es' ! i)"
  using assms by (metis length_map nth_map)

lemma fold_penalties_pair:
  assumes "p \<in> set ps"
    and "last_index (\<lambda>e. el_sourceId e = pp_sourceA p) es = Some i" "el_eligible (es ! i)"
    and "last_index (\<lambda>e. el_sourceId e = pp_sourceB p) es = Some j" "el_eligible (es ! j)"
  shows "\<not> el_independent (fold apply_penalty ps es ! i) \<or> \<not> el_independent (fold apply_penalty ps es ! j)"
proof -
  from assms(1) obtain pre post where ps: "ps = pre @ p # post" by (auto simp: in_set_conv_decomp)
  let ?es = "fold apply_penalty pre es"
  have b: "map el_base ?es = map el_base es" by (rule fold_penalties_base)
  then have len: "length ?es = length es" by (metis length_map)
  have ij: "i < length es" "j < length es" using last_index_Some assms(2,4) by blast+
  have "\<not> el_independent (apply_penalty p ?es ! i) \<or> \<not> el_independent (apply_penalty p ?es ! j)"
    using assms ij len nth_base [OF b, of i] nth_base [OF b, of j]
    by (intro apply_penalty_pair) (auto simp: last_index_base [OF b] dest: el_base_fields(2))
  moreover have "length (apply_penalty p ?es) = length es" by (metis apply_penalty_base len length_map)
  ultimately show ?thesis using ij fold_penalties_shadowed unfolding ps by fastforce
qed

lemma last_index_distinct:
  assumes "distinct (map f xs)" "x \<in> set xs"
  shows "\<exists>i. last_index (\<lambda>y. f y = f x) xs = Some i \<and> i < length xs \<and> xs ! i = x"
  using assms
proof (induction xs)
  case (Cons y ys)
  show ?case
  proof (cases "x \<in> set ys")
    case True
    with Cons show ?thesis by auto
  next
    case False
    with Cons.prems have xy: "x = y" by simp
    have "last_index (\<lambda>z. f z = f x) ys = None"
    proof (cases "last_index (\<lambda>z. f z = f x) ys")
      case (Some i)
      from last_index_Some [OF this] have "f x \<in> f ` set ys" by (metis image_eqI nth_mem)
      with Cons.prems xy show ?thesis by simp
    qed
    with xy show ?thesis by simp
  qed
qed simp

lemma fold_penalties_weights:
  assumes "\<forall>e \<in> set es. el_independent e \<and> el_effectiveWeight e = (if el_eligible e then el_weight e else 0)"
  shows "\<forall>e \<in> set (fold apply_penalty ps es).
           el_independent e \<and> el_effectiveWeight e = (if el_eligible e then el_weight e else 0)
         \<or> \<not> el_independent e \<and> el_eligible e \<and> (\<exists>p \<in> set ps. el_effectiveWeight e = round6 (el_weight e * pp_factor p))"
    (is "\<forall>e \<in> set (fold apply_penalty ps es). ?good ps e")
proof (induction ps rule: rev_induct)
  case Nil
  then show ?case using assms by simp
next
  case (snoc p ps)
  let ?es = "fold apply_penalty ps es"
  have "?good (ps @ [p]) e" if "e \<in> set (apply_penalty p ?es)" for e
    using apply_penalty_form [of p ?es]
  proof (elim disjE exE conjE)
    assume "apply_penalty p ?es = ?es"
    with that snoc show ?thesis by auto
  next
    fix k m w
    assume k: "k < length ?es" "el_eligible (?es ! k)"
      "apply_penalty p ?es = ?es[k := (?es ! k)\<lparr>el_independent := False, el_mirrorOf := m, el_effectiveWeight := round6 (w * pp_factor p)\<rparr>]"
      "w = el_weight (?es ! k)"
    with that have "e \<in> set ?es \<or> e = (?es ! k)\<lparr>el_independent := False, el_mirrorOf := m, el_effectiveWeight := round6 (w * pp_factor p)\<rparr>"
      using set_update_subset_insert by fastforce
    with snoc k show ?thesis by auto
  qed
  then show ?case by simp
qed

section \<open>The weighted median\<close>

text \<open>What the code needs of \<open>localeCompare\<close>: a total preorder.\<close>

definition collation :: "(string \<Rightarrow> string \<Rightarrow> bool) \<Rightarrow> bool" where
  "collation lc \<longleftrightarrow> (\<forall>a b. lc a b \<or> lc b a) \<and> (\<forall>a b c. lc a b \<longrightarrow> lc b c \<longrightarrow> lc a c)"

lemma by_value_sorted: "collation lc \<Longrightarrow> sorted_wrt (by_value lc) (js_sort (by_value lc) cs)"
proof (rule js_sort_sorted)
  assume lc: "collation lc"
  show "by_value lc a b \<or> by_value lc b a" for a b
  proof (cases "ct_value a = ct_value b")
    case True
    moreover have "lc (ct_sourceId a) (ct_sourceId b) \<or> lc (ct_sourceId b) (ct_sourceId a)"
      using lc unfolding collation_def by blast
    ultimately show ?thesis by (simp add: by_value_def)
  qed (auto simp: by_value_def)
  show "by_value lc a c" if "by_value lc a b" "by_value lc b c" for a b c
  proof (cases "ct_value a = ct_value b \<and> ct_value b = ct_value c")
    case True
    with that have "lc (ct_sourceId a) (ct_sourceId b)" "lc (ct_sourceId b) (ct_sourceId c)"
      by (simp_all add: by_value_def)
    then have "lc (ct_sourceId a) (ct_sourceId c)" using lc unfolding collation_def by blast
    with True show ?thesis by (simp add: by_value_def)
  qed (use that in \<open>auto simp: by_value_def\<close>)
qed

definition weight_of :: "contributing_reading list \<Rightarrow> rat" where
  "weight_of cs = sum_list (map ct_effectiveWeight cs)"

lemma weight_of_simps [simp]:
  "weight_of [] = 0" "weight_of (c # cs) = ct_effectiveWeight c + weight_of cs"
  "weight_of (cs @ ds) = weight_of cs + weight_of ds"
  by (simp_all add: weight_of_def)

lemma weight_of_nonneg: "\<forall>c \<in> set cs. 0 \<le> ct_effectiveWeight c \<Longrightarrow> 0 \<le> weight_of cs"
  by (induction cs) auto

lemma weight_of_filter: "\<forall>c \<in> set cs. 0 \<le> ct_effectiveWeight c \<Longrightarrow> weight_of (filter P cs) \<le> weight_of cs"
  by (induction cs) auto

lemma weight_of_mset: "mset cs = mset ds \<Longrightarrow> weight_of cs = weight_of ds"
  unfolding weight_of_def by (metis mset_map sum_mset_sum_list)

lemma median_scan_Some:
  "median_scan half acc cs = Some v \<Longrightarrow>
     \<exists>pre c post. cs = pre @ c # post \<and> v = ct_value c \<and> (pre = [] \<or> acc + weight_of pre < half)
                \<and> half \<le> acc + weight_of pre + ct_effectiveWeight c"
proof (induction half acc cs rule: median_scan.induct)
  case (2 half acc c cs)
  show ?case
  proof (cases "half \<le> acc + ct_effectiveWeight c")
    case True
    with "2.prems" show ?thesis by (intro exI [of _ "[]"]) auto
  next
    case False
    with "2.prems" "2.IH" obtain pre d post where
      "cs = pre @ d # post" "v = ct_value d" "pre = [] \<or> acc + ct_effectiveWeight c + weight_of pre < half"
      "half \<le> acc + ct_effectiveWeight c + weight_of pre + ct_effectiveWeight d" by auto
    with False show ?thesis by (intro exI [of _ "c # pre"] exI [of _ d] exI [of _ post]) (auto simp: algebra_simps)
  qed
qed simp

lemma median_scan_None: "median_scan half acc cs = None \<Longrightarrow> cs = [] \<or> acc + weight_of cs < half"
  by (induction half acc cs rule: median_scan.induct) (auto simp: algebra_simps split: if_splits)

lemma sorted_split_weights:
  assumes "sorted_wrt (by_value lc) (pre @ c # post)" "\<forall>d \<in> set (pre @ c # post). 0 \<le> ct_effectiveWeight d"
  shows "weight_of (filter (\<lambda>d. ct_value d < ct_value c) (pre @ c # post)) \<le> weight_of pre"
    and "weight_of (filter (\<lambda>d. ct_value c < ct_value d) (pre @ c # post)) \<le> weight_of post"
proof -
  from assms(1) have lo: "\<forall>d \<in> set pre. ct_value d \<le> ct_value c" and hi: "\<forall>d \<in> set post. ct_value c \<le> ct_value d"
    by (auto simp: sorted_wrt_append by_value_def)
  have "filter (\<lambda>d. ct_value d < ct_value c) post = []" using hi by (auto simp: filter_empty_conv not_less)
  then show "weight_of (filter (\<lambda>d. ct_value d < ct_value c) (pre @ c # post)) \<le> weight_of pre"
    using weight_of_filter [of pre "\<lambda>d. ct_value d < ct_value c"] assms(2) by simp
  have "filter (\<lambda>d. ct_value c < ct_value d) pre = []" using lo by (auto simp: filter_empty_conv not_less)
  then show "weight_of (filter (\<lambda>d. ct_value c < ct_value d) (pre @ c # post)) \<le> weight_of post"
    using weight_of_filter [of post "\<lambda>d. ct_value c < ct_value d"] assms(2) by simp
qed

lemma weightedMedian_spec:
  assumes "collation lc" "cs \<noteq> []" "\<forall>c \<in> set cs. 0 \<le> ct_effectiveWeight c"
  shows "\<exists>v. weightedMedian lc cs = Inr v \<and> v \<in> ct_value ` set cs
           \<and> 2 * weight_of (filter (\<lambda>c. ct_value c < v) cs) \<le> weight_of cs
           \<and> 2 * weight_of (filter (\<lambda>c. v < ct_value c) cs) \<le> weight_of cs"
proof -
  let ?s = "js_sort (by_value lc) cs"
  have w: "weight_of ?s = weight_of cs" "\<And>P. weight_of (filter P ?s) = weight_of (filter P cs)"
    by (rule weight_of_mset, simp)+
  have nn: "\<forall>c \<in> set ?s. 0 \<le> ct_effectiveWeight c" using assms(3) by simp
  have ne: "?s \<noteq> []" using assms(2) by (metis length_0_conv length_js_sort)
  have "median_scan (weight_of cs / 2) 0 ?s \<noteq> None"
    using median_scan_None [of "weight_of cs / 2" 0 ?s] weight_of_nonneg [OF nn] w(1) ne by auto
  then obtain v where v: "median_scan (weight_of cs / 2) 0 ?s = Some v" by blast
  from median_scan_Some [OF v] obtain pre c post where s: "?s = pre @ c # post" "v = ct_value c"
      "pre = [] \<or> weight_of pre < weight_of cs / 2" "weight_of cs / 2 \<le> weight_of pre + ct_effectiveWeight c"
    by auto
  note sp = sorted_split_weights [of lc pre c post, folded s(1), OF by_value_sorted [OF assms(1)] nn, unfolded w(2)]
  have "2 * weight_of pre \<le> weight_of cs" using s(3) weight_of_nonneg [OF nn] w(1) by auto
  moreover have "2 * weight_of post \<le> weight_of cs" using s(4) w(1) [unfolded s(1)] by simp
  moreover have "weightedMedian lc cs = Inr v"
    using v w(1) by (simp add: weightedMedian_def Let_def weight_of_def)
  moreover have "v \<in> ct_value ` set cs"
    using s(1,2) by (metis image_eqI in_set_conv_decomp set_js_sort)
  ultimately show ?thesis using sp unfolding s(2) [symmetric] by (intro exI [of _ v]) linarith
qed

section \<open>Eligibility\<close>

lemma latestBySource_mem:
  "(i, r) \<in> set (latestBySource at_ms ws rs) \<Longrightarrow> r \<in> set rs \<and> rs_sourceId r = i \<and> rs_observedAt r \<le> at_ms \<and> ws \<le> rs_observedAt r"
proof (induction rs arbitrary: i r rule: rev_induct)
  case (snoc x rs)
  have js: "(j, y) \<in> set (js_set k v m) \<Longrightarrow> (j, y) \<in> set m \<or> j = k \<and> y = v" for j y k v and m :: "(string, reading_state) jmap"
    by (induction k v m rule: js_set.induct) (auto split: if_splits)
  from snoc show ?case
    by (auto simp: latestBySource_def latest_reading_def split: option.splits if_splits dest: js)
qed (simp add: latestBySource_def)

lemma source_eligibility_ok:
  assumes "el_eligible (source_eligibility latest s)"
  shows "ss_status s \<in> {SActive, SWarmup} \<and> 0 < ss_weight s \<and> el_weight (source_eligibility latest s) = ss_weight s
       \<and> (\<exists>r. map_of latest (ss_sourceId s) = Some r \<and> rs_signature r \<noteq> SigFailed
              \<and> el_readingId (source_eligibility latest s) = Some (rs_readingId r))"
  using assms by (cases "ss_status s") (auto simp: source_eligibility_def ineligible_def Let_def split: option.splits if_splits)

lemma source_eligibility_simps [simp]:
  "el_sourceId (source_eligibility latest s) = ss_sourceId s"
  "el_independent (source_eligibility latest s)"
  "el_effectiveWeight (source_eligibility latest s) = (if el_eligible (source_eligibility latest s) then el_weight (source_eligibility latest s) else 0)"
  by (auto simp: source_eligibility_def ineligible_def Let_def split: option.splits)

section \<open>What a governed decision rests on\<close>

definition raw_eligibility :: "(string \<Rightarrow> string \<Rightarrow> bool) \<Rightarrow> consensus_input \<Rightarrow> quorum_policy \<Rightarrow> eligibility list" where
  "raw_eligibility lc inp policy =
     map (source_eligibility (latestBySource (ci_at inp) (ci_at inp - qp_maxReadingAgeMs policy) (ci_readings inp)))
       (js_sort (\<lambda>a b. lc (ss_sourceId a) (ss_sourceId b)) (ci_sources inp))"

lemma computeConsensus_policy:
  assumes "computeConsensus lc S inp = Inr r" "ci_policy inp = Some policy"
  defines "latest \<equiv> latestBySource (ci_at inp) (ci_at inp - qp_maxReadingAgeMs policy) (ci_readings inp)"
  shows "cr_eligibility r = applyPenalties lc (ci_penalties inp) (raw_eligibility lc inp policy)"
    and "cr_contributing r = map (contribution latest) (filter el_eligible (cr_eligibility r))"
    and "cr_outcome r = OutDecision \<Longrightarrow>
           qp_minSources policy \<le> int (length (filter el_independent (filter el_eligible (cr_eligibility r))))
         \<and> qp_minTotalWeight policy \<le> weight_of (cr_contributing r)
         \<and> (\<exists>v. weightedMedian lc (cr_contributing r) = Inr v \<and> cr_value r = Some v
                \<and> cr_triggered r = triggers (qp_trigger policy) v)"
    and "cr_outcome r \<noteq> OutDecision \<Longrightarrow> cr_value r = None \<and> \<not> cr_triggered r"
  using assms(1,2) unfolding computeConsensus_def Let_def raw_eligibility_def latest_def weight_of_def
  by (auto elim!: then_result_InrE split: if_splits)

lemma elig_origin:
  assumes "e \<in> set (applyPenalties lc ps (raw_eligibility lc inp policy))"
  shows "\<exists>s \<in> set (ci_sources inp). el_base e = el_base (source_eligibility
           (latestBySource (ci_at inp) (ci_at inp - qp_maxReadingAgeMs policy) (ci_readings inp)) s)"
proof -
  have "map el_base (applyPenalties lc ps (raw_eligibility lc inp policy)) = map el_base (raw_eligibility lc inp policy)"
    unfolding applyPenalties_def by (rule fold_penalties_base)
  with assms have "el_base e \<in> el_base ` set (raw_eligibility lc inp policy)" by (metis image_eqI list.set_map)
  then show ?thesis by (auto simp: raw_eligibility_def)
qed

lemma eligible_source:
  assumes "e \<in> set (applyPenalties lc ps (raw_eligibility lc inp policy))" "el_eligible e"
  defines "latest \<equiv> latestBySource (ci_at inp) (ci_at inp - qp_maxReadingAgeMs policy) (ci_readings inp)"
  shows "\<exists>s r. s \<in> set (ci_sources inp) \<and> ss_sourceId s = el_sourceId e \<and> ss_status s \<in> {SActive, SWarmup}
       \<and> 0 < ss_weight s \<and> el_weight e = ss_weight s \<and> map_of latest (el_sourceId e) = Some r
       \<and> r \<in> set (ci_readings inp) \<and> rs_sourceId r = el_sourceId e \<and> rs_signature r \<noteq> SigFailed
       \<and> ci_at inp - qp_maxReadingAgeMs policy \<le> rs_observedAt r \<and> rs_observedAt r \<le> ci_at inp
       \<and> el_readingId e = Some (rs_readingId r)"
proof -
  from elig_origin [OF assms(1)] obtain s where s: "s \<in> set (ci_sources inp)"
      "el_base e = el_base (source_eligibility latest s)" by (auto simp: latest_def)
  note f = el_base_fields [OF s(2)]
  have "el_eligible (source_eligibility latest s)" using f(2) assms(2) by simp
  from source_eligibility_ok [OF this] obtain r where r: "map_of latest (ss_sourceId s) = Some r"
      "rs_signature r \<noteq> SigFailed" "el_readingId (source_eligibility latest s) = Some (rs_readingId r)"
      "ss_status s \<in> {SActive, SWarmup}" "0 < ss_weight s" "el_weight (source_eligibility latest s) = ss_weight s"
    by blast
  from latestBySource_mem [OF map_of_SomeD [OF r(1) [unfolded latest_def]]] r s(1) f show ?thesis
    by (intro exI [of _ s] exI [of _ r]) auto
qed

lemma eligible_weight_nonneg:
  assumes "e \<in> set (applyPenalties lc ps (raw_eligibility lc inp policy))" "el_eligible e" "\<forall>p \<in> set ps. 0 \<le> pp_factor p"
  shows "0 \<le> el_effectiveWeight e"
proof -
  have w: "0 < el_weight e" using eligible_source [OF assms(1,2)] by auto
  have raw: "\<forall>x \<in> set (raw_eligibility lc inp policy).
      el_independent x \<and> el_effectiveWeight x = (if el_eligible x then el_weight x else 0)"
    by (auto simp: raw_eligibility_def)
  have "0 \<le> round6 (el_weight e * pp_factor p)" if "p \<in> set ps" for p
  proof -
    have "0 \<le> el_weight e * pp_factor p" using w assms(3) that by simp
    then show ?thesis by (simp add: round6_def)
  qed
  with fold_penalties_weights [OF raw] assms(1,2) w show ?thesis
    unfolding applyPenalties_def by fastforce
qed

definition backed :: "consensus_input \<Rightarrow> quorum_policy \<Rightarrow> contributing_reading \<Rightarrow> bool" where
  "backed inp policy c \<longleftrightarrow>
     (\<exists>s \<in> set (ci_sources inp). ss_sourceId s = ct_sourceId c \<and> ss_status s \<in> {SActive, SWarmup} \<and> 0 < ss_weight s)
   \<and> (\<exists>rd \<in> set (ci_readings inp). rs_sourceId rd = ct_sourceId c \<and> rs_readingId rd = ct_readingId c
          \<and> rs_value rd = ct_value c \<and> rs_signature rd \<noteq> SigFailed
          \<and> ci_at inp - qp_maxReadingAgeMs policy \<le> rs_observedAt rd \<and> rs_observedAt rd \<le> ci_at inp)"

lemma contributing_backed:
  assumes "computeConsensus lc S inp = Inr r" "ci_policy inp = Some policy" "c \<in> set (cr_contributing r)"
  shows "backed inp policy c"
proof -
  note cp = computeConsensus_policy [OF assms(1,2)]
  from assms(3) obtain e where e: "e \<in> set (applyPenalties lc (ci_penalties inp) (raw_eligibility lc inp policy))" "el_eligible e"
      "c = contribution (latestBySource (ci_at inp) (ci_at inp - qp_maxReadingAgeMs policy) (ci_readings inp)) e"
    by (auto simp: cp(1,2))
  from eligible_source [OF e(1,2)] show ?thesis by (auto simp: e(3) contribution_def backed_def)
qed

text \<open>C7. A governed decision is backed by its policy. When an evaluation reaches a decision, at
  least \<open>minSources\<close> independent eligible sources contribute and their effective weight reaches
  \<open>minTotalWeight\<close>. Every contributor is an active or warming source with positive weight,
  represented by a reading of its own inside the policy window whose signature did not fail.
  The value is one of the contributed values, and neither the contributors below it nor those
  above it hold more than half of the weight. An evaluation without a decision carries no
  value and never triggers.\<close>

theorem governed_decision_sound:
  assumes "collation lc" "computeConsensus lc S inp = Inr r" "ci_policy inp = Some policy"
    and "\<forall>p \<in> set (ci_penalties inp). 0 \<le> pp_factor p" "0 < qp_minSources policy"
  shows "(cr_outcome r = OutDecision \<longrightarrow>
            qp_minSources policy \<le> int (length (filter (\<lambda>c. ct_independent c = Some True) (cr_contributing r)))
          \<and> qp_minTotalWeight policy \<le> weight_of (cr_contributing r)
          \<and> (\<exists>v. cr_value r = Some v \<and> cr_triggered r = triggers (qp_trigger policy) v
               \<and> v \<in> ct_value ` set (cr_contributing r)
               \<and> 2 * weight_of (filter (\<lambda>c. ct_value c < v) (cr_contributing r)) \<le> weight_of (cr_contributing r)
               \<and> 2 * weight_of (filter (\<lambda>c. v < ct_value c) (cr_contributing r)) \<le> weight_of (cr_contributing r)))
       \<and> (cr_outcome r \<noteq> OutDecision \<longrightarrow> cr_value r = None \<and> \<not> cr_triggered r)
       \<and> (\<forall>c \<in> set (cr_contributing r). backed inp policy c)"
proof (intro conjI impI)
  note cp = computeConsensus_policy [OF assms(2,3)]
  show "\<forall>c \<in> set (cr_contributing r). backed inp policy c"
    using contributing_backed [OF assms(2,3)] by blast
  assume d: "cr_outcome r = OutDecision"
  have n: "length (filter (\<lambda>c. ct_independent c = Some True) (cr_contributing r))
      = length (filter el_independent (filter el_eligible (cr_eligibility r)))"
    by (simp add: cp(2) filter_map comp_def contribution_def)
  then show ms: "qp_minSources policy \<le> int (length (filter (\<lambda>c. ct_independent c = Some True) (cr_contributing r)))"
    using cp(3) [OF d] by simp
  show "qp_minTotalWeight policy \<le> weight_of (cr_contributing r)" using cp(3) [OF d] by simp
  have ne: "cr_contributing r \<noteq> []" using ms assms(5) by auto
  have nn: "\<forall>c \<in> set (cr_contributing r). 0 \<le> ct_effectiveWeight c"
    using eligible_weight_nonneg [OF _ _ assms(4), of _ lc inp policy] by (auto simp: cp(1,2) contribution_def)
  from weightedMedian_spec [OF assms(1) ne nn] cp(3) [OF d]
  show "\<exists>v. cr_value r = Some v \<and> cr_triggered r = triggers (qp_trigger policy) v
               \<and> v \<in> ct_value ` set (cr_contributing r)
               \<and> 2 * weight_of (filter (\<lambda>c. ct_value c < v) (cr_contributing r)) \<le> weight_of (cr_contributing r)
               \<and> 2 * weight_of (filter (\<lambda>c. v < ct_value c) (cr_contributing r)) \<le> weight_of (cr_contributing r)"
    by fastforce
qed (use computeConsensus_policy(4) [OF assms(2,3)] in simp_all)

text \<open>C13. Suspected mirrors do not corroborate each other: of a penalised pair of eligible
  sources at most one counts as independent, and a source that is not independent weighs what
  one of the penalties leaves of its weight.\<close>

theorem mirrors_not_independent:
  assumes "computeConsensus lc S inp = Inr r" "ci_policy inp = Some policy"
    and "distinct (map ss_sourceId (ci_sources inp))" "p \<in> set (ci_penalties inp)"
    and "a \<in> set (cr_eligibility r)" "el_sourceId a = pp_sourceA p" "el_eligible a"
    and "b \<in> set (cr_eligibility r)" "el_sourceId b = pp_sourceB p" "el_eligible b"
  shows "\<not> (el_independent a \<and> el_independent b)
       \<and> (\<forall>e \<in> set (cr_eligibility r). \<not> el_independent e \<longrightarrow>
             (\<exists>q \<in> set (ci_penalties inp). el_effectiveWeight e = round6 (el_weight e * pp_factor q)))"
proof -
  note cp = computeConsensus_policy [OF assms(1,2)]
  let ?raw = "raw_eligibility lc inp policy" and ?fin = "cr_eligibility r"
  obtain ps where ps: "?fin = fold apply_penalty ps ?raw" "set ps = set (ci_penalties inp)"
    using cp(1) by (simp add: applyPenalties_def)
  have base: "map el_base ?fin = map el_base ?raw" unfolding ps(1) by (rule fold_penalties_base)
  have "mset (map el_sourceId ?raw) = mset (map ss_sourceId (ci_sources inp))"
    by (simp add: raw_eligibility_def comp_def)
  from mset_eq_imp_distinct_iff [OF this] have "distinct (map el_sourceId ?raw)" using assms(3) by simp
  moreover have "map el_sourceId ?fin = map el_sourceId ?raw"
    using arg_cong [OF base, of "map el_sourceId"] by (simp add: el_base_def comp_def)
  ultimately have d: "distinct (map el_sourceId ?fin)" by simp
  obtain i where i: "last_index (\<lambda>y. el_sourceId y = pp_sourceA p) ?fin = Some i" "i < length ?fin" "?fin ! i = a"
    using last_index_distinct [OF d assms(5)] unfolding assms(6) by blast
  obtain j where j: "last_index (\<lambda>y. el_sourceId y = pp_sourceB p) ?fin = Some j" "j < length ?fin" "?fin ! j = b"
    using last_index_distinct [OF d assms(8)] unfolding assms(9) by blast
  have "el_eligible (?raw ! i)" "el_eligible (?raw ! j)"
    using el_base_fields(2) [OF nth_base [OF base i(2)]] el_base_fields(2) [OF nth_base [OF base j(2)]] i(3) j(3) assms(7,10)
    by simp_all
  with fold_penalties_pair [of p ps ?raw i j] i(1) j(1) assms(4)
  have "\<not> el_independent (?fin ! i) \<or> \<not> el_independent (?fin ! j)"
    by (simp add: ps last_index_base [OF base, unfolded ps(1)])
  then have "\<not> el_independent a \<or> \<not> el_independent b" by (simp only: i(3) j(3))
  moreover have raw: "\<forall>x \<in> set ?raw. el_independent x \<and> el_effectiveWeight x = (if el_eligible x then el_weight x else 0)"
    by (auto simp: raw_eligibility_def)
  ultimately show ?thesis using fold_penalties_weights [OF raw, of ps] ps by auto
qed

section \<open>A governed round\<close>

definition src :: "string \<Rightarrow> rat \<Rightarrow> source_state" where
  "src i w = \<lparr>ss_sourceId = i, ss_providerId = i, ss_feedId = ''f'', ss_version = 1, ss_status = SActive, ss_weight = w,
              ss_retentionDays = 30, ss_credentialRef = None, ss_declaredUpstream = None, ss_effectiveFrom = 0\<rparr>"

definition rdg :: "string \<Rightarrow> rat \<Rightarrow> reading_state" where
  "rdg i v = \<lparr>rs_readingId = i, rs_feedId = ''f'', rs_sourceId = i, rs_value = v, rs_observedAt = 90, rs_ledgerSeq = None,
              rs_payloadHash = None, rs_signature = SigVerified, rs_seq = 1\<rparr>"

definition sample_quorum :: quorum_policy where
  "sample_quorum = \<lparr>qp_feedId = ''f'', qp_version = 1, qp_minSources = 2, qp_expectedSources = 3, qp_minTotalWeight = 2,
                    qp_maxReadingAgeMs = 60, qp_trigger = \<lparr>tr_op = OpLt, tr_threshold = 95\<rparr>, qp_effectiveFrom = 0\<rparr>"

definition sample_input :: consensus_input where
  "sample_input = \<lparr>ci_feedId = ''f'', ci_at = 100, ci_policy = Some sample_quorum,
     ci_sources = [src ''a'' 1, src ''b'' 1, src ''c'' 1], ci_readings = [rdg ''a'' 90, rdg ''b'' 91, rdg ''c'' 99],
     ci_penalties = [\<lparr>pp_sourceA = ''a'', pp_sourceB = ''b'', pp_factor = 1 / 4\<rparr>]\<rparr>"

lemma collation_le: "collation (\<le>)"
  unfolding collation_def using order_trans linear by metis

lemma sample_input_decides:
  "\<exists>r. computeConsensus (\<le>) (\<lambda>_. ''n'') sample_input = Inr r \<and> cr_outcome r = OutDecision \<and> cr_value r = Some 91
     \<and> (\<exists>a b c. cr_eligibility r = [a, b, c] \<and> el_sourceId a = ''a'' \<and> el_eligible a \<and> el_sourceId b = ''b'' \<and> el_eligible b)"
proof -
  have "case computeConsensus (\<le>) (\<lambda>_. ''n'') sample_input of Inl _ \<Rightarrow> False
        | Inr r \<Rightarrow> cr_outcome r = OutDecision \<and> cr_value r = Some 91
            \<and> (case cr_eligibility r of [a, b, c] \<Rightarrow> el_sourceId a = ''a'' \<and> el_eligible a \<and> el_sourceId b = ''b'' \<and> el_eligible b | _ \<Rightarrow> False)"
    by code_simp
  then show ?thesis by (auto split: sum.splits list.splits)
qed

theorem governed_decision_sound_witness:
  "\<exists>r. computeConsensus (\<le>) (\<lambda>_. ''n'') sample_input = Inr r \<and> cr_outcome r = OutDecision
     \<and> 2 \<le> length (filter (\<lambda>c. ct_independent c = Some True) (cr_contributing r))
     \<and> 2 * weight_of (filter (\<lambda>c. ct_value c < 91) (cr_contributing r)) \<le> weight_of (cr_contributing r)"
proof -
  obtain r where r: "computeConsensus (\<le>) (\<lambda>_. ''n'') sample_input = Inr r" "cr_outcome r = OutDecision" "cr_value r = Some 91"
    using sample_input_decides by blast
  have s: "ci_policy sample_input = Some sample_quorum" "\<forall>p \<in> set (ci_penalties sample_input). 0 \<le> pp_factor p"
      "0 < qp_minSources sample_quorum" "qp_minSources sample_quorum = 2"
    by (simp_all add: sample_input_def sample_quorum_def)
  from governed_decision_sound [OF collation_le r(1) s(1-3)] r s(4) show ?thesis by auto
qed

theorem mirrors_not_independent_witness:
  "\<exists>r a b. computeConsensus (\<le>) (\<lambda>_. ''n'') sample_input = Inr r \<and> a \<in> set (cr_eligibility r) \<and> b \<in> set (cr_eligibility r)
     \<and> el_sourceId a = ''a'' \<and> el_sourceId b = ''b'' \<and> \<not> (el_independent a \<and> el_independent b)"
proof -
  obtain r a b c where r: "computeConsensus (\<le>) (\<lambda>_. ''n'') sample_input = Inr r" "cr_eligibility r = [a, b, c]"
      "el_sourceId a = ''a''" "el_eligible a" "el_sourceId b = ''b''" "el_eligible b"
    using sample_input_decides by blast
  have "\<not> (el_independent a \<and> el_independent b)"
    using mirrors_not_independent [OF r(1), of sample_quorum "hd (ci_penalties sample_input)" a b] r(2-6)
    by (simp add: sample_input_def src_def)
  with r show ?thesis by (intro exI [of _ r] exI [of _ a] exI [of _ b]) simp
qed

end
