(* ===== verification/Reconstruction.thy ===== *)
theory Reconstruction
  imports Consensus_Engine
begin

text \<open>
  Reconstruction of the consensus state of a feed at a past instant
  (\<open>oracle/consensus/reconstruction.ts\<close>). The printing of a time (\<open>iso8601\<close>), of a number (\<open>S\<close>)
  and the parsing of a date (\<open>date_parse\<close>, \<open>None\<close> for \<open>NaN\<close>) are arguments. The code compares
  two summaries by their canonical JSON text; the model compares the summaries, with a missing
  \<open>independent\<close> flag read as true on both sides.
\<close>

record reconstruction_query =
  rq_feedId :: string
  rq_at :: "time_ms option"
  rq_ledgerSeq :: "int option"

record decision_summary =
  dm_outcome :: outcome
  dm_value :: "rat option"
  dm_triggered :: bool
  dm_reason :: string
  dm_policyVersion :: "int option"
  dm_contributing :: "contributing_reading list"

record reconstructed_reading =
  rr_readingId :: string
  rr_sourceId :: string
  rr_value :: rat
  rr_observedAt :: time_ms
  rr_ledgerSeq :: "int option"
  rr_payloadHash :: "string option"
  rr_signature :: signature_status

record recorded_decision =
  rc_decisionId :: string
  rc_at :: time_ms
  rc_atIso :: string
  rc_summary :: decision_summary

datatype consistency = MatchesRecorded | DiffersFromRecorded | NoDecisionRecordedAtT

record reconstructed_state =
  rt_queryFeed :: string
  rt_queryAt :: "string option"
  rt_queryLedgerSeq :: "int option"
  rt_resolvedAt :: "time_ms option"
  rt_resolvedAtIso :: "string option"
  rt_knowledgeCutoffSeq :: "int option"
  rt_quorumPolicy :: "(quorum_policy \<times> time_ms) option"
  rt_penalties :: "(string \<times> string \<times> string \<times> rat \<times> rat \<times> time_ms) list"
  rt_sources :: "(eligibility \<times> string \<times> time_ms) list"
  rt_contributing :: "reconstructed_reading list"
  rt_decision :: decision_summary
  rt_recorded :: "recorded_decision option"
  rt_consistency :: consistency

section \<open>The query\<close>

definition feed_char :: "char \<Rightarrow> bool" where
  "feed_char c \<longleftrightarrow>
     (let n = (of_char c :: nat) in is_digit c \<or> 65 \<le> n \<and> n \<le> 90 \<or> 97 \<le> n \<and> n \<le> 122) \<or> c \<in> set ''_.:-''"

definition date_prefix :: "string \<Rightarrow> bool" where
  "date_prefix s \<longleftrightarrow>
     length s \<ge> 11 \<and> list_all is_digit (take 4 s) \<and> s ! 4 = CHR ''-'' \<and> list_all is_digit (take 2 (drop 5 s))
   \<and> s ! 7 = CHR ''-'' \<and> list_all is_digit (take 2 (drop 8 s)) \<and> s ! 10 = CHR ''T''"

definition parseReconstructionQuery ::
  "(string \<Rightarrow> time_ms option) \<Rightarrow> string \<Rightarrow> string option \<Rightarrow> string option \<Rightarrow> reconstruction_query result" where
  "parseReconstructionQuery date_parse feedId raw_at raw_ledger =
     (let hasAt = raw_at \<noteq> None \<and> raw_at \<noteq> Some []; hasLedger = raw_ledger \<noteq> None \<and> raw_ledger \<noteq> Some [] in
      if feedId = [] \<or> \<not> (length feedId \<le> 80 \<and> list_all feed_char feedId) then Inl (Err ''invalid feed id'')
      else if hasAt = hasLedger then Inl (Err ''provide exactly one of at (ISO-8601 timestamp) or ledger (sequence)'')
      else if hasAt
      then (case date_parse (the raw_at) of
              Some ms \<Rightarrow> if date_prefix (the raw_at)
                         then Inr \<lparr>rq_feedId = feedId, rq_at = Some ms, rq_ledgerSeq = None\<rparr>
                         else Inl (Err ''at is not an ISO-8601 timestamp'')
            | None \<Rightarrow> Inl (Err ''at is not an ISO-8601 timestamp''))
      else if \<not> list_all is_digit (the raw_ledger) then Inl (Err ''ledger must be a non-negative integer'')
      else Inr \<lparr>rq_feedId = feedId, rq_at = None, rq_ledgerSeq = Some (int (dec_value (the raw_ledger)))\<rparr>)"

section \<open>The reconstruction\<close>

definition ledgerSeq_of :: "evidence_event \<Rightarrow> int option" where
  "ledgerSeq_of e = (case ev_body e of ReadingE r \<Rightarrow> rd_ledgerSeq r | DecisionE d \<Rightarrow> de_ledgerSeq d | _ \<Rightarrow> None)"

definition visible_upto :: "int \<Rightarrow> evidence_event \<Rightarrow> bool" where
  "visible_upto L e = (case ledgerSeq_of e of None \<Rightarrow> True | Some l \<Rightarrow> l \<le> L)"

definition visible :: "ledger \<Rightarrow> reconstruction_query \<Rightarrow> ledger" where
  "visible events q = (case rq_ledgerSeq q of None \<Rightarrow> events | Some L \<Rightarrow> filter (visible_upto L) events)"

definition stamped_max :: "int \<Rightarrow> evidence_event \<Rightarrow> time_ms option \<Rightarrow> time_ms option" where
  "stamped_max L e t =
     (case ledgerSeq_of e of
        Some l \<Rightarrow> if l \<le> L then Some (case t of None \<Rightarrow> ev_recordedAt e | Some u \<Rightarrow> max u (ev_recordedAt e)) else t
      | None \<Rightarrow> t)"

definition resolve_time :: "ledger \<Rightarrow> reconstruction_query \<Rightarrow> time_ms option" where
  "resolve_time events q =
     (case rq_ledgerSeq q of None \<Rightarrow> rq_at q | Some L \<Rightarrow> fold (stamped_max L) (visible events q) None)"

definition noDecision :: "string \<Rightarrow> decision_summary" where
  "noDecision reason = \<lparr>dm_outcome = OutNoDecision, dm_value = None, dm_triggered = False, dm_reason = reason,
                        dm_policyVersion = None, dm_contributing = []\<rparr>"

definition summary_of :: "decision \<Rightarrow> decision_summary" where
  "summary_of d = \<lparr>dm_outcome = de_outcome d, dm_value = de_value d, dm_triggered = de_triggered d,
                   dm_reason = de_reason d, dm_policyVersion = de_policyVersion d, dm_contributing = de_contributing d\<rparr>"

definition result_summary :: "consensus_result \<Rightarrow> decision_summary" where
  "result_summary r = \<lparr>dm_outcome = cr_outcome r, dm_value = cr_value r, dm_triggered = cr_triggered r,
                       dm_reason = cr_reason r, dm_policyVersion = cr_policyVersion r, dm_contributing = cr_contributing r\<rparr>"

definition summarise :: "decision_summary \<Rightarrow> decision_summary" where
  "summarise d = d\<lparr>dm_contributing := map (\<lambda>c. c\<lparr>ct_independent := Some (case ct_independent c of None \<Rightarrow> True | Some b \<Rightarrow> b)\<rparr>)
                                        (dm_contributing d)\<rparr>"

definition penalty_pair :: "independence_penalty event \<Rightarrow> pair_penalty" where
  "penalty_pair p = \<lparr>pp_sourceA = ip_sourceA (ev_body p), pp_sourceB = ip_sourceB (ev_body p), pp_factor = ip_factor (ev_body p)\<rparr>"

text \<open>The input of the engine at a time, from the ledger as known then.\<close>

definition input_at :: "(string \<Rightarrow> string \<Rightarrow> bool) \<Rightarrow> ledger \<Rightarrow> string \<Rightarrow> time_ms \<Rightarrow> consensus_input" where
  "input_at lc known feedId t =
     \<lparr>ci_feedId = feedId, ci_at = t, ci_policy = map_option ev_body (policyAt known feedId t),
      ci_sources = sourcesAt lc known feedId t, ci_readings = readingsAt known feedId t None,
      ci_penalties = map penalty_pair (penaltiesAt known feedId t)\<rparr>"

definition reconstruct_reading :: "(string, reading_state) jmap \<Rightarrow> contributing_reading \<Rightarrow> reconstructed_reading" where
  "reconstruct_reading by_id c =
     (let r = the (map_of by_id (ct_readingId c)) in
      \<lparr>rr_readingId = rs_readingId r, rr_sourceId = rs_sourceId r, rr_value = rs_value r, rr_observedAt = rs_observedAt r,
       rr_ledgerSeq = rs_ledgerSeq r, rr_payloadHash = rs_payloadHash r, rr_signature = rs_signature r\<rparr>)"

definition reconstruct_known ::
  "(string \<Rightarrow> string \<Rightarrow> bool) \<Rightarrow> (rat \<Rightarrow> string) \<Rightarrow> (time_ms \<Rightarrow> string) \<Rightarrow> ledger \<Rightarrow> reconstruction_query \<Rightarrow> time_ms
     \<Rightarrow> reconstructed_state result" where
  "reconstruct_known lc S iso8601 known q t =
     (let inp = input_at lc known (rq_feedId q) t;
          by_source = fold (\<lambda>s m. js_set (ss_sourceId s) s m) (ci_sources inp) [];
          by_id = fold (\<lambda>r m. js_set (rs_readingId r) r m) (ci_readings inp) []
      in then_result (computeConsensus lc S inp) (\<lambda>res.
        let recorded = decisionInForceAt known (rq_feedId q) t in
        Inr \<lparr>rt_queryFeed = rq_feedId q, rt_queryAt = map_option iso8601 (rq_at q), rt_queryLedgerSeq = rq_ledgerSeq q,
             rt_resolvedAt = Some t, rt_resolvedAtIso = Some (iso8601 t),
             rt_knowledgeCutoffSeq = (if known = [] then None else Some (ev_seq (last known))),
             rt_quorumPolicy = map_option (\<lambda>p. (ev_body p, ev_recordedAt p)) (policyAt known (rq_feedId q) t),
             rt_penalties = map (\<lambda>p. (ip_penaltyId (ev_body p), ip_sourceA (ev_body p), ip_sourceB (ev_body p),
                                      ip_factor (ev_body p), ip_matchRatio (ev_body p), ev_recordedAt p))
                                (penaltiesAt known (rq_feedId q) t),
             rt_sources = map (\<lambda>e. (e, (case map_of by_source (el_sourceId e) of None \<Rightarrow> [] | Some s \<Rightarrow> ss_providerId s),
                                       (case map_of by_source (el_sourceId e) of None \<Rightarrow> 0 | Some s \<Rightarrow> ss_effectiveFrom s)))
                              (cr_eligibility res),
             rt_contributing = map (reconstruct_reading by_id) (cr_contributing res),
             rt_decision = (result_summary res)\<lparr>dm_reason :=
                (if ci_sources inp = [] \<and> ci_policy inp \<noteq> None then ''no_sources_registered_at_t'' else cr_reason res)\<rparr>,
             rt_recorded = map_option (\<lambda>d. \<lparr>rc_decisionId = de_decisionId (ev_body d), rc_at = de_at (ev_body d),
                                            rc_atIso = iso8601 (de_at (ev_body d)), rc_summary = summary_of (ev_body d)\<rparr>) recorded,
             rt_consistency = (case recorded of
                None \<Rightarrow> NoDecisionRecordedAtT
              | Some d \<Rightarrow> if de_at (ev_body d) = t
                          then if summarise (result_summary res) = summarise (summary_of (ev_body d))
                               then MatchesRecorded else DiffersFromRecorded
                          else NoDecisionRecordedAtT)\<rparr>))"

definition reconstructConsensusState ::
  "(string \<Rightarrow> string \<Rightarrow> bool) \<Rightarrow> (rat \<Rightarrow> string) \<Rightarrow> (time_ms \<Rightarrow> string) \<Rightarrow> ledger \<Rightarrow> reconstruction_query
     \<Rightarrow> reconstructed_state result" where
  "reconstructConsensusState lc S iso8601 events q =
     (case resolve_time events q of
        None \<Rightarrow> Inr \<lparr>rt_queryFeed = rq_feedId q, rt_queryAt = map_option iso8601 (rq_at q), rt_queryLedgerSeq = rq_ledgerSeq q,
                     rt_resolvedAt = None, rt_resolvedAtIso = None, rt_knowledgeCutoffSeq = None, rt_quorumPolicy = None,
                     rt_penalties = [], rt_sources = [], rt_contributing = [],
                     rt_decision = noDecision (''no_evidence_at_or_before_ledger_''
                        @ (case rq_ledgerSeq q of None \<Rightarrow> ''undefined'' | Some L \<Rightarrow> big_to_string L)),
                     rt_recorded = None, rt_consistency = NoDecisionRecordedAtT\<rparr>
      | Some t \<Rightarrow> reconstruct_known lc S iso8601 (knownAt (visible events q) t) q t)"

section \<open>Reconstruction is stable\<close>

definition settled_for :: "ledger \<Rightarrow> reconstruction_query \<Rightarrow> bool" where
  "settled_for later q \<longleftrightarrow>
     (case rq_ledgerSeq q of
        Some L \<Rightarrow> \<forall>e \<in> set later. case ledgerSeq_of e of None \<Rightarrow> True | Some l \<Rightarrow> L < l
      | None \<Rightarrow> (case rq_at q of None \<Rightarrow> True | Some t \<Rightarrow> \<forall>e \<in> set later. t < ev_recordedAt e))"

lemma stamped_max_bound:
  "fold (stamped_max L) es acc = Some t \<Longrightarrow> (\<forall>u. acc = Some u \<longrightarrow> u < b) \<Longrightarrow> \<forall>e \<in> set es. ev_recordedAt e < b \<Longrightarrow> t < b"
proof (induction es arbitrary: acc)
  case (Cons e es)
  have "\<forall>u. stamped_max L e acc = Some u \<longrightarrow> u < b"
    using Cons.prems(2,3) by (auto simp: stamped_max_def split: option.splits if_splits)
  with Cons show ?case by simp
qed auto

lemma resolve_time_append:
  assumes "settled_for later q"
  shows "resolve_time (events @ later) q = resolve_time events q"
proof (cases "rq_ledgerSeq q")
  case (Some L)
  have "stamped_max L e = id" if "e \<in> set (filter (visible_upto L) later)" for e
    using that assms Some
    by (auto simp: settled_for_def stamped_max_def visible_upto_def fun_eq_iff split: option.splits)
  then have "fold (stamped_max L) (filter (visible_upto L) later) acc = acc" for acc
    by (induction later) (auto simp: fold_id)
  with Some show ?thesis by (simp add: resolve_time_def visible_def)
qed (simp add: resolve_time_def)

lemma known_append:
  assumes "settled_for later q" "ledger_inv (events @ later)" "resolve_time events q = Some t"
  shows "knownAt (visible (events @ later) q) t = knownAt (visible events q) t"
proof -
  have "t < ev_recordedAt e" if "e \<in> set later" for e
  proof (cases "rq_ledgerSeq q")
    case None
    with assms(1,3) that show ?thesis by (auto simp: settled_for_def resolve_time_def)
  next
    case (Some L)
    from assms(2) that have "\<forall>x \<in> set events. ev_recordedAt x < ev_recordedAt e"
      by (auto simp: ledger_inv_def sorted_wrt_append)
    then have "\<forall>x \<in> set (visible events q). ev_recordedAt x < ev_recordedAt e"
      using Some by (auto simp: visible_def)
    with assms(3) Some show ?thesis
      by (intro stamped_max_bound [of L "visible events q" None t]) (simp_all add: resolve_time_def)
  qed
  then have "knownAt (filter P later) t = []" for P by (auto simp: knownAt_def filter_empty_conv not_le)
  from this [of "\<lambda>_. True"] this show ?thesis
    by (auto simp: visible_def knownAt_append split: option.splits)
qed

text \<open>C12. The past does not change: whatever is appended to the ledger later, a reconstruction
  query keeps its answer, byte for byte, once the events the query can see are recorded. For a
  query by time these are the events recorded up to that time; for a query by ledger sequence
  it is enough that no later event is stamped with a sequence at or below the one asked for.\<close>

theorem reconstruction_stable:
  assumes "ledger_inv (events @ later)" "settled_for later q"
  shows "reconstructConsensusState lc S iso8601 (events @ later) q = reconstructConsensusState lc S iso8601 events q"
proof (cases "resolve_time events q")
  case (Some t)
  then show ?thesis
    using resolve_time_append [OF assms(2), of events] known_append [OF assms(2,1) Some]
    by (simp add: reconstructConsensusState_def)
qed (use resolve_time_append [OF assms(2), of events] in \<open>simp add: reconstructConsensusState_def\<close>)

section \<open>A recorded decision is reproduced\<close>

lemma input_at_decision:
  assumes "ev_body e = DecisionE d"
  shows "input_at lc (lg @ [e]) f t = input_at lc lg f t"
  using assms
  by (simp add: input_at_def policyAt_def latest_policy_def sourcesAt_def latest_source_def readingsAt_def
      signatureResultsAt_def signature_result_def reading_at_def penaltiesAt_def penalty_step_def)

lemma decision_found:
  assumes "decisionInForceAt lg f t = Some g"
  shows "de_at (ev_body g) \<le> t \<and> (\<exists>x \<in> set lg. ev_seq g = ev_seq x)"
  using assms
proof (induction lg arbitrary: g rule: rev_induct)
  case Nil
  then show ?case by (simp add: decisionInForceAt_def)
next
  case (snoc x lg)
  then show ?case
    by (fastforce simp: decisionInForceAt_def later_decision_def with_body_def
        split: event_body.splits option.splits if_splits)
qed

lemma decision_in_force_snoc:
  assumes "ledger_inv (lg @ [e])" "ev_body e = DecisionE d" "de_feedId d = f" "de_at d = t" "ev_recordedAt e = t"
  shows "decisionInForceAt (lg @ [e]) f t = Some (with_body e d)"
proof -
  have "ev_seq g < ev_seq e \<and> de_at (ev_body g) \<le> t" if "decisionInForceAt lg f t = Some g" for g
  proof -
    from decision_found [OF that] obtain x where x: "de_at (ev_body g) \<le> t" "x \<in> set lg" "ev_seq g = ev_seq x" by blast
    then have "ev_seq x \<in> set (map ev_seq lg)" by simp
    moreover have "map ev_seq lg = map int [1..<Suc (length lg)]" "ev_seq e = int (length lg) + 1"
      using assms(1) by (auto simp: ledger_inv_def)
    ultimately show ?thesis using x by auto
  qed
  then show ?thesis
    using assms(2-5) by (auto simp: decisionInForceAt_def later_decision_def split: option.splits)
qed

lemma known_at_record:
  assumes "ledger_inv (lg @ e # later)" "ev_recordedAt e = t"
  shows "knownAt (lg @ e # later) t = lg @ [e]"
proof -
  have "\<forall>x \<in> set lg. ev_recordedAt x \<le> t" "\<forall>x \<in> set later. \<not> ev_recordedAt x \<le> t"
    using assms by (auto simp: ledger_inv_def sorted_wrt_append not_le)
  then show ?thesis using assms(2) by (simp add: knownAt_def)
qed

text \<open>C11. A decision that was computed from the ledger at its reserved timestamp and recorded with
  it is reproducible from that timestamp alone: at any later time, whatever was appended in
  the meantime, the reconstruction at that timestamp returns the recorded decision and reports
  that the recomputed one matches it.\<close>

theorem recorded_decision_reproduced:
  assumes inv: "ledger_inv lg" and t: "t = reserveTimestamp clock lg"
    and res: "computeConsensus lc S (input_at lc lg f t) = Inr res"
    and d: "de_feedId d = f" "de_at d = t" "summary_of d = result_summary res"
    and e: "e = stamp clock (DecisionE d) (Some t) lg" and later: "ledger_inv (lg @ e # later)"
    and q: "q = \<lparr>rq_feedId = f, rq_at = Some t, rq_ledgerSeq = None\<rparr>"
  shows "\<exists>st rd. reconstructConsensusState lc S iso8601 (lg @ e # later) q = Inr st
       \<and> rt_consistency st = MatchesRecorded \<and> rt_recorded st = Some rd
       \<and> rc_decisionId rd = de_decisionId d \<and> rc_summary rd = summary_of d"
proof -
  have et: "ev_recordedAt e = t" "ev_body e = DecisionE d"
    unfolding e t by (auto simp: stamp_def reserveTimestamp_def split: option.splits)
  have inv': "ledger_inv (lg @ [e])" unfolding e by (rule ledger_inv_stamp [OF inv])
  have k: "knownAt (visible (lg @ e # later) q) t = lg @ [e]"
    using known_at_record [OF later et(1)] by (simp add: visible_def q)
  have r: "resolve_time (lg @ e # later) q = Some t" by (simp add: resolve_time_def q)
  note f = decision_in_force_snoc [OF inv' et(2) d(1,2) et(1)]
  have qf: "rq_feedId q = f" by (simp add: q)
  show ?thesis
    using res d by (simp add: reconstructConsensusState_def r k reconstruct_known_def Let_def input_at_decision [OF et(2)]
        qf f with_body_def)
qed

section \<open>A recorded round\<close>

definition sample_ledger :: ledger where
  "sample_ledger =
     (let add = (\<lambda>b lg. lg @ [stamp 100 b None lg]);
          sv = (\<lambda>i. SourceVersionE \<lparr>sv_sourceId = i, sv_providerId = i, sv_feedId = ''f'', sv_version = 1, sv_status = SActive,
                  sv_weight = 1, sv_warmupUntil = None, sv_retentionDays = 30, sv_credentialRef = None,
                  sv_declaredUpstream = None, sv_effectiveFrom = 0\<rparr>);
          rd = (\<lambda>i v. ReadingE \<lparr>rd_readingId = i, rd_feedId = ''f'', rd_sourceId = i, rd_value = v, rd_observedAt = 90,
                  rd_ledgerSeq = Some 7, rd_payloadHash = None, rd_signature = SigVerified, rd_fingerprint = None\<rparr>)
      in add (rd ''b'' 91) (add (rd ''a'' 90) (add (sv ''b'') (add (sv ''a'') (add (QuorumPolicyE sample_quorum) [])))))"

lemma sample_ledger_inv: "ledger_inv sample_ledger"
  unfolding sample_ledger_def Let_def by (intro ledger_inv_stamp ledger_inv_Nil)

theorem reconstruction_stable_witness:
  "ledger_inv (sample_ledger @ [stamp 100 (HoldSettledE ''h'') None sample_ledger])
 \<and> reconstructConsensusState (\<le>) (\<lambda>_. ''n'') (\<lambda>_. ''d'') (sample_ledger @ [stamp 100 (HoldSettledE ''h'') None sample_ledger])
     \<lparr>rq_feedId = ''f'', rq_at = None, rq_ledgerSeq = Some 7\<rparr>
   = reconstructConsensusState (\<le>) (\<lambda>_. ''n'') (\<lambda>_. ''d'') sample_ledger \<lparr>rq_feedId = ''f'', rq_at = None, rq_ledgerSeq = Some 7\<rparr>"
proof -
  have i: "ledger_inv (sample_ledger @ [stamp 100 (HoldSettledE ''h'') None sample_ledger])"
    by (rule ledger_inv_stamp [OF sample_ledger_inv])
  have "settled_for [stamp 100 (HoldSettledE ''h'') None sample_ledger] \<lparr>rq_feedId = ''f'', rq_at = None, rq_ledgerSeq = Some 7\<rparr>"
    by (simp add: settled_for_def stamp_def ledgerSeq_of_def)
  from reconstruction_stable [OF i this] i show ?thesis by blast
qed

lemma sample_ledger_decides: "is_ok (computeConsensus (\<le>) (\<lambda>_. ''n'') (input_at (\<le>) sample_ledger ''f'' 105))"
  by code_simp

lemma sample_ledger_reserve: "reserveTimestamp 100 sample_ledger = 105"
  by code_simp

theorem recorded_decision_reproduced_witness:
  "\<exists>d e st. e = stamp 100 (DecisionE d) (Some 105) sample_ledger \<and> de_decisionId d = ''x''
     \<and> reconstructConsensusState (\<le>) (\<lambda>_. ''n'') (\<lambda>_. ''t'') (sample_ledger @ [e])
         \<lparr>rq_feedId = ''f'', rq_at = Some 105, rq_ledgerSeq = None\<rparr> = Inr st
     \<and> rt_consistency st = MatchesRecorded"
proof -
  obtain res where res: "computeConsensus (\<le>) (\<lambda>_. ''n'') (input_at (\<le>) sample_ledger ''f'' 105) = Inr res"
    using sample_ledger_decides by (auto simp: is_ok_iff)
  define d where "d = \<lparr>de_decisionId = ''x'', de_feedId = ''f'', de_at = 105, de_ledgerSeq = None, de_outcome = cr_outcome res,
    de_value = cr_value res, de_triggered = cr_triggered res, de_reason = cr_reason res,
    de_policyVersion = cr_policyVersion res, de_contributing = cr_contributing res\<rparr>"
  define e where "e = stamp 100 (DecisionE d) (Some 105) sample_ledger"
  have "ledger_inv (sample_ledger @ [e])" unfolding e_def by (rule ledger_inv_stamp [OF sample_ledger_inv])
  then obtain st where "reconstructConsensusState (\<le>) (\<lambda>_. ''n'') (\<lambda>_. ''t'') (sample_ledger @ [e])
         \<lparr>rq_feedId = ''f'', rq_at = Some 105, rq_ledgerSeq = None\<rparr> = Inr st" "rt_consistency st = MatchesRecorded"
    using recorded_decision_reproduced [OF sample_ledger_inv sample_ledger_reserve [symmetric] res _ _ _ e_def _ refl,
        of "[]" "\<lambda>_. ''t''"]
    by (auto simp: d_def summary_of_def result_summary_def)
  then show ?thesis by (intro exI [of _ d] exI [of _ e] exI [of _ st]) (simp add: e_def d_def)
qed

end
