(* ===== verification/Claim_Hold.thy ===== *)
theory Claim_Hold
  imports Evidence_Ledger Fixed_Point
begin

text \<open>
  Payout holds for triggered decisions with incomplete evidence
  (\<open>oracle/consensus/claim-hold.service.ts\<close>). All state is in the evidence ledger, so each
  method is a ledger computation; it may throw, and what it appended before stays. The
  consensus service is not part of the sources (\<open>consensus.service.ts\<close> is an empty file), so its
  two methods are arguments: \<open>he_isGoverned\<close> and \<open>he_decide\<close>. SHA-256 is \<open>he_sha256Hex\<close>.
\<close>

datatype hold_status = PayoutHeld | Released | Escalated | ApprovedHold | DeniedHold | SettledHold

record disposition_record =
  dr_disposition :: hold_disposition
  dr_actor :: string
  dr_note :: string
  dr_at :: time_ms

record claim_hold =
  ch_holdId :: string
  ch_policyId :: string
  ch_holder :: string
  ch_feedId :: string
  ch_decisionId :: string
  ch_currentDecisionId :: string
  ch_status :: hold_status
  ch_gaps :: "evidence_gap list"
  ch_reason :: string
  ch_placedAt :: time_ms
  ch_deadline :: time_ms
  ch_policyExpiresAt :: time_ms
  ch_escalation :: "escalation_reason option"
  ch_disposition :: "disposition_record option"
  ch_updatedAt :: time_ms

record hold_candidate =
  hc_policyId :: string
  hc_holder :: string
  hc_feedId :: string
  hc_policyExpiresAt :: time_ms

datatype gate_result = Proceed "string option" | Block string "string option"

definition COVERAGE_FEEDS :: "string list" where
  "COVERAGE_FEEDS = [''StablecoinDepeg'', ''MarketCrash'', ''LiquidationShield'', ''SmartContractRisk'', ''FlightDelay'']"

definition TERMINAL :: "hold_status set" where
  "TERMINAL = {SettledHold, DeniedHold}"

type_synonym holds = "(string, claim_hold) jmap"

section \<open>Folding the hold events\<close>

definition patch :: "holds \<Rightarrow> string \<Rightarrow> (claim_hold \<Rightarrow> claim_hold) \<Rightarrow> holds" where
  "patch hs i f = (case map_of hs i of None \<Rightarrow> hs | Some h \<Rightarrow> js_set i (f h) hs)"

definition place_hold :: "time_ms \<Rightarrow> hold_placed \<Rightarrow> claim_hold" where
  "place_hold rec_at p =
     \<lparr>ch_holdId = hp_holdId p, ch_policyId = hp_policyId p, ch_holder = hp_holder p, ch_feedId = hp_feedId p,
      ch_decisionId = hp_decisionId p, ch_currentDecisionId = hp_decisionId p, ch_status = PayoutHeld,
      ch_gaps = hp_gaps p, ch_reason = hp_reason p, ch_placedAt = rec_at, ch_deadline = hp_deadline p,
      ch_policyExpiresAt = hp_policyExpiresAt p, ch_escalation = None, ch_disposition = None, ch_updatedAt = rec_at\<rparr>"

definition disposed_status :: "hold_disposition \<Rightarrow> hold_status" where
  "disposed_status d = (case d of ApprovePayout \<Rightarrow> ApprovedHold | Deny \<Rightarrow> DeniedHold | ExtendHold \<Rightarrow> PayoutHeld)"

text \<open>A deadline of zero is falsy and does not extend the hold.\<close>

definition dispose_hold :: "time_ms \<Rightarrow> hold_disposition \<Rightarrow> string \<Rightarrow> string \<Rightarrow> time_ms option \<Rightarrow> claim_hold \<Rightarrow> claim_hold" where
  "dispose_hold rec_at d actor note deadline h =
     (let h' = h\<lparr>ch_status := disposed_status d,
                 ch_disposition := Some \<lparr>dr_disposition = d, dr_actor = actor, dr_note = note, dr_at = rec_at\<rparr>\<rparr>;
          h'' = (if d = ExtendHold \<and> deadline \<noteq> None \<and> deadline \<noteq> Some 0
                 then h'\<lparr>ch_deadline := the deadline, ch_escalation := None\<rparr> else h')
      in h''\<lparr>ch_updatedAt := rec_at\<rparr>)"

definition hold_event :: "evidence_event \<Rightarrow> holds \<Rightarrow> holds" where
  "hold_event e hs =
     (let rec_at = ev_recordedAt e in
      case ev_body e of
        HoldPlacedE p \<Rightarrow> js_set (hp_holdId p) (place_hold rec_at p) hs
      | HoldReevaluatedE i did gaps \<Rightarrow>
          patch hs i (\<lambda>h. h\<lparr>ch_currentDecisionId := did, ch_gaps := gaps, ch_reason := describeGaps gaps, ch_updatedAt := rec_at\<rparr>)
      | HoldReleasedE i did reason \<Rightarrow>
          patch hs i (\<lambda>h. h\<lparr>ch_status := Released, ch_currentDecisionId := did, ch_gaps := [], ch_reason := reason, ch_updatedAt := rec_at\<rparr>)
      | HoldEscalatedE i esc reason \<Rightarrow>
          patch hs i (\<lambda>h. h\<lparr>ch_status := Escalated, ch_escalation := Some esc, ch_reason := reason, ch_updatedAt := rec_at\<rparr>)
      | HoldDisposedE i d actor note deadline \<Rightarrow> patch hs i (dispose_hold rec_at d actor note deadline)
      | HoldSettledE i \<Rightarrow> patch hs i (\<lambda>h. h\<lparr>ch_status := SettledHold, ch_updatedAt := rec_at\<rparr>)
      | _ \<Rightarrow> hs)"

definition foldHolds :: "ledger \<Rightarrow> holds" where
  "foldHolds events = fold hold_event events []"

section \<open>Queries\<close>

definition list_holds :: "hold_status option \<Rightarrow> ledger \<Rightarrow> claim_hold list" where
  "list_holds st events =
     js_sort (\<lambda>a b. ch_placedAt a \<le> ch_placedAt b)
       (filter (\<lambda>h. case st of None \<Rightarrow> True | Some s \<Rightarrow> ch_status h = s) (js_values (foldHolds events)))"

definition get_hold :: "string \<Rightarrow> ledger \<Rightarrow> claim_hold result" where
  "get_hold i events =
     (case map_of (foldHolds events) i of None \<Rightarrow> Inl (NotFound (''unknown hold '' @ i)) | Some h \<Rightarrow> Inr h)"

definition pop :: "'a list \<Rightarrow> 'a option" where
  "pop xs = (if xs = [] then None else Some (last xs))"

definition activeHoldFor :: "string \<Rightarrow> ledger \<Rightarrow> claim_hold option" where
  "activeHoldFor policyId events =
     pop (filter (\<lambda>h. ch_policyId h = policyId \<and> ch_status h \<notin> TERMINAL) (list_holds None events))"

definition deniedHoldFor :: "string \<Rightarrow> ledger \<Rightarrow> claim_hold option" where
  "deniedHoldFor policyId events =
     pop (filter (\<lambda>h. ch_policyId h = policyId \<and> ch_status h = DeniedHold) (list_holds None events))"

section \<open>The service\<close>

record hold_env =
  he_persist :: "evidence_event \<Rightarrow> bool"
  he_lc :: "string \<Rightarrow> string \<Rightarrow> bool"
  he_sha256Hex :: "string \<Rightarrow> string"
  he_holdMaxDurationMs :: int
  he_isGoverned :: "string \<Rightarrow> ledger \<Rightarrow> bool result"
  he_decide :: "string \<Rightarrow> decision ledger_op"

definition append_ev :: "hold_env \<Rightarrow> time_ms \<Rightarrow> event_body \<Rightarrow> unit ledger_op" where
  "append_ev env clock b = l_bind (append_event (he_persist env) clock b None) (\<lambda>_. l_return ())"

definition audit :: "hold_env \<Rightarrow> time_ms \<Rightarrow> string \<Rightarrow> string \<Rightarrow> string \<Rightarrow> unit ledger_op" where
  "audit env clock action actor reason = append_ev env clock (AuditE action actor reason)"

definition assess :: "hold_env \<Rightarrow> time_ms \<Rightarrow> payload_store \<Rightarrow> decision \<Rightarrow> evidence_gap list ledger_op" where
  "assess env clock st d =
     l_read (\<lambda>lg. assessEvidenceCompleteness (he_lc env) lg d (ledger_now clock lg) (has_payload st))"

definition hold_id :: "hold_env \<Rightarrow> string \<Rightarrow> string \<Rightarrow> string" where
  "hold_id env policyId did = ''hold_'' @ take 20 (he_sha256Hex env (policyId @ '':'' @ did))"

definition place :: "hold_env \<Rightarrow> time_ms \<Rightarrow> hold_candidate \<Rightarrow> decision \<Rightarrow> evidence_gap list \<Rightarrow> claim_hold ledger_op" where
  "place env clock cand d gaps =
     (let i = hold_id env (hc_policyId cand) (de_decisionId d); reason = describeGaps gaps in
      l_bind (l_get (\<lambda>lg. append_ev env clock (HoldPlacedE
                \<lparr>hp_holdId = i, hp_policyId = hc_policyId cand, hp_holder = hc_holder cand, hp_feedId = hc_feedId cand,
                 hp_decisionId = de_decisionId d, hp_gaps = gaps, hp_reason = reason,
                 hp_deadline = ledger_now clock lg + he_holdMaxDurationMs env,
                 hp_policyExpiresAt = hc_policyExpiresAt cand\<rparr>))) (\<lambda>_.
      l_bind (audit env clock ''claim_hold.placed'' ''system'' reason) (\<lambda>_.
      l_read (get_hold i))))"

definition release_hold :: "hold_env \<Rightarrow> time_ms \<Rightarrow> claim_hold \<Rightarrow> decision \<Rightarrow> unit ledger_op" where
  "release_hold env clock h d =
     (let reason = ''evidence complete and verdict stands ('' @ de_decisionId d @ '': '' @ de_reason d @ '')'' in
      l_bind (append_ev env clock (HoldReleasedE (ch_holdId h) (de_decisionId d) reason)) (\<lambda>_.
      audit env clock ''claim_hold.released'' ''system'' reason))"

definition escalate_hold :: "hold_env \<Rightarrow> time_ms \<Rightarrow> claim_hold \<Rightarrow> escalation_reason \<Rightarrow> string \<Rightarrow> unit ledger_op" where
  "escalate_hold env clock h esc reason =
     l_bind (append_ev env clock (HoldEscalatedE (ch_holdId h) esc reason)) (\<lambda>_.
     audit env clock ''claim_hold.escalated'' ''system'' reason)"

fun hold_status_name :: "hold_status \<Rightarrow> string" where
  "hold_status_name PayoutHeld = ''payout_held''"
| "hold_status_name Released = ''released''"
| "hold_status_name Escalated = ''escalated''"
| "hold_status_name ApprovedHold = ''approved''"
| "hold_status_name DeniedHold = ''denied''"
| "hold_status_name SettledHold = ''settled''"

definition claim_is :: "claim_hold \<Rightarrow> string" where
  "claim_is h = ''claim is '' @ hold_status_name (ch_status h) @ '': '' @ ch_reason h"

text \<open>The body of the \<open>try\<close> block of \<open>gate\<close>, and the block that catches whatever it throws.\<close>

definition gate_body :: "hold_env \<Rightarrow> time_ms \<Rightarrow> payload_store \<Rightarrow> hold_candidate \<Rightarrow> gate_result ledger_op" where
  "gate_body env clock st cand = l_get (\<lambda>lg.
     case activeHoldFor (hc_policyId cand) lg of
       Some h \<Rightarrow>
         l_return (if ch_status h = Released \<or> ch_status h = ApprovedHold
                   then Proceed (Some (ch_holdId h)) else Block (claim_is h) (Some (ch_holdId h)))
     | None \<Rightarrow>
         (case deniedHoldFor (hc_policyId cand) lg of
            Some h \<Rightarrow> l_return (Block (''payout denied by operator ''
                        @ (case ch_disposition h of None \<Rightarrow> ''undefined'' | Some d \<Rightarrow> dr_actor d)) (Some (ch_holdId h)))
          | None \<Rightarrow>
              l_bind (l_read (he_isGoverned env (hc_feedId cand))) (\<lambda>governed.
              if \<not> governed then l_return (Proceed None)
              else l_bind (he_decide env (hc_feedId cand)) (\<lambda>d.
                if de_outcome d \<noteq> OutDecision
                then l_return (Block (''consensus produced no decision ('' @ de_reason d @ '')'') None)
                else if \<not> de_triggered d
                then l_return (Block (''consensus decision '' @ de_decisionId d @ '' is not triggered'') None)
                else l_bind (assess env clock st d) (\<lambda>gaps.
                  if gaps = [] then l_return (Proceed None)
                  else l_bind (place env clock cand d gaps) (\<lambda>h.
                    l_return (Block (claim_is h) (Some (ch_holdId h)))))))))"

definition gate :: "hold_env \<Rightarrow> time_ms \<Rightarrow> payload_store \<Rightarrow> hold_candidate \<Rightarrow> ledger \<Rightarrow> gate_result \<times> ledger" where
  "gate env clock st cand lg =
     (case gate_body env clock st cand lg of
        (Inr r, lg') \<Rightarrow> (r, lg')
      | (Inl e, lg') \<Rightarrow> (Block (''hold gate unavailable ('' @ error_message e @ '')'') None, lg'))"

datatype reeval_outcome = OutReleased | OutEscalated | OutStillHeld

text \<open>The loop over the candidate decisions: \<open>None\<close> when it released the hold, else the smallest
  list of gaps and its decision.\<close>

fun scan_candidates ::
  "hold_env \<Rightarrow> time_ms \<Rightarrow> payload_store \<Rightarrow> claim_hold \<Rightarrow> evidence_gap list option \<Rightarrow> string \<Rightarrow> decision list
     \<Rightarrow> (evidence_gap list option \<times> string) option ledger_op" where
  "scan_candidates env clock st h best bestId [] = l_return (Some (best, bestId))"
| "scan_candidates env clock st h best bestId (d # ds) =
     l_bind (assess env clock st d) (\<lambda>gaps.
       if gaps = [] then l_bind (release_hold env clock h d) (\<lambda>_. l_return None)
       else if best = None \<or> length gaps < length (the best)
       then scan_candidates env clock st h (Some gaps) (de_decisionId d) ds
       else scan_candidates env clock st h best bestId ds)"

definition judge_hold ::
  "hold_env \<Rightarrow> time_ms \<Rightarrow> payload_store \<Rightarrow> claim_hold \<Rightarrow> decision \<Rightarrow> reeval_outcome ledger_op" where
  "judge_hold env clock st h fresh =
     (if de_outcome fresh = OutDecision \<and> \<not> de_triggered fresh
      then l_bind (escalate_hold env clock h VerdictContradicted
             (''newer evidence contradicts the verdict: '' @ de_reason fresh @ '' ('' @ de_decisionId fresh @ '')''))
             (\<lambda>_. l_return OutEscalated)
      else l_get (\<lambda>lg.
        let candidates = (if de_outcome fresh = OutDecision then [fresh] else [])
              @ (case decisionById lg (ch_decisionId h) of None \<Rightarrow> [] | Some d \<Rightarrow> [ev_body d])
        in l_bind (scan_candidates env clock st h None (ch_currentDecisionId h) candidates) (\<lambda>r.
             case r of
               None \<Rightarrow> l_return OutReleased
             | Some (best, bestId) \<Rightarrow>
                 let gaps = (case best of None \<Rightarrow> ch_gaps h | Some g \<Rightarrow> g) in
                 l_bind (if gaps \<noteq> ch_gaps h then append_ev env clock (HoldReevaluatedE (ch_holdId h) bestId gaps) else l_return ())
                   (\<lambda>_. l_return OutStillHeld))))"

definition fresh_decision ::
  "hold_env \<Rightarrow> string \<Rightarrow> (string, decision) jmap \<Rightarrow> ledger \<Rightarrow> decision result \<times> (string, decision) jmap \<times> ledger" where
  "fresh_decision env feedId fm lg =
     (case map_of fm feedId of
        Some d \<Rightarrow> (Inr d, fm, lg)
      | None \<Rightarrow> (case he_decide env feedId lg of
                    (Inr d, lg') \<Rightarrow> (Inr d, js_set feedId d fm, lg')
                  | (Inl e, lg') \<Rightarrow> (Inl e, fm, lg')))"

definition reevaluate ::
  "hold_env \<Rightarrow> time_ms \<Rightarrow> payload_store \<Rightarrow> claim_hold \<Rightarrow> (string, decision) jmap \<Rightarrow> ledger
     \<Rightarrow> reeval_outcome result \<times> (string, decision) jmap \<times> ledger" where
  "reevaluate env clock st h fm lg =
     (let now = ledger_now clock lg;
          esc = (\<lambda>why msg. case l_bind (escalate_hold env clock h why msg) (\<lambda>_. l_return OutEscalated) lg of (r, lg') \<Rightarrow> (r, fm, lg'))
      in if now > ch_policyExpiresAt h
         then esc PolicyExpiredWhileHeld ''policy expired while the claim was held; trigger predates expiry''
         else if now \<ge> ch_deadline h
         then esc DeadlineExceeded (''evidence still incomplete at deadline: '' @ describeGaps (ch_gaps h))
         else case fresh_decision env (ch_feedId h) fm lg of
                (Inl e, fm', lg') \<Rightarrow> (Inl e, fm', lg')
              | (Inr d, fm', lg') \<Rightarrow> (case judge_hold env clock st h d lg' of (r, lg'') \<Rightarrow> (r, fm', lg'')))"

record reeval_summary =
  rv_released :: nat
  rv_escalated :: nat
  rv_stillHeld :: nat

definition count_outcome :: "reeval_outcome result \<Rightarrow> reeval_summary \<Rightarrow> reeval_summary" where
  "count_outcome r s =
     (case r of
        Inr OutReleased \<Rightarrow> s\<lparr>rv_released := rv_released s + 1\<rparr>
      | Inr OutEscalated \<Rightarrow> s\<lparr>rv_escalated := rv_escalated s + 1\<rparr>
      | Inr OutStillHeld \<Rightarrow> s\<lparr>rv_stillHeld := rv_stillHeld s + 1\<rparr>
      | Inl _ \<Rightarrow> s\<lparr>rv_stillHeld := rv_stillHeld s + 1\<rparr>)"

fun reevaluate_list ::
  "hold_env \<Rightarrow> time_ms \<Rightarrow> payload_store \<Rightarrow> claim_hold list \<Rightarrow> reeval_summary \<Rightarrow> (string, decision) jmap \<Rightarrow> ledger
     \<Rightarrow> reeval_summary \<times> ledger" where
  "reevaluate_list env clock st [] s fm lg = (s, lg)"
| "reevaluate_list env clock st (h # hs) s fm lg =
     (case reevaluate env clock st h fm lg of
        (r, fm', lg') \<Rightarrow> reevaluate_list env clock st hs (count_outcome r s) fm' lg')"

definition reevaluateAll :: "hold_env \<Rightarrow> time_ms \<Rightarrow> payload_store \<Rightarrow> ledger \<Rightarrow> reeval_summary \<times> ledger" where
  "reevaluateAll env clock st lg =
     reevaluate_list env clock st (list_holds (Some PayoutHeld) lg)
       \<lparr>rv_released = 0, rv_escalated = 0, rv_stillHeld = 0\<rparr> [] lg"

fun disposition_name :: "hold_disposition \<Rightarrow> string" where
  "disposition_name ApprovePayout = ''approve_payout''"
| "disposition_name Deny = ''deny''"
| "disposition_name ExtendHold = ''extend_hold''"

definition dispose ::
  "hold_env \<Rightarrow> time_ms \<Rightarrow> string \<Rightarrow> hold_disposition \<Rightarrow> string \<Rightarrow> string \<Rightarrow> int option \<Rightarrow> claim_hold ledger_op" where
  "dispose env clock i d actor note extendMs =
     (if js_trim actor = [] \<or> js_trim note = [] then l_throw (BadRequest ''actor and note are required'')
      else l_bind (l_read (get_hold i)) (\<lambda>h.
        if ch_status h \<noteq> Escalated \<and> ch_status h \<noteq> PayoutHeld
        then l_throw (Conflict (''hold '' @ i @ '' is '' @ hold_status_name (ch_status h)
                        @ ''; only held or escalated claims can be disposed''))
        else if d = ExtendHold \<and> \<not> (case extendMs of None \<Rightarrow> False | Some x \<Rightarrow> x > 0)
        then l_throw (BadRequest ''extend_hold requires extendMs > 0'')
        else l_bind (l_get (\<lambda>lg. append_ev env clock (HoldDisposedE i d actor note
                       (if d = ExtendHold then Some (ledger_now clock lg + the extendMs) else None)))) (\<lambda>_.
             l_bind (audit env clock (''claim_hold.'' @ disposition_name d) actor note) (\<lambda>_.
             l_read (get_hold i)))))"

definition markSettled :: "hold_env \<Rightarrow> time_ms \<Rightarrow> string \<Rightarrow> unit ledger_op" where
  "markSettled env clock i =
     l_bind (l_read (get_hold i)) (\<lambda>h.
       if ch_status h = SettledHold then l_return ()
       else l_bind (append_ev env clock (HoldSettledE i)) (\<lambda>_.
            audit env clock ''claim_hold.settled'' ''system'' ''settlement confirmed''))"

section \<open>What an operation may write\<close>

text \<open>\<open>writes P m lg\<close>: running \<open>m\<close> on \<open>lg\<close>, whether it returns or throws, appends only events
  whose body satisfies \<open>P\<close>.\<close>

definition writes :: "(event_body \<Rightarrow> bool) \<Rightarrow> 'a ledger_op \<Rightarrow> ledger \<Rightarrow> bool" where
  "writes P m lg \<longleftrightarrow> (\<exists>evs. snd (m lg) = lg @ evs \<and> (\<forall>e \<in> set evs. P (ev_body e)))"

named_theorems writes_intros \<open>the events an operation may write\<close>

lemma writes_return [writes_intros]: "writes P (l_return x) lg"
  by (simp add: writes_def l_return_def)

lemma writes_throw [writes_intros]: "writes P (l_throw e) lg"
  by (simp add: writes_def l_throw_def)

lemma writes_read [writes_intros]: "writes P (l_read f) lg"
  by (simp add: writes_def l_read_def)

lemma l_read_iff: "l_read f lg = (r, lg') \<longleftrightarrow> f lg = r \<and> lg' = lg"
  by (auto simp: l_read_def)

lemma writes_bind:
  assumes "writes P m lg" "\<And>x lg'. m lg = (Inr x, lg') \<Longrightarrow> writes P (f x) lg'"
  shows "writes P (l_bind m f) lg"
proof (cases "m lg")
  case (Pair r lg')
  from assms(1) Pair obtain evs where evs: "lg' = lg @ evs" "\<forall>e \<in> set evs. P (ev_body e)"
    by (auto simp: writes_def)
  show ?thesis
  proof (cases r)
    case (Inr x)
    with assms(2) Pair obtain evs' where "snd (f x lg') = lg' @ evs'" "\<forall>e \<in> set evs'. P (ev_body e)"
      by (auto simp: writes_def)
    with evs Pair Inr show ?thesis by (auto simp: writes_def l_bind_def intro!: exI [of _ "evs @ evs'"])
  qed (use evs Pair in \<open>auto simp: writes_def l_bind_def\<close>)
qed

lemma writes_append [writes_intros]: "P b \<Longrightarrow> writes P (append_ev env clock b) lg"
  by (auto simp: writes_def append_ev_def l_bind_def l_return_def append_event_def Let_def stamp_def)

lemma writes_audit [writes_intros]: "P (AuditE action actor reason) \<Longrightarrow> writes P (audit env clock action actor reason) lg"
  unfolding audit_def by (rule writes_append)

lemma writes_get [writes_intros]: "writes P (f lg) lg \<Longrightarrow> writes P (l_get f) lg"
  by (simp add: writes_def l_get_def)

lemma writes_assess [writes_intros]: "writes P (assess env clock st d) lg"
  unfolding assess_def by (rule writes_read)

text \<open>Events that can make a hold payable, and the ones that concern holds at all.\<close>

definition frees :: "string \<Rightarrow> event_body \<Rightarrow> bool" where
  "frees i b = (case b of HoldReleasedE j _ _ \<Rightarrow> j = i | HoldDisposedE j d _ _ _ \<Rightarrow> j = i \<and> d = ApprovePayout | _ \<Rightarrow> False)"

definition not_hold :: "event_body \<Rightarrow> bool" where
  "not_hold b = (case b of HoldPlacedE _ \<Rightarrow> False | HoldReevaluatedE _ _ _ \<Rightarrow> False | HoldReleasedE _ _ _ \<Rightarrow> False
     | HoldEscalatedE _ _ _ \<Rightarrow> False | HoldDisposedE _ _ _ _ _ \<Rightarrow> False | HoldSettledE _ \<Rightarrow> False | _ \<Rightarrow> True)"

definition hold_status_of :: "string \<Rightarrow> ledger \<Rightarrow> hold_status option" where
  "hold_status_of i lg = map_option ch_status (map_of (foldHolds lg) i)"

definition payable :: "string \<Rightarrow> ledger \<Rightarrow> bool" where
  "payable i lg \<longleftrightarrow> hold_status_of i lg \<in> {Some Released, Some ApprovedHold}"

lemma map_of_patch: "map_of (patch hs i f) j = (if i = j then map_option f (map_of hs i) else map_of hs j)"
  by (auto simp: patch_def split: option.splits)

lemma foldHolds_snoc: "foldHolds (lg @ [e]) = hold_event e (foldHolds lg)"
  by (simp add: foldHolds_def)

lemma hold_event_status:
  "map_option ch_status (map_of (hold_event e hs) i) =
     (case ev_body e of
        HoldPlacedE p \<Rightarrow> if hp_holdId p = i then Some PayoutHeld else map_option ch_status (map_of hs i)
      | HoldReleasedE j _ _ \<Rightarrow> map_option (\<lambda>h. if j = i then Released else ch_status h) (map_of hs i)
      | HoldEscalatedE j _ _ \<Rightarrow> map_option (\<lambda>h. if j = i then Escalated else ch_status h) (map_of hs i)
      | HoldDisposedE j d _ _ _ \<Rightarrow> map_option (\<lambda>h. if j = i then disposed_status d else ch_status h) (map_of hs i)
      | HoldSettledE j \<Rightarrow> map_option (\<lambda>h. if j = i then SettledHold else ch_status h) (map_of hs i)
      | _ \<Rightarrow> map_option ch_status (map_of hs i))"
  by (cases "ev_body e"; cases "map_of hs i") (auto simp: hold_event_def map_of_patch place_hold_def dispose_hold_def Let_def)

lemma not_payable_append:
  assumes "\<not> payable i lg" "\<forall>e \<in> set evs. \<not> frees i (ev_body e)"
  shows "\<not> payable i (lg @ evs)"
  using assms
proof (induction evs arbitrary: lg)
  case (Cons e evs)
  have "\<not> payable i (lg @ [e])"
    using Cons.prems
    by (cases "ev_body e"; cases "map_of (foldHolds lg) i")
       (auto simp: payable_def hold_status_of_def foldHolds_snoc hold_event_status frees_def disposed_status_def
          split: hold_disposition.splits)
  with Cons show ?case by (metis append.assoc append_Cons append_Nil list.set_intros(2))
qed simp

text \<open>The keys of the map are the identifiers of its holds.\<close>

lemma js_set_mem: "(k, v) \<in> set (js_set i x m) \<Longrightarrow> (k, v) \<in> set m \<or> k = i \<and> v = x"
  by (induction i x m rule: js_set.induct) (auto split: if_splits)

definition keyed :: "holds \<Rightarrow> bool" where
  "keyed hs \<longleftrightarrow> distinct (map fst hs) \<and> (\<forall>(k, h) \<in> set hs. ch_holdId h = k)"

lemma keyed_patch:
  assumes "keyed hs" "\<And>h. ch_holdId (f h) = ch_holdId h"
  shows "keyed (patch hs i f)"
  using assms by (auto simp: keyed_def patch_def distinct_js_set split: option.splits dest!: js_set_mem map_of_SomeD)

lemma keyed_place: "keyed hs \<Longrightarrow> keyed (js_set (hp_holdId p) (place_hold t p) hs)"
  by (auto simp: keyed_def distinct_js_set place_hold_def dest!: js_set_mem)

lemma foldHolds_keyed: "keyed (foldHolds lg)"
proof (induction lg rule: rev_induct)
  case (snoc e lg)
  then show ?case
    by (cases "ev_body e") (simp_all add: foldHolds_snoc hold_event_def Let_def keyed_place keyed_patch dispose_hold_def)
qed (simp add: foldHolds_def keyed_def)

lemma list_holds_mem:
  "h \<in> set (list_holds st lg) \<longleftrightarrow> map_of (foldHolds lg) (ch_holdId h) = Some h \<and> (case st of None \<Rightarrow> True | Some s \<Rightarrow> ch_status h = s)"
proof -
  have "h \<in> snd ` set (foldHolds lg) \<longleftrightarrow> map_of (foldHolds lg) (ch_holdId h) = Some h"
    using foldHolds_keyed [of lg] by (auto simp: keyed_def image_iff) force
  then show ?thesis by (auto simp: list_holds_def js_values_def)
qed

section \<open>The writes of the operations\<close>

text \<open>What the code relies on of the consensus service: recording a decision writes no hold event.\<close>

definition decide_ok :: "hold_env \<Rightarrow> bool" where
  "decide_ok env \<longleftrightarrow> (\<forall>f lg. writes not_hold (he_decide env f) lg)"

lemma writes_mono: "writes P m lg \<Longrightarrow> (\<And>b. P b \<Longrightarrow> Q b) \<Longrightarrow> writes Q m lg"
  by (auto simp: writes_def)

lemma not_hold_frees: "not_hold b \<Longrightarrow> \<not> frees i b"
  by (auto simp: not_hold_def frees_def split: event_body.splits)

lemma writes_decide [writes_intros]: "decide_ok env \<Longrightarrow> writes (\<lambda>b. \<not> frees i b) (he_decide env f) lg"
  unfolding decide_ok_def by (rule writes_mono [of not_hold]) (simp, rule not_hold_frees)

lemma frees_simps [simp]:
  "\<not> frees i (AuditE a b c)" "\<not> frees i (HoldPlacedE p)" "\<not> frees i (HoldEscalatedE j e r)"
  "\<not> frees i (HoldReevaluatedE j d g)" "\<not> frees i (HoldSettledE j)"
  "frees i (HoldReleasedE j d r) \<longleftrightarrow> j = i" "frees i (HoldDisposedE j dp a n t) \<longleftrightarrow> j = i \<and> dp = ApprovePayout"
  by (simp_all add: frees_def)

lemma writes_place: "writes (\<lambda>b. \<not> frees i b) (place env clock cand d gaps) lg"
  unfolding place_def Let_def
  by (intro writes_bind writes_get writes_append writes_audit writes_read) simp_all

lemma writes_escalate: "writes (\<lambda>b. \<not> frees i b) (escalate_hold env clock h esc r) lg"
  unfolding escalate_hold_def by (intro writes_bind writes_append writes_audit) simp_all

lemma writes_release: "(ch_holdId h = i \<Longrightarrow> Q) \<Longrightarrow> writes (\<lambda>b. frees i b \<longrightarrow> Q) (release_hold env clock h d) lg"
  unfolding release_hold_def Let_def by (intro writes_bind writes_append writes_audit) simp_all

lemma writes_gate:
  assumes "decide_ok env"
  shows "writes (\<lambda>b. \<not> frees i b) (gate_body env clock st cand) lg"
proof -
  have place: "writes (\<lambda>b. \<not> frees i b) (l_bind (place env clock cand d gaps) (\<lambda>h. l_return (Block (claim_is h) (Some (ch_holdId h))))) lg'"
    for d gaps lg' by (intro writes_bind writes_place writes_return)
  show ?thesis
    unfolding gate_body_def using assms
    by (auto intro!: writes_bind writes_intros place split: option.splits)
qed

text \<open>A decision the code may release a hold on: the fresh one when it is a triggered decision, or
  the one the hold was placed for; its evidence is complete on the ledger at that moment.\<close>

definition evidence_closed :: "hold_env \<Rightarrow> time_ms \<Rightarrow> payload_store \<Rightarrow> claim_hold \<Rightarrow> ledger \<Rightarrow> bool" where
  "evidence_closed env clock st h lg \<longleftrightarrow>
     (\<exists>d later. (de_outcome d = OutDecision \<and> de_triggered d \<or> map_option ev_body (decisionById (lg @ later) (ch_decisionId h)) = Some d)
        \<and> assessEvidenceCompleteness (he_lc env) (lg @ later) d (ledger_now clock (lg @ later)) (has_payload st) = Inr [])"

lemma evidence_closed_append: "evidence_closed env clock st h (lg @ evs) \<Longrightarrow> evidence_closed env clock st h lg"
  unfolding evidence_closed_def append_assoc by blast

lemma writes_scan:
  assumes "\<forall>d \<in> set ds. de_outcome d = OutDecision \<and> de_triggered d \<or> map_option ev_body (decisionById lg (ch_decisionId h)) = Some d"
  shows "writes (\<lambda>b. frees i b \<longrightarrow> ch_holdId h = i \<and> evidence_closed env clock st h lg)
           (scan_candidates env clock st h best bestId ds) lg"
  using assms
proof (induction ds arbitrary: best bestId)
  case (Cons d ds)
  have rel: "writes (\<lambda>b. frees i b \<longrightarrow> ch_holdId h = i \<and> evidence_closed env clock st h lg) (release_hold env clock h d) lg"
    if "assess env clock st d lg = (Inr [], lg)"
  proof (rule writes_release)
    have "evidence_closed env clock st h lg"
      unfolding evidence_closed_def using that Cons.prems
      by (intro exI [of _ d] exI [of _ "[]"]) (auto simp: assess_def l_read_def)
    then show "ch_holdId h = i \<Longrightarrow> ch_holdId h = i \<and> evidence_closed env clock st h lg" by simp
  qed
  have same: "assess env clock st d lg = (Inr g, lg') \<Longrightarrow> lg' = lg" for g lg'
    by (auto simp: assess_def l_read_def)
  show ?case
    using Cons rel same by (auto intro!: writes_bind writes_intros split: if_splits)
qed (auto intro: writes_intros)

abbreviation closes :: "hold_env \<Rightarrow> time_ms \<Rightarrow> payload_store \<Rightarrow> string \<Rightarrow> claim_hold \<Rightarrow> ledger \<Rightarrow> event_body \<Rightarrow> bool" where
  "closes env clock st i h lg b \<equiv> frees i b \<longrightarrow> ch_holdId h = i \<and> evidence_closed env clock st h lg"

lemma writes_judge:
  "writes (closes env clock st i h lg) (judge_hold env clock st h fresh) lg"
proof (cases "de_outcome fresh = OutDecision \<and> \<not> de_triggered fresh")
  case True
  then show ?thesis
    by (auto simp: judge_hold_def intro!: writes_bind writes_return intro: writes_mono [OF writes_escalate])
next
  case False
  let ?ds = "(if de_outcome fresh = OutDecision then [fresh] else [])
              @ (case decisionById lg (ch_decisionId h) of None \<Rightarrow> [] | Some d \<Rightarrow> [ev_body d])"
  have "\<forall>d \<in> set ?ds. de_outcome d = OutDecision \<and> de_triggered d \<or> map_option ev_body (decisionById lg (ch_decisionId h)) = Some d"
    using False by (cases "decisionById lg (ch_decisionId h)") auto
  note scan = writes_scan [OF this]
  show ?thesis
    unfolding judge_hold_def if_not_P [OF False] Let_def
    by (rule writes_get, rule writes_bind [OF scan])
       (auto intro!: writes_bind writes_return writes_append split: option.splits)
qed

lemma writes_chain:
  assumes "lg' = lg @ evs" "\<forall>e \<in> set evs. P (ev_body e)" "writes Q m lg'" "\<And>b. Q b \<Longrightarrow> P b"
  shows "\<exists>evs'. snd (m lg') = lg @ evs' \<and> (\<forall>e \<in> set evs'. P (ev_body e))"
proof -
  from assms(3) obtain more where "snd (m lg') = lg' @ more" "\<forall>e \<in> set more. Q (ev_body e)" by (auto simp: writes_def)
  with assms(1,2,4) show ?thesis by (auto intro!: exI [of _ "evs @ more"])
qed

lemma reevaluate_writes:
  assumes "decide_ok env" "reevaluate env clock st h fm lg = (r, fm', lg')"
  shows "\<exists>evs. lg' = lg @ evs \<and> (\<forall>e \<in> set evs. closes env clock st i h lg (ev_body e))"
proof -
  have esc: "\<exists>evs. snd (l_bind (escalate_hold env clock h why msg) (\<lambda>_. l_return OutEscalated) lg) = lg @ evs
      \<and> (\<forall>e \<in> set evs. closes env clock st i h lg (ev_body e))" for why msg
  proof -
    have "writes (\<lambda>b. \<not> frees i b) (l_bind (escalate_hold env clock h why msg) (\<lambda>_. l_return OutEscalated)) lg"
      by (intro writes_bind writes_escalate writes_return)
    then show ?thesis by (auto simp: writes_def)
  qed
  obtain dr fm1 lg1 where fd: "fresh_decision env (ch_feedId h) fm lg = (dr, fm1, lg1)" by (metis prod_cases3)
  have w: "\<exists>evs. lg1 = lg @ evs \<and> (\<forall>e \<in> set evs. \<not> frees i (ev_body e))"
    using fd writes_decide [OF assms(1), of i "ch_feedId h" lg]
    by (auto simp: fresh_decision_def writes_def split: option.splits prod.splits sum.splits)
  then obtain evs where evs: "lg1 = lg @ evs" "\<forall>e \<in> set evs. closes env clock st i h lg (ev_body e)" by blast
  have judge: "\<exists>evs'. snd (judge_hold env clock st h d lg1) = lg @ evs' \<and> (\<forall>e \<in> set evs'. closes env clock st i h lg (ev_body e))" for d
  proof (rule writes_chain [OF evs writes_judge])
    fix b assume "closes env clock st i h lg1 b"
    then show "closes env clock st i h lg b" unfolding evs(1) using evidence_closed_append by blast
  qed
  consider why msg where "l_bind (escalate_hold env clock h why msg) (\<lambda>_. l_return OutEscalated) lg = (r, lg')"
    | "lg' = lg1" | d where "judge_hold env clock st h d lg1 = (r, lg')"
    using assms(2) fd by (auto simp: reevaluate_def Let_def split: if_splits prod.splits sum.splits)
  then show ?thesis
  proof cases
    case 1
    then show ?thesis using esc [of why msg] by simp
  next
    case 2
    then show ?thesis using evs by blast
  next
    case 3
    then show ?thesis using judge [of d] by simp
  qed
qed

lemma reevaluate_list_writes:
  assumes "decide_ok env"
  shows "\<exists>evs. snd (reevaluate_list env clock st hs s fm lg) = lg @ evs
     \<and> (\<forall>e \<in> set evs. frees i (ev_body e) \<longrightarrow> (\<exists>h \<in> set hs. ch_holdId h = i \<and> evidence_closed env clock st h lg))"
proof (induction hs arbitrary: s fm lg)
  case (Cons h hs)
  obtain r fm' lg' where r: "reevaluate env clock st h fm lg = (r, fm', lg')" by (metis prod_cases3)
  from reevaluate_writes [OF assms r, of i] obtain evs where
    evs: "lg' = lg @ evs" "\<forall>e \<in> set evs. closes env clock st i h lg (ev_body e)" by blast
  from Cons [of "count_outcome r s" fm' lg'] obtain more where
    more: "snd (reevaluate_list env clock st hs (count_outcome r s) fm' lg') = lg' @ more"
      "\<forall>e \<in> set more. frees i (ev_body e) \<longrightarrow> (\<exists>h \<in> set hs. ch_holdId h = i \<and> evidence_closed env clock st h lg')" by blast
  have "evidence_closed env clock st x lg' \<Longrightarrow> evidence_closed env clock st x lg" for x
    using evs(1) evidence_closed_append by simp
  with evs more r show ?case by (intro exI [of _ "evs @ more"]) auto
qed simp

lemma writes_markSettled: "writes (\<lambda>b. \<not> frees i b) (markSettled env clock j) lg"
  unfolding markSettled_def by (auto intro!: writes_bind writes_read writes_return writes_append writes_audit)

lemma writes_dispose:
  "writes (\<lambda>b. frees i b \<longrightarrow> j = i \<and> d = ApprovePayout \<and> js_trim actor \<noteq> [] \<and> js_trim note \<noteq> []
              \<and> (\<exists>h. get_hold i lg = Inr h \<and> ch_status h \<in> {Escalated, PayoutHeld}))
     (dispose env clock j d actor note ext) lg"
  unfolding dispose_def
  by (auto intro!: writes_bind writes_read writes_throw writes_get writes_append writes_audit simp: l_read_iff)

section \<open>The service as a gate on a claim\<close>

datatype hold_call =
    GateC time_ms payload_store hold_candidate
  | ReevaluateC time_ms payload_store
  | DisposeC time_ms string hold_disposition string string "int option"
  | MarkSettledC time_ms string

fun hold_step :: "hold_env \<Rightarrow> hold_call \<Rightarrow> ledger \<Rightarrow> ledger" where
  "hold_step env (GateC clock st cand) lg = snd (gate env clock st cand lg)"
| "hold_step env (ReevaluateC clock st) lg = snd (reevaluateAll env clock st lg)"
| "hold_step env (DisposeC clock i d actor note ext) lg = snd (dispose env clock i d actor note ext lg)"
| "hold_step env (MarkSettledC clock i) lg = snd (markSettled env clock i lg)"

definition releases_claim :: "hold_env \<Rightarrow> string \<Rightarrow> ledger \<Rightarrow> hold_call \<Rightarrow> bool" where
  "releases_claim env i lg c =
     (case c of
        ReevaluateC clock st \<Rightarrow>
          (\<exists>h. get_hold i lg = Inr h \<and> ch_status h = PayoutHeld \<and> evidence_closed env clock st h lg)
      | DisposeC clock j d actor note ext \<Rightarrow>
          j = i \<and> d = ApprovePayout \<and> js_trim actor \<noteq> [] \<and> js_trim note \<noteq> []
        \<and> (\<exists>h. get_hold i lg = Inr h \<and> ch_status h \<in> {Escalated, PayoutHeld})
      | _ \<Rightarrow> False)"

definition denies_claim :: "hold_env \<Rightarrow> string \<Rightarrow> ledger \<Rightarrow> hold_call \<Rightarrow> bool" where
  "denies_claim env i lg c =
     (case c of DisposeC clock j d actor note ext \<Rightarrow> j = i \<and> d = Deny \<and> is_ok (fst (dispose env clock j d actor note ext lg)) | _ \<Rightarrow> False)"

lemma gate_snd: "snd (gate env clock st cand lg) = snd (gate_body env clock st cand lg)"
  by (auto simp: gate_def split: prod.splits sum.splits)

lemma hold_step_writes:
  assumes "decide_ok env"
  shows "\<exists>evs. hold_step env c lg = lg @ evs \<and> (\<forall>e \<in> set evs. frees i (ev_body e) \<longrightarrow> releases_claim env i lg c)"
proof (cases c)
  case (GateC clock st cand)
  then show ?thesis using writes_gate [OF assms, of i clock st cand lg] by (auto simp: gate_snd writes_def)
next
  case (ReevaluateC clock st)
  let ?hs = "list_holds (Some PayoutHeld) lg"
  have "releases_claim env i lg c" if "h \<in> set ?hs" "ch_holdId h = i" "evidence_closed env clock st h lg" for h
    using that by (auto simp: releases_claim_def ReevaluateC list_holds_mem get_hold_def)
  with reevaluate_list_writes [OF assms, of clock st ?hs _ "[]" lg i] ReevaluateC show ?thesis
    by (fastforce simp: reevaluateAll_def)
next
  case (DisposeC clock j d actor nt ext)
  then show ?thesis using writes_dispose [of i j d actor nt lg env clock ext] by (auto simp: writes_def releases_claim_def)
next
  case (MarkSettledC clock j)
  then show ?thesis using writes_markSettled [of i env clock j lg] by (auto simp: writes_def)
qed

lemma l_bind_InrE:
  assumes "l_bind m f s = (Inr x, s')"
  obtains y s1 where "m s = (Inr y, s1)" "f y s1 = (Inr x, s')"
  using assms by (auto simp: l_bind_def split: prod.splits sum.splits)

lemma append_ev_Inr: "append_ev env clock b lg = (Inr u, lg') \<Longrightarrow> \<exists>e. lg' = lg @ [e] \<and> ev_body e = b"
  by (auto simp: append_ev_def l_bind_def l_return_def append_event_def Let_def stamp_def split: if_splits)

lemma dispose_appends:
  assumes "dispose env clock i Deny actor nt ext lg = (Inr h', lg')"
  shows "\<exists>h x y. get_hold i lg = Inr h \<and> lg' = lg @ [x, y] \<and> ev_body x = HoldDisposedE i Deny actor nt None
           \<and> ev_body y = AuditE (''claim_hold.'' @ disposition_name Deny) actor nt"
  using assms
  by (auto simp: dispose_def l_throw_def l_get_def l_read_iff audit_def split: if_splits
      elim!: l_bind_InrE dest!: append_ev_Inr)

lemma denied_blocks:
  assumes "denies_claim env i lg c"
  shows "\<not> payable i (hold_step env c lg)"
proof -
  from assms obtain clock actor nt ext where c: "c = DisposeC clock i Deny actor nt ext"
      "is_ok (fst (dispose env clock i Deny actor nt ext lg))"
    by (auto simp: denies_claim_def split: hold_call.splits)
  then obtain h' lg' where d: "dispose env clock i Deny actor nt ext lg = (Inr h', lg')"
    by (metis is_ok_iff prod.collapse)
  from dispose_appends [OF d] obtain h x y where h: "get_hold i lg = Inr h" "lg' = lg @ [x, y]"
      "ev_body x = HoldDisposedE i Deny actor nt None" "ev_body y = AuditE (''claim_hold.'' @ disposition_name Deny) actor nt"
    by blast
  have "hold_status_of i (lg @ [x, y]) = Some DeniedHold"
    using h foldHolds_snoc [of "lg @ [x]" y] foldHolds_snoc [of lg x]
    by (auto simp: hold_status_of_def hold_event_status get_hold_def disposed_status_def split: option.splits)
  with h(2) c(1) d show ?thesis by (simp add: payable_def)
qed

interpretation hold_gate: fail_safe_gate "hold_step env" "payable i" "denies_claim env i"
  "\<lambda>lg c. decide_ok env \<longrightarrow> releases_claim env i lg c" for env i
proof
  show "\<not> payable i (hold_step env c lg)" if "denies_claim env i lg c" for c lg
    by (rule denied_blocks [OF that])
  show "\<not> payable i (hold_step env c lg)"
    if "\<not> payable i lg" "\<not> (decide_ok env \<longrightarrow> releases_claim env i lg c)" for c lg
    using hold_step_writes [of env c lg i] not_payable_append [OF that(1)] that(2) by metis
qed


section \<open>The gate\<close>

lemma gate_proceed:
  assumes "gate env clock st cand lg = (Proceed hid, lg')"
  shows "(\<exists>h. activeHoldFor (hc_policyId cand) lg = Some h \<and> hid = Some (ch_holdId h)
           \<and> ch_status h \<in> {Released, ApprovedHold} \<and> lg' = lg)
    \<or> activeHoldFor (hc_policyId cand) lg = None \<and> deniedHoldFor (hc_policyId cand) lg = None \<and> hid = None
      \<and> (he_isGoverned env (hc_feedId cand) lg = Inr False \<and> lg' = lg
         \<or> (\<exists>d. he_isGoverned env (hc_feedId cand) lg = Inr True \<and> he_decide env (hc_feedId cand) lg = (Inr d, lg')
              \<and> de_outcome d = OutDecision \<and> de_triggered d
              \<and> assessEvidenceCompleteness (he_lc env) lg' d (ledger_now clock lg') (has_payload st) = Inr []))"
proof -
  have assess: "assess env clock st d lg' = (assessEvidenceCompleteness (he_lc env) lg' d (ledger_now clock lg') (has_payload st), lg')"
    for d lg' by (simp add: assess_def l_read_def)
  have block: "l_bind m (\<lambda>h. l_return (Block (f h) (g h))) lg' \<noteq> (Inr (Proceed hid), lg'')" for m :: "claim_hold ledger_op" and f g lg' hid lg''
    by (auto simp: l_bind_def l_return_def split: prod.splits sum.splits)
  have "gate_body env clock st cand lg = (Inr (Proceed hid), lg')"
    using assms by (auto simp: gate_def split: prod.splits sum.splits)
  then show ?thesis
    using block
    by (auto simp: gate_body_def l_get_def l_return_def l_bind_def l_read_def assess
        split: option.splits if_splits sum.splits prod.splits)
qed

text \<open>A hold the gate refers to is in the ledger, so marking it settled can only fail to write.\<close>

lemma gate_hold_known:
  assumes "gate env clock st cand lg = (Proceed (Some hid), lg')"
  shows "lg' = lg \<and> (\<exists>h. get_hold hid lg = Inr h)"
proof -
  from gate_proceed [OF assms] obtain h where h: "activeHoldFor (hc_policyId cand) lg = Some h" "hid = ch_holdId h" "lg' = lg"
    by auto
  then have "h \<in> set (list_holds None lg)"
    using last_in_set by (fastforce simp: activeHoldFor_def pop_def split: if_splits)
  then show ?thesis using h by (simp add: list_holds_mem get_hold_def)
qed

lemma markSettled_ok:
  assumes "get_hold i lg = Inr h" "he_persist env = (\<lambda>_. True)"
  shows "\<exists>lg'. markSettled env clock i lg = (Inr (), lg')"
  using assms
  by (simp add: markSettled_def l_bind_def l_read_def l_return_def append_ev_def audit_def append_event_def Let_def)

text \<open>C4. The pre-settlement gate pays only what is backed and fails closed. It lets a claim
  proceed only when the policy's active hold was released or approved, or when the policy has
  neither an active nor a denied hold and either its feed is not governed by a quorum policy or
  the consensus service returned a triggered decision whose evidence assessment found no gap.
  An existing hold is respected without writing anything, and an exception anywhere inside
  blocks the payout.\<close>

theorem gate_pays_only_backed:
  "(\<forall>hid lg'. gate env clock st cand lg = (Proceed hid, lg') \<longrightarrow>
      (\<exists>h. activeHoldFor (hc_policyId cand) lg = Some h \<and> hid = Some (ch_holdId h)
           \<and> ch_status h \<in> {Released, ApprovedHold} \<and> lg' = lg)
    \<or> activeHoldFor (hc_policyId cand) lg = None \<and> deniedHoldFor (hc_policyId cand) lg = None \<and> hid = None
      \<and> (he_isGoverned env (hc_feedId cand) lg = Inr False \<and> lg' = lg
         \<or> (\<exists>d. he_isGoverned env (hc_feedId cand) lg = Inr True \<and> he_decide env (hc_feedId cand) lg = (Inr d, lg')
              \<and> de_outcome d = OutDecision \<and> de_triggered d
              \<and> assessEvidenceCompleteness (he_lc env) lg' d (ledger_now clock lg') (has_payload st) = Inr [])))
 \<and> (activeHoldFor (hc_policyId cand) lg \<noteq> None \<longrightarrow> snd (gate env clock st cand lg) = lg)
 \<and> (\<forall>e lg'. gate_body env clock st cand lg = (Inl e, lg') \<longrightarrow> (\<exists>r. gate env clock st cand lg = (Block r None, lg')))"
proof (intro conjI)
  show "\<forall>hid lg'. gate env clock st cand lg = (Proceed hid, lg') \<longrightarrow>
      (\<exists>h. activeHoldFor (hc_policyId cand) lg = Some h \<and> hid = Some (ch_holdId h)
           \<and> ch_status h \<in> {Released, ApprovedHold} \<and> lg' = lg)
    \<or> activeHoldFor (hc_policyId cand) lg = None \<and> deniedHoldFor (hc_policyId cand) lg = None \<and> hid = None
      \<and> (he_isGoverned env (hc_feedId cand) lg = Inr False \<and> lg' = lg
         \<or> (\<exists>d. he_isGoverned env (hc_feedId cand) lg = Inr True \<and> he_decide env (hc_feedId cand) lg = (Inr d, lg')
              \<and> de_outcome d = OutDecision \<and> de_triggered d
              \<and> assessEvidenceCompleteness (he_lc env) lg' d (ledger_now clock lg') (has_payload st) = Inr []))"
    using gate_proceed by blast
  show "activeHoldFor (hc_policyId cand) lg \<noteq> None \<longrightarrow> snd (gate env clock st cand lg) = lg"
    by (auto simp: gate_snd gate_body_def l_get_def l_return_def)
  show "\<forall>e lg'. gate_body env clock st cand lg = (Inl e, lg') \<longrightarrow> (\<exists>r. gate env clock st cand lg = (Block r None, lg'))"
    by (simp add: gate_def)
qed

section \<open>A held claim\<close>

definition sample_env :: hold_env where
  "sample_env = \<lparr>he_persist = \<lambda>_. True, he_lc = (\<le>), he_sha256Hex = id, he_holdMaxDurationMs = 1000,
     he_isGoverned = \<lambda>f _. Inr (f = ''governed''), he_decide = \<lambda>_. l_throw (Err ''unavailable'')\<rparr>"

definition sample_hold :: evidence_event where
  "sample_hold = \<lparr>ev_seq = 1, ev_recordedAt = 5, ev_body = HoldPlacedE
     \<lparr>hp_holdId = ''h'', hp_policyId = ''p'', hp_holder = ''x'', hp_feedId = ''f'', hp_decisionId = ''d'', hp_gaps = [],
      hp_reason = ''r'', hp_deadline = 900, hp_policyExpiresAt = 800\<rparr>\<rparr>"

lemma sample_env_ok: "decide_ok sample_env"
  by (simp add: decide_ok_def sample_env_def writes_throw)

lemma sample_hold_approved:
  "\<not> payable ''h'' [sample_hold]"
  "payable ''h'' (fold (hold_step sample_env) [DisposeC 10 ''h'' ApprovePayout ''op'' ''ok'' None] [sample_hold])"
  by code_simp+


lemma sample_gate_ungoverned: "\<exists>lg'. gate sample_env 10 Map.empty \<lparr>hc_policyId = ''q'', hc_holder = ''x'', hc_feedId = ''f'', hc_policyExpiresAt = 800\<rparr> [sample_hold]
    = (Proceed None, lg')"
proof -
  have "(case gate sample_env 10 Map.empty \<lparr>hc_policyId = ''q'', hc_holder = ''x'', hc_feedId = ''f'', hc_policyExpiresAt = 800\<rparr> [sample_hold]
    of (Proceed None, _) \<Rightarrow> True | _ \<Rightarrow> False)" by code_simp
  then show ?thesis by (auto split: prod.splits gate_result.splits option.splits)
qed

theorem gate_pays_only_backed_witness:
  "\<exists>lg'. gate sample_env 10 Map.empty \<lparr>hc_policyId = ''q'', hc_holder = ''x'', hc_feedId = ''f'', hc_policyExpiresAt = 800\<rparr> [sample_hold]
     = (Proceed None, lg')
   \<and> activeHoldFor ''q'' [sample_hold] = None \<and> deniedHoldFor ''q'' [sample_hold] = None"
proof -
  let ?c = "\<lparr>hc_policyId = ''q'', hc_holder = ''x'', hc_feedId = ''f'', hc_policyExpiresAt = 800\<rparr>"
  obtain lg' where g: "gate sample_env 10 Map.empty ?c [sample_hold] = (Proceed None, lg')"
    using sample_gate_ungoverned by blast
  from conjunct1 [OF gate_pays_only_backed [of sample_env 10 Map.empty ?c "[sample_hold]"]] g
  have "activeHoldFor (hc_policyId ?c) [sample_hold] = None \<and> deniedHoldFor (hc_policyId ?c) [sample_hold] = None" by blast
  with g show ?thesis by simp
qed

end
