(* ===== verification/Dispute.thy ===== *)
theory Dispute
  imports Refract_Prelude Fixed_Point
begin

text \<open>
  The bonded challenge of a payout decision: \<open>claim/dispute/dispute.service.ts\<close> over the
  tables of migrations 004 and 007. The state holds the settlements and policies the
  service joins with, the disputes and the reversals it writes, the open-dispute gauge and
  the trust events it publishes. The database clock and the identifier that
  \<open>gen_random_uuid()\<close> draws are arguments. A unique or a check constraint that fails is
  the SQL state it raises, so the two handlers of \<open>UNIQUE_VIOLATION\<close> are branches of the
  model. Loss of the database connection is not modelled.

  The lemmas show the well-formedness of the two tables under every sequence of calls, the
  life cycle of a dispute, and when a decision can be challenged at all.
\<close>

section \<open>Statuses\<close>

datatype dispute_status = DOpen | DUnderReview | DUpheld | DReversed | DWithdrawn

datatype bond_status = BPosted | BForfeited | BReturned

datatype settlement_status = SPending | SSubmitted | SConfirmed | SFailed

datatype reversal_status = Owed | Reconciled

text \<open>The text columns, as the error messages print them.\<close>

fun dispute_status_text :: "dispute_status \<Rightarrow> string" where
  "dispute_status_text DOpen = ''open''"
| "dispute_status_text DUnderReview = ''under_review''"
| "dispute_status_text DUpheld = ''upheld''"
| "dispute_status_text DReversed = ''reversed''"
| "dispute_status_text DWithdrawn = ''withdrawn''"

fun settlement_status_text :: "settlement_status \<Rightarrow> string" where
  "settlement_status_text SPending = ''pending''"
| "settlement_status_text SSubmitted = ''submitted''"
| "settlement_status_text SConfirmed = ''confirmed''"
| "settlement_status_text SFailed = ''failed''"

fun TRANSITIONS :: "dispute_status \<Rightarrow> dispute_status list" where
  "TRANSITIONS DOpen = [DUnderReview, DWithdrawn]"
| "TRANSITIONS DUnderReview = [DUpheld, DReversed, DWithdrawn]"
| "TRANSITIONS DUpheld = []"
| "TRANSITIONS DReversed = []"
| "TRANSITIONS DWithdrawn = []"

fun BOND_ON_RESOLUTION :: "dispute_status \<Rightarrow> bond_status option" where
  "BOND_ON_RESOLUTION DUpheld = Some BForfeited"
| "BOND_ON_RESOLUTION DReversed = Some BReturned"
| "BOND_ON_RESOLUTION DWithdrawn = Some BReturned"
| "BOND_ON_RESOLUTION _ = None"

definition DEFAULT_WINDOW_HOURS :: rat where
  "DEFAULT_WINDOW_HOURS = 72"

definition UNIQUE_VIOLATION :: string where
  "UNIQUE_VIOLATION = ''23505''"

text \<open>The SQL state of a failed \<open>CHECK\<close>; the service passes it on.\<close>

definition CHECK_VIOLATION :: string where
  "CHECK_VIOLATION = ''23514''"

section \<open>Identifiers\<close>

text \<open>The case-insensitive pattern of a UUID. A \<open>UUID\<close> column compares by value, so the
  upper-case spelling of an identifier finds the same row.\<close>

definition is_hex :: "char \<Rightarrow> bool" where
  "is_hex c \<longleftrightarrow> is_digit c \<or> (97 \<le> (of_char c :: nat) \<and> (of_char c :: nat) \<le> 102)
     \<or> (65 \<le> (of_char c :: nat) \<and> (of_char c :: nat) \<le> 70)"

definition uuid_pattern :: "string \<Rightarrow> bool" where
  "uuid_pattern s \<longleftrightarrow> length s = 36
     \<and> list_all (\<lambda>(i, c). if i \<in> {8, 13, 18, 23} then c = CHR ''-'' else is_hex c) (zip [0..<36] s)"

definition char_lower :: "char \<Rightarrow> char" where
  "char_lower c = (if 65 \<le> (of_char c :: nat) \<and> (of_char c :: nat) \<le> 90 then char_of (of_char c + 32 :: nat) else c)"

definition uuid_value :: "string \<Rightarrow> string" where
  "uuid_value = map char_lower"

definition assertUuid :: "string \<Rightarrow> unit result" where
  "assertUuid i = (if uuid_pattern i then Inr () else Inl (NotFound (''Unknown dispute '' @ i)))"

section \<open>Challenge windows\<close>

text \<open>A parsed JSON document; \<open>JSON.parse\<close> itself is an argument.\<close>

datatype json = JNull | JBool bool | JNumber js_number | JString string | JArray "json list" | JObject "(string \<times> json) list"

fun collect_windows :: "(string \<times> json) list \<Rightarrow> (string, rat) jmap \<Rightarrow> (string, rat) jmap result" where
  "collect_windows [] windows = Inr windows"
| "collect_windows ((coverage, hours) # entries) windows =
     (case hours of
        JNumber h \<Rightarrow>
          if \<not> isFinite h \<or> js_le h (Num 0)
          then Inl (Err (''DISPUTE_WINDOW_HOURS.'' @ coverage @ '' must be a positive number of hours''))
          else collect_windows entries (js_set coverage (num_of h) windows)
      | _ \<Rightarrow> Inl (Err (''DISPUTE_WINDOW_HOURS.'' @ coverage @ '' must be a positive number of hours'')))"

definition parseDisputeWindows :: "(string \<Rightarrow> json result) \<Rightarrow> string option \<Rightarrow> (string, rat) jmap result" where
  "parseDisputeWindows parse raw =
     (case raw of
        None \<Rightarrow> Inr []
      | Some s \<Rightarrow>
          if js_trim s = [] then Inr []
          else then_result (parse s) (\<lambda>parsed.
            case parsed of
              JObject entries \<Rightarrow> collect_windows entries []
            | _ \<Rightarrow> Inl (Err ''DISPUTE_WINDOW_HOURS must be a JSON object of positive hour values'')))"

definition windowHoursFor :: "(string, rat) jmap \<Rightarrow> string \<Rightarrow> rat" where
  "windowHoursFor windows coverageType =
     (case map_of windows coverageType of
        Some h \<Rightarrow> h
      | None \<Rightarrow> (case map_of windows ''default'' of Some h \<Rightarrow> h | None \<Rightarrow> DEFAULT_WINDOW_HOURS))"

section \<open>Tables\<close>

record settlement_row =
  st_policyId :: string
  st_amount :: rat
  st_status :: settlement_status
  st_createdAt :: time_ms

record dispute_row =
  dp_id :: string
  dp_decisionId :: string
  dp_policyId :: string
  dp_status :: dispute_status
  dp_reason :: string
  dp_bondReference :: string
  dp_bondStatus :: bond_status
  dp_openedBy :: string
  dp_windowClosesAt :: rat
  dp_resolutionNote :: "string option"
  dp_replacementDecisionId :: "string option"
  dp_createdAt :: time_ms
  dp_updatedAt :: time_ms
  dp_resolvedAt :: "time_ms option"

record reversal_row =
  rv_disputeId :: string
  rv_decisionId :: string
  rv_policyId :: string
  rv_amount :: rat
  rv_status :: reversal_status

text \<open>What \<open>SELECT_DISPUTE\<close> joins and \<open>toRecord\<close> returns.\<close>

record dispute_record =
  dr_dispute :: dispute_row
  dr_coverageType :: string
  dr_reversal :: "(rat \<times> reversal_status) option"

datatype dispute_kind = KOpened | KMoved dispute_status

record trust_dispute_event =
  te_kind :: dispute_kind
  te_coverageType :: string
  te_disputeId :: string
  te_actor :: string

record dispute_db =
  dd_settlements :: "string \<Rightarrow> settlement_row option"
  dd_policies :: "string \<Rightarrow> string option"
  dd_disputes :: "dispute_row list"
  dd_reversals :: "reversal_row list"
  dd_gauge :: nat
  dd_published :: "trust_dispute_event list"

record open_input =
  oi_decisionId :: string
  oi_reason :: string
  oi_bondReference :: string
  oi_actor :: string

record transition_input =
  ti_to :: dispute_status
  ti_note :: "string option"
  ti_replacementDecisionId :: "string option"
  ti_actor :: string

section \<open>Statements\<close>

definition inTransaction :: "(dispute_db \<Rightarrow> ('a \<times> dispute_db) result) \<Rightarrow> dispute_db \<Rightarrow> 'a result \<times> dispute_db" where
  "inTransaction fn db = (case fn db of Inl e \<Rightarrow> (Inl e, db) | Inr (x, db') \<Rightarrow> (Inr x, db'))"

definition live :: "dispute_row \<Rightarrow> bool" where
  "live d \<longleftrightarrow> dp_status d \<noteq> DWithdrawn"

definition insert_dispute :: "dispute_row \<Rightarrow> dispute_db \<Rightarrow> dispute_db result" where
  "insert_dispute d db =
     (if \<not> (1 \<le> length (dp_reason d) \<and> length (dp_reason d) \<le> 2000) then Inl (Err CHECK_VIOLATION)
      else if dp_id d \<in> dp_id ` set (dd_disputes db) then Inl (Err UNIQUE_VIOLATION)
      else if list_ex (\<lambda>x. live x \<and> dp_decisionId x = dp_decisionId d) (dd_disputes db) then Inl (Err UNIQUE_VIOLATION)
      else Inr (db\<lparr>dd_disputes := dd_disputes db @ [d]\<rparr>))"

definition insert_reversal :: "reversal_row \<Rightarrow> dispute_db \<Rightarrow> dispute_db result" where
  "insert_reversal r db =
     (if rv_amount r \<le> 0 then Inl (Err CHECK_VIOLATION)
      else if rv_disputeId r \<in> rv_disputeId ` set (dd_reversals db) then Inl (Err UNIQUE_VIOLATION)
      else if rv_decisionId r \<in> rv_decisionId ` set (dd_reversals db) then Inl (Err UNIQUE_VIOLATION)
      else Inr (db\<lparr>dd_reversals := dd_reversals db @ [r]\<rparr>))"

definition coalesce :: "'a option \<Rightarrow> 'a option \<Rightarrow> 'a option" where
  "coalesce a b = (case a of None \<Rightarrow> b | Some _ \<Rightarrow> a)"

text \<open>The columns the \<open>UPDATE\<close> of \<open>transition\<close> sets.\<close>

definition moved :: "transition_input \<Rightarrow> time_ms \<Rightarrow> dispute_row \<Rightarrow> dispute_row" where
  "moved inp now d = d\<lparr>
     dp_status := ti_to inp,
     dp_resolutionNote := coalesce (ti_note inp) (dp_resolutionNote d),
     dp_replacementDecisionId := coalesce
       (if ti_to inp = DReversed then map_option js_trim (ti_replacementDecisionId inp) else None)
       (dp_replacementDecisionId d),
     dp_bondStatus := (case BOND_ON_RESOLUTION (ti_to inp) of None \<Rightarrow> dp_bondStatus d | Some b \<Rightarrow> b),
     dp_resolvedAt := (if ti_to inp \<noteq> DUnderReview then Some now else dp_resolvedAt d),
     dp_updatedAt := now\<rparr>"

definition update_dispute :: "string \<Rightarrow> dispute_status \<Rightarrow> transition_input \<Rightarrow> time_ms \<Rightarrow> dispute_db \<Rightarrow> (nat \<times> dispute_db) result" where
  "update_dispute i st inp now db =
     (let hit = (\<lambda>d. dp_id d = i \<and> dp_status d = st);
          rows = map (\<lambda>d. if hit d then moved inp now d else d) (dd_disputes db);
          written = filter (\<lambda>d. dp_id d = i) rows
      in if list_ex (\<lambda>d. dp_replacementDecisionId d = Some (dp_decisionId d)) written then Inl (Err CHECK_VIOLATION)
         else if list_ex (\<lambda>d. dp_replacementDecisionId d \<noteq> None
                \<and> list_ex (\<lambda>x. dp_id x \<noteq> i \<and> dp_replacementDecisionId x = dp_replacementDecisionId d) rows) written
              then Inl (Err UNIQUE_VIOLATION)
         else Inr (length (filter hit (dd_disputes db)), db\<lparr>dd_disputes := rows\<rparr>))"

section \<open>The service\<close>

definition toRecord :: "dispute_row \<Rightarrow> string \<Rightarrow> reversal_row option \<Rightarrow> dispute_record" where
  "toRecord d coverage r = \<lparr>dr_dispute = d, dr_coverageType = coverage,
     dr_reversal = map_option (\<lambda>x. (rv_amount x, rv_status x)) r\<rparr>"

definition get_dispute :: "string \<Rightarrow> dispute_db \<Rightarrow> dispute_record result" where
  "get_dispute i db = then_result (assertUuid i) (\<lambda>_.
     case List.find (\<lambda>d. dp_id d = uuid_value i) (dd_disputes db) of
       None \<Rightarrow> Inl (NotFound (''Unknown dispute '' @ i))
     | Some d \<Rightarrow>
         (case dd_policies db (dp_policyId d) of
            None \<Rightarrow> Inl (NotFound (''Unknown dispute '' @ i))
          | Some coverage \<Rightarrow>
              Inr (toRecord d coverage (List.find (\<lambda>r. rv_disputeId r = dp_id d) (dd_reversals db)))))"

definition refreshOpenGauge :: "dispute_db \<Rightarrow> dispute_db" where
  "refreshOpenGauge db = db\<lparr>dd_gauge := length (filter (\<lambda>d. dp_status d \<in> {DOpen, DUnderReview}) (dd_disputes db))\<rparr>"

text \<open>\<open>trust\<close> is the optional event service: absent, or whether it takes an event. A
  publication that fails is logged and dropped.\<close>

definition afterChange :: "(trust_dispute_event \<Rightarrow> bool) option \<Rightarrow> dispute_record \<Rightarrow> dispute_kind \<Rightarrow> string \<Rightarrow> dispute_db \<Rightarrow> dispute_db" where
  "afterChange trust r kind actor db =
     (let db' = refreshOpenGauge db;
          event = \<lparr>te_kind = kind, te_coverageType = dr_coverageType r,
                   te_disputeId = dp_id (dr_dispute r), te_actor = actor\<rparr>
      in case trust of
           None \<Rightarrow> db'
         | Some publish \<Rightarrow> if publish event then db'\<lparr>dd_published := dd_published db' @ [event]\<rparr> else db')"

definition finish :: "(trust_dispute_event \<Rightarrow> bool) option \<Rightarrow> string \<Rightarrow> dispute_kind \<Rightarrow> string \<Rightarrow> dispute_db \<Rightarrow> dispute_record result \<times> dispute_db" where
  "finish trust i kind actor db =
     (case get_dispute i db of
        Inl e \<Rightarrow> (Inl e, db)
      | Inr r \<Rightarrow> (Inr r, afterChange trust r kind actor db))"

definition window_closes :: "rat \<Rightarrow> settlement_row \<Rightarrow> rat" where
  "window_closes hours s = of_int (st_createdAt s) + hours * 3600 * 1000"

definition open_tx :: "(string, rat) jmap \<Rightarrow> string \<Rightarrow> open_input \<Rightarrow> time_ms \<Rightarrow> dispute_db \<Rightarrow> (string \<times> dispute_db) result" where
  "open_tx windows uuid inp now db =
     (let d = oi_decisionId inp in
      case Option.bind (dd_settlements db d) (\<lambda>s. map_option (Pair s) (dd_policies db (st_policyId s))) of
        None \<Rightarrow> Inl (NotFound (''Unknown decision '' @ d))
      | Some (s, coverage) \<Rightarrow>
          if st_status s = SPending \<or> st_status s = SSubmitted
          then Inl (Conflict (''Settlement for '' @ d @ '' is in flight; retry after reconciliation''))
          else if st_status s \<noteq> SConfirmed
          then Inl (Conflict (''Decision '' @ d @ '' did not pay out (settlement '' @ settlement_status_text (st_status s) @ '')''))
          else let closes = window_closes (windowHoursFor windows coverage) s in
            if of_int now \<ge> closes
            then Inl (Conflict (''Challenge window for '' @ d @ '' has closed''))
            else let row = \<lparr>dp_id = uuid_value uuid, dp_decisionId = d, dp_policyId = st_policyId s,
                     dp_status = DOpen, dp_reason = oi_reason inp, dp_bondReference = oi_bondReference inp,
                     dp_bondStatus = BPosted, dp_openedBy = oi_actor inp, dp_windowClosesAt = closes,
                     dp_resolutionNote = None, dp_replacementDecisionId = None,
                     dp_createdAt = now, dp_updatedAt = now, dp_resolvedAt = None\<rparr>
              in (case insert_dispute row db of
                    Inl e \<Rightarrow> if e = Err UNIQUE_VIOLATION
                             then Inl (Conflict (''Decision '' @ d @ '' already has a live dispute or is final''))
                             else Inl e
                  | Inr db' \<Rightarrow> Inr (dp_id row, db')))"

definition open_dispute :: "(string, rat) jmap \<Rightarrow> (trust_dispute_event \<Rightarrow> bool) option \<Rightarrow> string \<Rightarrow> open_input \<Rightarrow> time_ms
    \<Rightarrow> dispute_db \<Rightarrow> dispute_record result \<times> dispute_db" where
  "open_dispute windows trust uuid inp now db =
     (case inTransaction (open_tx windows uuid inp now) db of
        (Inl e, db') \<Rightarrow> (Inl e, db')
      | (Inr i, db') \<Rightarrow> finish trust i KOpened (oi_actor inp) db')"

definition blank :: "string option \<Rightarrow> bool" where
  "blank v \<longleftrightarrow> (case v of None \<Rightarrow> True | Some s \<Rightarrow> js_trim s = [])"

text \<open>The reversal is booked only when the move is to \<open>reversed\<close>.\<close>

definition book_reversal :: "string \<Rightarrow> dispute_row \<Rightarrow> settlement_row \<Rightarrow> transition_input \<Rightarrow> dispute_db \<Rightarrow> dispute_db result" where
  "book_reversal i d s inp db =
     (if ti_to inp = DReversed then
        (if blank (ti_replacementDecisionId inp)
         then Inl (BadRequest ''replacementDecisionId is required to reverse a decision'')
         else if st_status s \<noteq> SConfirmed
         then Inl (Conflict (''Settlement for '' @ dp_decisionId d @ '' is '' @ settlement_status_text (st_status s) @ ''; cannot reverse''))
         else insert_reversal \<lparr>rv_disputeId = i, rv_decisionId = dp_decisionId d, rv_policyId = dp_policyId d,
                               rv_amount = st_amount s, rv_status = Owed\<rparr> db)
      else Inr db)"

definition transition_tx :: "string \<Rightarrow> transition_input \<Rightarrow> time_ms \<Rightarrow> dispute_db \<Rightarrow> (unit \<times> dispute_db) result" where
  "transition_tx i inp now db =
     (case Option.bind (List.find (\<lambda>d. dp_id d = uuid_value i) (dd_disputes db))
             (\<lambda>d. map_option (Pair d) (dd_settlements db (dp_decisionId d))) of
        None \<Rightarrow> Inl (NotFound (''Unknown dispute '' @ i))
      | Some (d, s) \<Rightarrow>
          if ti_to inp \<notin> set (TRANSITIONS (dp_status d))
          then Inl (Conflict (''Cannot move dispute from '' @ dispute_status_text (dp_status d)
                 @ '' to '' @ dispute_status_text (ti_to inp)))
          else then_result (book_reversal (uuid_value i) d s inp db) (\<lambda>db'.
               then_result (update_dispute (uuid_value i) (dp_status d) inp now db') (\<lambda>(n, db'').
               if n = 0 then Inl (Conflict (''Dispute '' @ i @ '' changed concurrently; retry''))
               else Inr ((), db''))))"

definition transition :: "(trust_dispute_event \<Rightarrow> bool) option \<Rightarrow> string \<Rightarrow> transition_input \<Rightarrow> time_ms
    \<Rightarrow> dispute_db \<Rightarrow> dispute_record result \<times> dispute_db" where
  "transition trust i inp now db =
     (case assertUuid i of
        Inl e \<Rightarrow> (Inl e, db)
      | Inr _ \<Rightarrow>
          (case inTransaction (transition_tx i inp now) db of
             (Inl e, db') \<Rightarrow>
               (Inl (if e = Err UNIQUE_VIOLATION
                     then Conflict ''Decision already reversed or replacement decision already in use'' else e), db')
           | (Inr _, db') \<Rightarrow> finish trust i (KMoved (ti_to inp)) (ti_actor inp) db'))"

text \<open>A call of the service at a database time.\<close>

datatype dispute_call =
    COpen string open_input
  | CTransition string transition_input

fun dispute_step :: "(string, rat) jmap \<Rightarrow> (trust_dispute_event \<Rightarrow> bool) option \<Rightarrow> time_ms \<times> dispute_call \<Rightarrow> dispute_db \<Rightarrow> dispute_db" where
  "dispute_step windows trust (now, COpen uuid inp) db = snd (open_dispute windows trust uuid inp now db)"
| "dispute_step windows trust (now, CTransition i inp) db = snd (transition trust i inp now db)"

section \<open>Well-formed tables\<close>

fun bond_of :: "dispute_status \<Rightarrow> bond_status" where
  "bond_of DOpen = BPosted"
| "bond_of DUnderReview = BPosted"
| "bond_of DUpheld = BForfeited"
| "bond_of DReversed = BReturned"
| "bond_of DWithdrawn = BReturned"

definition resolved :: "dispute_row \<Rightarrow> bool" where
  "resolved d \<longleftrightarrow> TRANSITIONS (dp_status d) = []"

text \<open>One dispute: the bond follows the status, a resolution time and a replacement are
  there exactly when they should be, and the replacement is another decision.\<close>

definition dispute_ok :: "dispute_row \<Rightarrow> bool" where
  "dispute_ok d \<longleftrightarrow> dp_bondStatus d = bond_of (dp_status d)
     \<and> (dp_resolvedAt d \<noteq> None \<longleftrightarrow> resolved d)
     \<and> (dp_replacementDecisionId d \<noteq> None \<longleftrightarrow> dp_status d = DReversed)
     \<and> dp_replacementDecisionId d \<noteq> Some (dp_decisionId d)"

text \<open>A reversal belongs to a reversed dispute of the same decision and owes what was paid.\<close>

definition reversal_for :: "dispute_db \<Rightarrow> dispute_row \<Rightarrow> reversal_row \<Rightarrow> bool" where
  "reversal_for db d r \<longleftrightarrow> rv_disputeId r = dp_id d \<and> rv_decisionId r = dp_decisionId d
     \<and> rv_policyId r = dp_policyId d
     \<and> map_option st_amount (dd_settlements db (dp_decisionId d)) = Some (rv_amount r)"

text \<open>A partial unique index: two rows that have a key have different ones.\<close>

definition unique_on :: "('r \<Rightarrow> 'k option) \<Rightarrow> 'r set \<Rightarrow> bool" where
  "unique_on key rows \<longleftrightarrow> (\<forall>a \<in> rows. \<forall>b \<in> rows. \<forall>k. key a = Some k \<and> key b = Some k \<longrightarrow> a = b)"

definition live_decision :: "dispute_row \<Rightarrow> string option" where
  "live_decision d = (if live d then Some (dp_decisionId d) else None)"

definition dispute_wf :: "dispute_db \<Rightarrow> bool" where
  "dispute_wf db \<longleftrightarrow> distinct (map dp_id (dd_disputes db))
     \<and> distinct (map rv_decisionId (dd_reversals db))
     \<and> (\<forall>d \<in> set (dd_disputes db). dispute_ok d)
     \<and> unique_on live_decision (set (dd_disputes db))
     \<and> unique_on dp_replacementDecisionId (set (dd_disputes db))
     \<and> (\<forall>d \<in> set (dd_disputes db). dp_status d = DReversed \<longrightarrow> (\<exists>r \<in> set (dd_reversals db). reversal_for db d r))
     \<and> (\<forall>r \<in> set (dd_reversals db). \<exists>d \<in> set (dd_disputes db). dp_status d = DReversed \<and> reversal_for db d r)"

section \<open>What the calls do\<close>

lemma afterChange_tables [simp]:
  "dd_disputes (afterChange trust r kind actor db) = dd_disputes db"
  "dd_reversals (afterChange trust r kind actor db) = dd_reversals db"
  "dd_settlements (afterChange trust r kind actor db) = dd_settlements db"
  "dd_policies (afterChange trust r kind actor db) = dd_policies db"
  by (simp_all add: afterChange_def refreshOpenGauge_def Let_def split: option.split)

lemma finish_tables [simp]:
  "dd_disputes (snd (finish trust i kind actor db)) = dd_disputes db"
  "dd_reversals (snd (finish trust i kind actor db)) = dd_reversals db"
  "dd_settlements (snd (finish trust i kind actor db)) = dd_settlements db"
  "dd_policies (snd (finish trust i kind actor db)) = dd_policies db"
  by (simp_all add: finish_def split: sum.split)

text \<open>Everything the invariant and the life cycle read; the gauge and the published events
  are not part of it.\<close>

definition same_tables :: "dispute_db \<Rightarrow> dispute_db \<Rightarrow> bool" where
  "same_tables db db' \<longleftrightarrow> dd_disputes db' = dd_disputes db \<and> dd_reversals db' = dd_reversals db
     \<and> dd_settlements db' = dd_settlements db \<and> dd_policies db' = dd_policies db"

lemma same_tables_refl [simp]: "same_tables db db"
  by (simp add: same_tables_def)

lemma same_tables_wf: "same_tables db db' \<Longrightarrow> dispute_wf db' = dispute_wf db"
  by (simp add: same_tables_def dispute_wf_def reversal_for_def)

lemma open_step:
  "same_tables db (snd (open_dispute windows trust uuid inp now db))
   \<or> (\<exists>i db'. open_tx windows uuid inp now db = Inr (i, db')
        \<and> same_tables db' (snd (open_dispute windows trust uuid inp now db)))"
  by (auto simp: open_dispute_def inTransaction_def same_tables_def split: sum.split prod.split)

lemma transition_step:
  "same_tables db (snd (transition trust i inp now db))
   \<or> (\<exists>db'. transition_tx i inp now db = Inr ((), db')
        \<and> same_tables db' (snd (transition trust i inp now db)))"
  by (auto simp: transition_def inTransaction_def same_tables_def split: sum.split prod.split)

text \<open>A committed \<open>open\<close> appends one open row to an undisputed, confirmed decision.\<close>

lemma open_tx_InrE:
  assumes "open_tx windows uuid inp now db = Inr (i, db')"
  obtains s coverage d where
    "dd_settlements db (oi_decisionId inp) = Some s" "dd_policies db (st_policyId s) = Some coverage"
    "st_status s = SConfirmed" "of_int now < window_closes (windowHoursFor windows coverage) s"
    "db' = db\<lparr>dd_disputes := dd_disputes db @ [d]\<rparr>" "i = dp_id d" "dp_id d = uuid_value uuid"
    "dp_id d \<notin> dp_id ` set (dd_disputes db)"
    "\<not> list_ex (\<lambda>x. live x \<and> dp_decisionId x = dp_decisionId d) (dd_disputes db)"
    "dp_decisionId d = oi_decisionId inp" "dp_status d = DOpen" "dp_policyId d = st_policyId s" "dispute_ok d"
  using assms
  by (auto simp: open_tx_def insert_dispute_def Let_def dispute_ok_def resolved_def
           split: option.splits if_splits sum.splits bind_splits)

lemma unique_on_insert:
  assumes "unique_on key rows" "\<And>x. x \<in> rows \<Longrightarrow> key d \<noteq> None \<Longrightarrow> key x \<noteq> key d"
  shows "unique_on key (insert d rows)"
  using assms unfolding unique_on_def by (metis insert_iff option.discI)

lemma unique_on_subset: "unique_on key rows \<Longrightarrow> rows' \<subseteq> rows \<Longrightarrow> unique_on key rows'"
  by (auto simp: unique_on_def subset_iff)

lemma open_tx_wf:
  assumes "dispute_wf db" "open_tx windows uuid inp now db = Inr (i, db')"
  shows "dispute_wf db'"
  using assms(2)
proof (rule open_tx_InrE)
  fix s coverage d
  assume db': "db' = db\<lparr>dd_disputes := dd_disputes db @ [d]\<rparr>"
    and d: "dp_id d \<notin> dp_id ` set (dd_disputes db)"
      "\<not> list_ex (\<lambda>x. live x \<and> dp_decisionId x = dp_decisionId d) (dd_disputes db)"
      "dp_status d = DOpen" "dispute_ok d"
  have nr: "dp_replacementDecisionId d = None" using d(3,4) by (auto simp: dispute_ok_def)
  have "unique_on live_decision (insert d (set (dd_disputes db)))"
    using assms(1) d(2)
    by (intro unique_on_insert) (auto simp: dispute_wf_def live_decision_def list_ex_iff split: if_splits)
  moreover have "unique_on dp_replacementDecisionId (insert d (set (dd_disputes db)))"
    using assms(1) nr by (intro unique_on_insert) (auto simp: dispute_wf_def)
  ultimately show ?thesis
    using assms(1) d unfolding dispute_wf_def db' reversal_for_def by auto
qed

text \<open>A committed \<open>transition\<close> rewrites exactly one row, along an allowed move, and books a
  reversal exactly when that move is to \<open>reversed\<close>.\<close>

lemma update_row_set:
  assumes "distinct (map f xs)" "d \<in> set xs" "\<And>x. x \<in> set xs \<Longrightarrow> hit x \<longleftrightarrow> x = d"
  shows "set (map (\<lambda>x. if hit x then g x else x) xs) = insert (g d) (set xs - {d})"
proof -
  have "set (map (\<lambda>x. if hit x then g x else x) xs) = (\<lambda>x. if x = d then g x else x) ` set xs"
    using assms(3) by (auto simp: image_iff)
  then show ?thesis using assms(2) by auto
qed

lemma moved_fields [simp]:
  "dp_id (moved inp now d) = dp_id d" "dp_decisionId (moved inp now d) = dp_decisionId d"
  "dp_policyId (moved inp now d) = dp_policyId d" "dp_status (moved inp now d) = ti_to inp"
  by (simp_all add: moved_def)

definition owed_reversals :: "dispute_row \<Rightarrow> settlement_row \<Rightarrow> transition_input \<Rightarrow> reversal_row list" where
  "owed_reversals d s inp =
     (if ti_to inp = DReversed
      then [\<lparr>rv_disputeId = dp_id d, rv_decisionId = dp_decisionId d, rv_policyId = dp_policyId d,
             rv_amount = st_amount s, rv_status = Owed\<rparr>]
      else [])"

lemma book_reversal_Inr:
  assumes "book_reversal (dp_id d) d s inp db = Inr db1"
  shows "db1 = db\<lparr>dd_reversals := dd_reversals db @ owed_reversals d s inp\<rparr>"
    and "ti_to inp = DReversed \<Longrightarrow> dp_decisionId d \<notin> rv_decisionId ` set (dd_reversals db)"
    and "ti_to inp = DReversed \<Longrightarrow> ti_replacementDecisionId inp \<noteq> None \<and> st_status s = SConfirmed"
  using assms
  by (auto simp: book_reversal_def owed_reversals_def insert_reversal_def blank_def split: if_splits option.splits)

lemma transition_tx_InrE:
  assumes "distinct (map dp_id (dd_disputes db))" "transition_tx i inp now db = Inr ((), db')"
  obtains d s where
    "d \<in> set (dd_disputes db)" "dp_id d = uuid_value i" "dd_settlements db (dp_decisionId d) = Some s"
    "ti_to inp \<in> set (TRANSITIONS (dp_status d))"
    "ti_to inp = DReversed \<Longrightarrow> dp_decisionId d \<notin> rv_decisionId ` set (dd_reversals db)"
    "ti_to inp = DReversed \<Longrightarrow> ti_replacementDecisionId inp \<noteq> None \<and> st_status s = SConfirmed"
    "set (dd_disputes db') = insert (moved inp now d) (set (dd_disputes db) - {d})"
    "map dp_id (dd_disputes db') = map dp_id (dd_disputes db)"
    "dd_reversals db' = dd_reversals db @ owed_reversals d s inp"
    "dd_settlements db' = dd_settlements db" "dd_policies db' = dd_policies db"
    "dp_replacementDecisionId (moved inp now d) \<noteq> Some (dp_decisionId d)"
    "\<And>x. x \<in> set (dd_disputes db) - {d} \<Longrightarrow> dp_replacementDecisionId (moved inp now d) \<noteq> None
       \<Longrightarrow> dp_replacementDecisionId x \<noteq> dp_replacementDecisionId (moved inp now d)"
proof -
  from assms(2) obtain d s db1 n where
      f: "List.find (\<lambda>d. dp_id d = uuid_value i) (dd_disputes db) = Some d"
    and s: "dd_settlements db (dp_decisionId d) = Some s"
    and t: "ti_to inp \<in> set (TRANSITIONS (dp_status d))"
    and b: "book_reversal (uuid_value i) d s inp db = Inr db1"
    and u: "update_dispute (uuid_value i) (dp_status d) inp now db1 = Inr (n, db')"
    by (auto simp: transition_tx_def split: option.splits if_splits bind_splits elim!: then_result_InrE)
  from f have d: "d \<in> set (dd_disputes db)" "dp_id d = uuid_value i"
    by (auto simp: find_Some_iff)
  from b d(2) have b': "book_reversal (dp_id d) d s inp db = Inr db1" by simp
  note db1 = book_reversal_Inr(1) [OF b']
  define hit where "hit = (\<lambda>x :: dispute_row. dp_id x = uuid_value i \<and> dp_status x = dp_status d)"
  have hit: "hit x \<longleftrightarrow> x = d" if "x \<in> set (dd_disputes db)" for x
    using that d assms(1) by (auto simp: hit_def distinct_map inj_on_def)
  let ?rows = "map (\<lambda>x. if hit x then moved inp now x else x) (dd_disputes db)"
  have rows: "set ?rows = insert (moved inp now d) (set (dd_disputes db) - {d})"
    by (rule update_row_set [OF assms(1) d(1) hit])
  have ids: "map dp_id ?rows = map dp_id (dd_disputes db)" by simp
  have oth: "dp_id x \<noteq> uuid_value i" if "x \<in> set (dd_disputes db) - {d}" for x
    using that d assms(1) by (auto simp: distinct_map inj_on_def)
  have upd: "dd_disputes db' = ?rows" "dd_reversals db' = dd_reversals db @ owed_reversals d s inp"
    "dd_settlements db' = dd_settlements db" "dd_policies db' = dd_policies db"
    using u by (auto simp: update_dispute_def db1 hit_def Let_def split: if_splits)
  have chk: "\<not> list_ex (\<lambda>d. dp_replacementDecisionId d = Some (dp_decisionId d)) (filter (\<lambda>d. dp_id d = uuid_value i) ?rows)"
    "\<not> list_ex (\<lambda>d. dp_replacementDecisionId d \<noteq> None
        \<and> list_ex (\<lambda>x. dp_id x \<noteq> uuid_value i \<and> dp_replacementDecisionId x = dp_replacementDecisionId d) ?rows)
        (filter (\<lambda>d. dp_id d = uuid_value i) ?rows)"
    using u by (auto simp: update_dispute_def db1 hit_def Let_def split: if_splits)
  have m: "moved inp now d \<in> set ?rows" "dp_id (moved inp now d) = uuid_value i"
    unfolding rows using d(2) by simp_all
  show thesis
  proof (rule that [OF d s t book_reversal_Inr(2) [OF b'] book_reversal_Inr(3) [OF b']])
    show "dp_replacementDecisionId (moved inp now d) \<noteq> Some (dp_decisionId d)"
    proof
      assume "dp_replacementDecisionId (moved inp now d) = Some (dp_decisionId d)"
      then have "dp_replacementDecisionId (moved inp now d) = Some (dp_decisionId (moved inp now d))" by simp
      with chk(1) m show False unfolding list_ex_iff set_filter by blast
    qed
    show "dp_replacementDecisionId x \<noteq> dp_replacementDecisionId (moved inp now d)"
      if "x \<in> set (dd_disputes db) - {d}" "dp_replacementDecisionId (moved inp now d) \<noteq> None" for x
    proof
      assume "dp_replacementDecisionId x = dp_replacementDecisionId (moved inp now d)"
      moreover have "x \<in> set ?rows" using that(1) unfolding rows by simp
      ultimately show False using chk(2) m that(2) oth [OF that(1)] unfolding list_ex_iff set_filter by blast
    qed
  qed (use rows ids upd in simp_all)
qed

lemma moved_ok:
  assumes "dispute_ok d" "ti_to inp \<in> set (TRANSITIONS (dp_status d))"
    and "ti_to inp = DReversed \<Longrightarrow> ti_replacementDecisionId inp \<noteq> None"
    and "dp_replacementDecisionId (moved inp now d) \<noteq> Some (dp_decisionId d)"
  shows "dispute_ok (moved inp now d)"
  using assms
  by (cases "dp_status d"; cases "ti_to inp")
     (auto simp: dispute_ok_def moved_def resolved_def coalesce_def)

lemma transition_tx_wf:
  assumes wf: "dispute_wf db" and tx: "transition_tx i inp now db = Inr ((), db')"
  shows "dispute_wf db'"
proof -
  have "distinct (map dp_id (dd_disputes db))" using wf by (simp add: dispute_wf_def)
  then show ?thesis using tx
  proof (rule transition_tx_InrE)
    fix d s
    assume d: "d \<in> set (dd_disputes db)" "dp_id d = uuid_value i"
      and s: "dd_settlements db (dp_decisionId d) = Some s"
      and t: "ti_to inp \<in> set (TRANSITIONS (dp_status d))"
      and fresh: "ti_to inp = DReversed \<Longrightarrow> dp_decisionId d \<notin> rv_decisionId ` set (dd_reversals db)"
      and repl: "ti_to inp = DReversed \<Longrightarrow> ti_replacementDecisionId inp \<noteq> None \<and> st_status s = SConfirmed"
      and rows: "set (dd_disputes db') = insert (moved inp now d) (set (dd_disputes db) - {d})"
      and ids: "map dp_id (dd_disputes db') = map dp_id (dd_disputes db)"
      and revs: "dd_reversals db' = dd_reversals db @ owed_reversals d s inp"
      and settle: "dd_settlements db' = dd_settlements db"
      and chk: "dp_replacementDecisionId (moved inp now d) \<noteq> Some (dp_decisionId d)"
      and uniq: "\<And>x. x \<in> set (dd_disputes db) - {d} \<Longrightarrow> dp_replacementDecisionId (moved inp now d) \<noteq> None
          \<Longrightarrow> dp_replacementDecisionId x \<noteq> dp_replacementDecisionId (moved inp now d)"
    have ok: "dispute_ok (moved inp now d)"
      using wf d(1) t repl chk by (intro moved_ok) (auto simp: dispute_wf_def)
    have rf: "reversal_for db' = reversal_for db" by (simp add: reversal_for_def fun_eq_iff settle)
    have nlive: "live d" and nrev: "dp_status d \<noteq> DReversed" using t by (auto simp: live_def)
    have "unique_on live_decision (insert (moved inp now d) (set (dd_disputes db) - {d}))"
      using wf d(1) nlive
      by (intro unique_on_insert)
         (auto simp: dispute_wf_def live_decision_def unique_on_def split: if_splits)
    moreover have "unique_on dp_replacementDecisionId (insert (moved inp now d) (set (dd_disputes db) - {d}))"
      using wf uniq
      by (intro unique_on_insert) (auto simp: dispute_wf_def intro: unique_on_subset)
    moreover have "distinct (map rv_decisionId (dd_reversals db'))"
      using wf fresh by (auto simp: dispute_wf_def revs owed_reversals_def)
    moreover have "\<exists>r \<in> set (dd_reversals db'). reversal_for db' x r"
      if "x \<in> set (dd_disputes db')" "dp_status x = DReversed" for x
    proof (cases "x = moved inp now d")
      case True
      then show ?thesis using that(2) s by (auto simp: revs reversal_for_def owed_reversals_def settle)
    next
      case False
      then have "x \<in> set (dd_disputes db)" using that(1) rows by auto
      then have "\<exists>r \<in> set (dd_reversals db). reversal_for db x r" using wf that(2) by (simp add: dispute_wf_def)
      then show ?thesis by (auto simp: rf revs)
    qed
    moreover have "\<exists>x \<in> set (dd_disputes db'). dp_status x = DReversed \<and> reversal_for db' x r"
      if "r \<in> set (dd_reversals db')" for r
    proof (cases "r \<in> set (dd_reversals db)")
      case True
      then obtain x where "x \<in> set (dd_disputes db)" "dp_status x = DReversed" "reversal_for db x r"
        using wf by (auto simp: dispute_wf_def)
      then show ?thesis using nrev by (auto simp: rows rf intro!: bexI [of _ x])
    next
      case False
      then show ?thesis using that s
        by (auto simp: rows revs reversal_for_def owed_reversals_def settle split: if_splits)
    qed
    ultimately show ?thesis
      using wf ok ids rows by (simp add: dispute_wf_def)
  qed
qed

lemma dispute_step_wf [inv_intros]: "dispute_wf db \<Longrightarrow> dispute_wf (dispute_step windows trust ev db)"
proof (cases ev)
  fix now c
  assume wf: "dispute_wf db" and ev: "ev = (now, c)"
  show ?thesis
  proof (cases c)
    case (COpen uuid inp)
    then show ?thesis
      using ev wf open_step [of db windows trust uuid inp now] open_tx_wf [OF wf] same_tables_wf by auto
  next
    case (CTransition i inp)
    then show ?thesis
      using ev wf transition_step [of db trust i inp now] transition_tx_wf [OF wf] same_tables_wf by auto
  qed
qed

section \<open>The life of a dispute\<close>

definition dispute_moves :: "dispute_status \<Rightarrow> dispute_status \<Rightarrow> bool" where
  "dispute_moves a b \<longleftrightarrow> b \<in> set (TRANSITIONS a)"

definition dispute_becomes :: "dispute_row \<Rightarrow> dispute_row \<Rightarrow> bool" where
  "dispute_becomes d d' \<longleftrightarrow> dp_id d' = dp_id d \<and> dp_decisionId d' = dp_decisionId d
     \<and> dp_policyId d' = dp_policyId d \<and> dp_reason d' = dp_reason d
     \<and> dp_bondReference d' = dp_bondReference d \<and> dp_openedBy d' = dp_openedBy d
     \<and> dp_windowClosesAt d' = dp_windowClosesAt d \<and> dp_createdAt d' = dp_createdAt d
     \<and> dispute_moves\<^sup>*\<^sup>* (dp_status d) (dp_status d') \<and> (resolved d \<longrightarrow> d' = d)"

lemma dispute_becomes_refl [simp]: "dispute_becomes d d"
  by (simp add: dispute_becomes_def)

lemma dispute_becomes_trans: "dispute_becomes a b \<Longrightarrow> dispute_becomes b c \<Longrightarrow> dispute_becomes a c"
  by (auto simp: dispute_becomes_def)

lemma moved_becomes:
  assumes "ti_to inp \<in> set (TRANSITIONS (dp_status d))"
  shows "dispute_becomes d (moved inp now d)"
  using assms by (auto simp: dispute_becomes_def moved_def resolved_def dispute_moves_def)

lemma dispute_step_row:
  assumes "dispute_wf db" "d \<in> set (dd_disputes db)"
  shows "\<exists>d' \<in> set (dd_disputes (dispute_step windows trust ev db)). dispute_becomes d d'"
proof (cases ev)
  case (Pair now c)
  have ids: "distinct (map dp_id (dd_disputes db))" using assms by (simp add: dispute_wf_def)
  have keep: "\<exists>d' \<in> set (dd_disputes db2). dispute_becomes d d'" if "same_tables db db2" for db2
    using that assms(2) by (auto simp: same_tables_def intro: bexI [of _ d])
  show ?thesis
  proof (cases c)
    case (COpen uuid inp)
    from open_step [of db windows trust uuid inp now] show ?thesis
    proof (elim disjE exE conjE)
      fix i db'
      assume "open_tx windows uuid inp now db = Inr (i, db')"
        and "same_tables db' (snd (open_dispute windows trust uuid inp now db))"
      then show ?thesis using assms(2) Pair COpen
        by (auto simp: same_tables_def elim!: open_tx_InrE intro: bexI [of _ d])
    qed (use keep Pair COpen in simp)
  next
    case (CTransition i inp)
    from transition_step [of db trust i inp now] show ?thesis
    proof (elim disjE exE conjE)
      fix db'
      assume "transition_tx i inp now db = Inr ((), db')"
        and same: "same_tables db' (snd (transition trust i inp now db))"
      from ids this(1) show ?thesis
      proof (rule transition_tx_InrE)
        fix e s
        assume "ti_to inp \<in> set (TRANSITIONS (dp_status e))"
          and rows: "set (dd_disputes db') = insert (moved inp now e) (set (dd_disputes db) - {e})"
        then have "dispute_becomes e (moved inp now e)" by (simp add: moved_becomes)
        then show ?thesis using same assms(2) Pair CTransition rows
          by (cases "d = e") (auto simp: same_tables_def intro: bexI [of _ d])
      qed
    qed (use keep Pair CTransition in simp)
  qed
qed

interpretation dispute_life: row_lifecycle "dispute_step windows trust" dispute_wf "\<lambda>db. set (dd_disputes db)" dispute_becomes
  for windows trust
  by unfold_locales (auto intro: dispute_step_wf dispute_step_row dispute_becomes_trans)

section \<open>When a decision can be challenged\<close>

lemma find_snoc_fresh: "x \<notin> f ` set xs \<Longrightarrow> f y = x \<Longrightarrow> List.find (\<lambda>z. f z = x) (xs @ [y]) = Some y"
  by (induction xs) auto

lemma finish_ok:
  assumes "uuid_pattern i" "List.find (\<lambda>d. dp_id d = uuid_value i) (dd_disputes db) = Some d"
    and "dd_policies db (dp_policyId d) = Some coverage"
  shows "is_ok (fst (finish trust i kind actor db))"
  using assms by (simp add: finish_def get_dispute_def assertUuid_def)

lemma open_ok_tx: "is_ok (fst (open_dispute windows trust uuid inp now db)) \<Longrightarrow> is_ok (open_tx windows uuid inp now db)"
  by (auto simp: open_dispute_def inTransaction_def is_ok_iff split: sum.splits prod.splits)

lemma hex_lower: "is_hex c \<Longrightarrow> is_hex (char_lower c)"
proof -
  assume h: "is_hex c"
  show ?thesis
  proof (cases "65 \<le> (of_char c :: nat) \<and> (of_char c :: nat) \<le> 90")
    case True
    then have "of_char (char_lower c) = (of_char c + 32 :: nat)" by (simp add: char_lower_def)
    with h True show ?thesis by (simp add: is_hex_def is_digit_def)
  next
    case False
    then have "char_lower c = c" by (auto simp: char_lower_def)
    with h show ?thesis by simp
  qed
qed

lemma char_lower_minus [simp]: "char_lower (CHR ''-'') = CHR ''-''"
  by (simp add: char_lower_def)

lemma char_lower_idem [simp]: "char_lower (char_lower c) = char_lower c"
proof (cases "65 \<le> (of_char c :: nat) \<and> (of_char c :: nat) \<le> 90")
  case True
  then have "of_char (char_lower c) = (of_char c + 32 :: nat)" by (simp add: char_lower_def)
  with True show ?thesis by (subst char_lower_def) simp
next
  case False
  then have "char_lower c = c" by (auto simp: char_lower_def)
  then show ?thesis by simp
qed

lemma uuid_value_idem [simp]: "uuid_value (uuid_value i) = uuid_value i"
  by (simp add: uuid_value_def)

lemma uuid_pattern_value: "uuid_pattern i \<Longrightarrow> uuid_pattern (uuid_value i)"
  by (auto simp: uuid_pattern_def uuid_value_def list_all_length hex_lower split: if_splits)

lemma open_tx_ok_iff:
  "is_ok (open_tx windows uuid inp now db) \<longleftrightarrow>
     (\<exists>s coverage. dd_settlements db (oi_decisionId inp) = Some s \<and> dd_policies db (st_policyId s) = Some coverage
        \<and> st_status s = SConfirmed \<and> of_int now < window_closes (windowHoursFor windows coverage) s)
     \<and> 1 \<le> length (oi_reason inp) \<and> length (oi_reason inp) \<le> 2000
     \<and> uuid_value uuid \<notin> dp_id ` set (dd_disputes db)
     \<and> \<not> (\<exists>d \<in> set (dd_disputes db). live d \<and> dp_decisionId d = oi_decisionId inp)"
proof (cases "Option.bind (dd_settlements db (oi_decisionId inp)) (\<lambda>s. map_option (Pair s) (dd_policies db (st_policyId s)))")
  case None
  then have "\<not> is_ok (open_tx windows uuid inp now db)" by (simp add: open_tx_def Let_def)
  moreover have "\<not> (\<exists>s coverage. dd_settlements db (oi_decisionId inp) = Some s \<and> dd_policies db (st_policyId s) = Some coverage)"
    using None by (auto split: bind_splits)
  ultimately show ?thesis by blast
next
  case (Some x)
  then obtain s coverage where x: "x = (s, coverage)" "dd_settlements db (oi_decisionId inp) = Some s"
      "dd_policies db (st_policyId s) = Some coverage"
    by (auto split: bind_splits)
  show ?thesis
    unfolding open_tx_def Let_def Some x(1)
    by (cases "st_status s") (auto simp: x(2,3) insert_dispute_def list_ex_iff UNIQUE_VIOLATION_def CHECK_VIOLATION_def)
qed

text \<open>A challenge is accepted exactly for a confirmed payout of a known policy, strictly
  before its window closes by the database clock, with a reason of 1 to 2000 characters, and
  when no dispute that has not been withdrawn exists on the decision; every other request is
  refused. The drawn identifier is a UUID no dispute has.\<close>

theorem open_dispute_accepted_iff:
  assumes "uuid_pattern uuid" "uuid_value uuid \<notin> dp_id ` set (dd_disputes db)"
  shows "is_ok (fst (open_dispute windows trust uuid inp now db)) \<longleftrightarrow>
     (\<exists>s coverage. dd_settlements db (oi_decisionId inp) = Some s \<and> dd_policies db (st_policyId s) = Some coverage
        \<and> st_status s = SConfirmed
        \<and> of_int now < of_int (st_createdAt s) + windowHoursFor windows coverage * 3600 * 1000)
     \<and> 1 \<le> length (oi_reason inp) \<and> length (oi_reason inp) \<le> 2000
     \<and> \<not> (\<exists>d \<in> set (dd_disputes db). dp_status d \<noteq> DWithdrawn \<and> dp_decisionId d = oi_decisionId inp)"
  (is "?ok \<longleftrightarrow> ?cond")
proof -
  have "?ok" if tx: "is_ok (open_tx windows uuid inp now db)"
  proof -
    from tx obtain i db' where r: "open_tx windows uuid inp now db = Inr (i, db')" by (auto simp: is_ok_iff)
    from r show ?thesis
    proof (rule open_tx_InrE)
      fix s coverage d
      assume d: "dd_policies db (st_policyId s) = Some coverage" "db' = db\<lparr>dd_disputes := dd_disputes db @ [d]\<rparr>"
        "i = dp_id d" "dp_id d = uuid_value uuid" "dp_id d \<notin> dp_id ` set (dd_disputes db)" "dp_policyId d = st_policyId s"
      then have "List.find (\<lambda>x. dp_id x = uuid_value i) (dd_disputes db') = Some d"
        using find_snoc_fresh [of "dp_id d" dp_id "dd_disputes db" d] by simp
      then show ?thesis
        using finish_ok [of i db' d coverage] d uuid_pattern_value [OF assms(1)]
        by (simp add: open_dispute_def inTransaction_def r)
    qed
  qed
  then have "?ok \<longleftrightarrow> is_ok (open_tx windows uuid inp now db)" using open_ok_tx by blast
  then show ?thesis using assms(2) by (simp add: open_tx_ok_iff live_def window_closes_def)
qed

lemma reversed_iff_booked:
  assumes wf: "dispute_wf db" and d: "d \<in> set (dd_disputes db)"
  shows "dp_status d = DReversed \<longleftrightarrow>
      (\<exists>r \<in> set (dd_reversals db). rv_disputeId r = dp_id d \<and> rv_decisionId r = dp_decisionId d
         \<and> map_option st_amount (dd_settlements db (dp_decisionId d)) = Some (rv_amount r))"
    (is "_ \<longleftrightarrow> ?r")
proof
  assume "dp_status d = DReversed"
  then have "\<exists>r \<in> set (dd_reversals db). reversal_for db d r" using wf d by (simp add: dispute_wf_def)
  then show ?r by (auto simp: reversal_for_def)
next
  assume ?r
  then obtain r where "r \<in> set (dd_reversals db)" "rv_disputeId r = dp_id d" by blast
  with wf obtain e where "e \<in> set (dd_disputes db)" "dp_status e = DReversed" "dp_id e = dp_id d"
    by (auto simp: dispute_wf_def reversal_for_def)
  with wf d show "dp_status d = DReversed" by (auto simp: dispute_wf_def distinct_map inj_on_def)
qed

definition sample_uuid :: string where
  "sample_uuid = ''3F2504E0-4f89-11d3-9a0c-0305e82c3301''"

definition sample_dispute_db :: dispute_db where
  "sample_dispute_db = \<lparr>
     dd_settlements = [''dec-1'' \<mapsto> \<lparr>st_policyId = ''p1'', st_amount = 5, st_status = SConfirmed, st_createdAt = 1000\<rparr>],
     dd_policies = [''p1'' \<mapsto> ''stablecoin_depeg''],
     dd_disputes = [], dd_reversals = [], dd_gauge = 0, dd_published = []\<rparr>"

definition sample_open :: open_input where
  "sample_open = \<lparr>oi_decisionId = ''dec-1'', oi_reason = ''stale feed'', oi_bondReference = ''b1'', oi_actor = ''ana''\<rparr>"

definition sample_move :: "dispute_status \<Rightarrow> transition_input" where
  "sample_move st = \<lparr>ti_to = st, ti_note = None, ti_replacementDecisionId = Some '' dec-2 '', ti_actor = ''ops''\<rparr>"

lemma sample_uuid_pattern: "uuid_pattern sample_uuid"
  by code_simp



text \<open>C19. An upheld or reversed dispute makes its decision final: whatever calls follow, the
  row of the dispute is left as it is, and no challenge of the decision is accepted again.\<close>

theorem resolved_decision_final:
  assumes wf: "dispute_wf db" and d: "d \<in> set (dd_disputes db)" "dp_status d = DUpheld \<or> dp_status d = DReversed"
  shows "d \<in> set (dd_disputes (fold (dispute_step windows trust) calls db))
    \<and> (oi_decisionId inp = dp_decisionId d \<longrightarrow>
        \<not> is_ok (fst (open_dispute windows trust uuid inp now (fold (dispute_step windows trust) calls db))))"
proof -
  let ?db = "fold (dispute_step windows trust) calls db"
  from dispute_life.run_row [OF wf d(1)] obtain d' where "d' \<in> set (dd_disputes ?db)" "dispute_becomes d d'" by blast
  moreover have "resolved d" using d(2) by (auto simp: resolved_def)
  ultimately have kept: "d \<in> set (dd_disputes ?db)" by (auto simp: dispute_becomes_def)
  moreover have "live d" using d(2) by (auto simp: live_def)
  ultimately have "\<not> is_ok (open_tx windows uuid inp now ?db)" if "oi_decisionId inp = dp_decisionId d"
    using that by (auto simp: open_tx_ok_iff)
  with kept show ?thesis using open_ok_tx by blast
qed

theorem resolved_decision_final_witness:
  "\<exists>db d. dispute_wf db \<and> d \<in> set (dd_disputes db) \<and> dp_status d = DReversed \<and> dp_decisionId d = ''dec-1''
     \<and> \<not> is_ok (fst (open_dispute [] None sample_uuid sample_open 2000
          (fold (dispute_step [] None) [(1, CTransition sample_uuid (sample_move DWithdrawn))] db)))"
proof -
  let ?db = "fold (dispute_step [] None)
       [(2000, COpen sample_uuid sample_open), (3000, CTransition sample_uuid (sample_move DUnderReview)),
        (4000, CTransition sample_uuid (sample_move DReversed))] sample_dispute_db"
  have "dispute_wf sample_dispute_db" by (simp add: sample_dispute_db_def dispute_wf_def unique_on_def)
  then have wf: "dispute_wf ?db" by (rule dispute_life.run_ok)
  have "map (\<lambda>d. (dp_status d, dp_decisionId d)) (dd_disputes ?db) = [(DReversed, ''dec-1'')]" by code_simp
  then obtain d where "d \<in> set (dd_disputes ?db)" "dp_status d = DReversed" "dp_decisionId d = ''dec-1''" by auto
  moreover have "oi_decisionId sample_open = ''dec-1''" by (simp add: sample_open_def)
  ultimately show ?thesis using resolved_decision_final [OF wf] wf by metis
qed

end
