(* ===== verification/Coverage_Types.thy ===== *)
theory Coverage_Types
  imports Refract_Prelude
begin

text \<open>
  The four spellings of a coverage type and the helpers that convert between them
  (\<open>common/coverage-type.map.ts\<close>). A string that the type checker restricts to a variant
  name is still a string; an object literal is the list of its entries in source order.
\<close>

definition COVERAGE_TYPE_CODE :: "(string \<times> int) list" where
  "COVERAGE_TYPE_CODE = [(''StablecoinDepeg'', 0), (''MarketCrash'', 1), (''LiquidationShield'', 2),
     (''SmartContractRisk'', 3), (''FlightDelay'', 4)]"

definition COVERAGE_TYPE_CODES :: "int list" where
  "COVERAGE_TYPE_CODES = map snd COVERAGE_TYPE_CODE"

definition CoverageTypeName :: "(string \<times> string) list" where
  "CoverageTypeName = [(''StablecoinDepeg'', ''StablecoinDepeg''), (''MarketCrash'', ''MarketCrash''),
     (''LiquidationShield'', ''LiquidationShield''), (''SmartContractRisk'', ''SmartContractRisk''),
     (''FlightDelay'', ''FlightDelay'')]"

definition COVERAGE_TYPE_PG :: "(string \<times> string) list" where
  "COVERAGE_TYPE_PG = [(''StablecoinDepeg'', ''stablecoin_depeg''), (''MarketCrash'', ''market_crash''),
     (''LiquidationShield'', ''liquidation_shield''), (''SmartContractRisk'', ''smart_contract_risk''),
     (''FlightDelay'', ''flight_delay'')]"

definition COVERAGE_TYPE_LABEL :: "(string \<times> string) list" where
  "COVERAGE_TYPE_LABEL = [(''StablecoinDepeg'', ''Stablecoin Depeg''), (''MarketCrash'', ''Market Crash''),
     (''LiquidationShield'', ''Liquidation Shield''), (''SmartContractRisk'', ''Smart Contract Risk''),
     (''FlightDelay'', ''Flight Delay'')]"

definition COVERAGE_TYPE_RISK_MULTIPLIER :: "(string \<times> rat) list" where
  "COVERAGE_TYPE_RISK_MULTIPLIER = [(''StablecoinDepeg'', 1), (''MarketCrash'', 3 / 2),
     (''LiquidationShield'', 2), (''SmartContractRisk'', 3), (''FlightDelay'', 4 / 5)]"

definition COVERAGE_TYPE_TRIGGER_THRESHOLD :: "(string \<times> int) list" where
  "COVERAGE_TYPE_TRIGGER_THRESHOLD = [(''StablecoinDepeg'', 500), (''MarketCrash'', 3000),
     (''LiquidationShield'', 500), (''SmartContractRisk'', 500), (''FlightDelay'', 120)]"

definition COVERAGE_TYPE_STATUSES :: "string list" where
  "COVERAGE_TYPE_STATUSES = [''draft'', ''live'']"

definition PUBLIC_COVERAGE_TYPE_STATUS :: string where
  "PUBLIC_COVERAGE_TYPE_STATUS = ''live''"

definition isValidCoverageTypeStatus :: "string \<Rightarrow> bool" where
  "isValidCoverageTypeStatus s \<longleftrightarrow> s \<in> set COVERAGE_TYPE_STATUSES"

definition isPubliclyVisibleCoverageTypeStatus :: "string \<Rightarrow> bool" where
  "isPubliclyVisibleCoverageTypeStatus s \<longleftrightarrow> s = PUBLIC_COVERAGE_TYPE_STATUS"

record coverage_approval =
  ca_draftedBy :: string
  ca_draftedAt :: string
  ca_publishedBy :: string
  ca_publishedAt :: string

definition buildCoverageTypeApprovalRecord :: "coverage_approval \<Rightarrow> coverage_approval" where
  "buildCoverageTypeApprovalRecord params = \<lparr>ca_draftedBy = ca_draftedBy params, ca_draftedAt = ca_draftedAt params,
     ca_publishedBy = ca_publishedBy params, ca_publishedAt = ca_publishedAt params\<rparr>"

definition codeToSoroban :: "int \<Rightarrow> string result" where
  "codeToSoroban code =
     (case List.find (\<lambda>e. snd e = code) COVERAGE_TYPE_CODE of
        None \<Rightarrow> Inl (Err (''Unknown coverage type code: '' @ big_to_string code))
      | Some e \<Rightarrow> Inr (fst e))"

definition codeToPg :: "int \<Rightarrow> string result" where
  "codeToPg code = then_result (codeToSoroban code) (\<lambda>s. Inr (the (map_of COVERAGE_TYPE_PG s)))"

definition pgToCode :: "string \<Rightarrow> int result" where
  "pgToCode pg =
     (case List.find (\<lambda>e. snd e = pg) COVERAGE_TYPE_PG of
        None \<Rightarrow> Inl (Err (''Unknown Postgres coverage_type: '' @ pg))
      | Some e \<Rightarrow> Inr (the (map_of COVERAGE_TYPE_CODE (fst e))))"

definition isValidCoverageTypeCode :: "int \<Rightarrow> bool" where
  "isValidCoverageTypeCode n \<longleftrightarrow> n \<in> set COVERAGE_TYPE_CODES"

lemma valid_code_iff: "isValidCoverageTypeCode n \<longleftrightarrow> n \<in> {0, 1, 2, 3, 4}"
  by (simp add: isValidCoverageTypeCode_def COVERAGE_TYPE_CODES_def COVERAGE_TYPE_CODE_def)

text \<open>Every table has an entry for every variant, so the lookups inside the helpers never
  read \<open>undefined\<close>.\<close>

lemma coverage_tables_complete:
  "map fst COVERAGE_TYPE_PG = map fst COVERAGE_TYPE_CODE" "map fst CoverageTypeName = map fst COVERAGE_TYPE_CODE"
  "map fst COVERAGE_TYPE_LABEL = map fst COVERAGE_TYPE_CODE"
  "map fst COVERAGE_TYPE_RISK_MULTIPLIER = map fst COVERAGE_TYPE_CODE"
  "map fst COVERAGE_TYPE_TRIGGER_THRESHOLD = map fst COVERAGE_TYPE_CODE"
  by (simp_all add: COVERAGE_TYPE_PG_def COVERAGE_TYPE_CODE_def CoverageTypeName_def COVERAGE_TYPE_LABEL_def
        COVERAGE_TYPE_RISK_MULTIPLIER_def COVERAGE_TYPE_TRIGGER_THRESHOLD_def)

lemma codeToSoroban_ok: "is_ok (codeToSoroban n) \<longleftrightarrow> isValidCoverageTypeCode n"
  by (auto simp: valid_code_iff codeToSoroban_def COVERAGE_TYPE_CODE_def is_ok_def split: option.splits)

lemma codeToSoroban_map_of: "codeToSoroban n = Inr name \<Longrightarrow> map_of COVERAGE_TYPE_CODE name = Some n"
  by (auto simp: codeToSoroban_def COVERAGE_TYPE_CODE_def split: option.splits if_splits)

lemma codeToSoroban_inj: "codeToSoroban m = Inr name \<Longrightarrow> codeToSoroban n = Inr name \<Longrightarrow> m = n"
  using codeToSoroban_map_of [of m name] codeToSoroban_map_of [of n name] by simp

lemma codeToPg_ok: "is_ok (codeToPg n) \<longleftrightarrow> isValidCoverageTypeCode n"
  using codeToSoroban_ok [of n] by (cases "codeToSoroban n") (auto simp: codeToPg_def)

lemma pg_values: "map_of COVERAGE_TYPE_PG s = Some p \<Longrightarrow> map_of COVERAGE_TYPE_CODE s = Some n \<Longrightarrow> pgToCode p = Inr n"
  by (auto simp: pgToCode_def COVERAGE_TYPE_PG_def COVERAGE_TYPE_CODE_def split: if_splits)

text \<open>The numeric code of a coverage type and its Postgres spelling are in bijection: a
  code has a spelling exactly when it is one of 0 to 4, converting it back gives the code,
  and a spelling that converts to a code is the spelling of that code.\<close>

theorem coverage_type_spellings:
  "(is_ok (codeToPg n) \<longleftrightarrow> 0 \<le> n \<and> n \<le> 4)
   \<and> (\<forall>pg. codeToPg n = Inr pg \<longleftrightarrow> pgToCode pg = Inr n)"
proof (intro conjI allI)
  show "is_ok (codeToPg n) \<longleftrightarrow> 0 \<le> n \<and> n \<le> 4"
    using codeToPg_ok [of n] by (auto simp: valid_code_iff)
  fix pg
  show "codeToPg n = Inr pg \<longleftrightarrow> pgToCode pg = Inr n"
    by (auto simp: codeToPg_def codeToSoroban_def pgToCode_def COVERAGE_TYPE_CODE_def COVERAGE_TYPE_PG_def
             split: if_splits)
qed

end
