(* ===== verification/Oracle_Control.thy ===== *)
theory Oracle_Control
  imports Coverage_Types
begin

text \<open>
  The operator's pause of oracle-driven payouts (\<open>oracle/control.ts\<close>) over the Postgres
  tables \<open>oracle_pause_state\<close> and \<open>oracle_pause_audit\<close> and the Redis snapshot it caches
  through \<open>cache/cache.service.ts\<close>. Redis keeps a value with the time it expires; a Redis
  command that fails is swallowed by the cache service, which answers a miss. Whether Redis
  and Postgres answer a call is part of the call. Dates are epoch milliseconds.

  The main result bounds what the cache can hide: a pause is effective at once when the
  invalidation reached Redis, and in every case after the time-to-live of the snapshot.
\<close>

section \<open>The cache\<close>

text \<open>One key of Redis: the stored value and when it expires.\<close>

type_synonym 'v redis_key = "('v \<times> time_ms option) option"

definition redis_get :: "time_ms \<Rightarrow> 'v redis_key \<Rightarrow> 'v option" where
  "redis_get now k =
     (case k of
        None \<Rightarrow> None
      | Some (v, None) \<Rightarrow> Some v
      | Some (v, Some expires) \<Rightarrow> if now < expires then Some v else None)"

definition cache_get :: "bool \<Rightarrow> time_ms \<Rightarrow> 'v redis_key \<Rightarrow> 'v option" where
  "cache_get redis_up now k = (if redis_up then redis_get now k else None)"

text \<open>A time-to-live of zero is falsy and stores the value without one.\<close>

definition cache_set :: "bool \<Rightarrow> time_ms \<Rightarrow> 'v \<Rightarrow> int option \<Rightarrow> 'v redis_key \<Rightarrow> 'v redis_key" where
  "cache_set redis_up now v ttlSeconds k =
     (if \<not> redis_up then k
      else case ttlSeconds of
             None \<Rightarrow> Some (v, None)
           | Some ttl \<Rightarrow> Some (v, if ttl = 0 then None else Some (now + ttl * 1000)))"

definition cache_del :: "bool \<Rightarrow> 'v redis_key \<Rightarrow> 'v redis_key" where
  "cache_del redis_up k = (if redis_up then None else k)"

definition cache_wrap :: "bool \<Rightarrow> bool \<Rightarrow> time_ms \<Rightarrow> int \<Rightarrow> 'v result \<Rightarrow> 'v redis_key \<Rightarrow> 'v result \<times> 'v redis_key" where
  "cache_wrap get_up set_up now ttlSeconds loader k =
     (case cache_get get_up now k of
        Some v \<Rightarrow> (Inr v, k)
      | None \<Rightarrow> (case loader of
                    Inl e \<Rightarrow> (Inl e, k)
                  | Inr fresh \<Rightarrow> (Inr fresh, cache_set set_up now fresh (Some ttlSeconds) k)))"

section \<open>Pause state\<close>

definition GLOBAL_PAUSE_SCOPE :: string where
  "GLOBAL_PAUSE_SCOPE = ''global''"

definition PAUSE_SCOPES :: "string list" where
  "PAUSE_SCOPES = GLOBAL_PAUSE_SCOPE # map fst COVERAGE_TYPE_CODE"

definition PAUSE_STATE_CACHE_TTL_SECONDS :: int where
  "PAUSE_STATE_CACHE_TTL_SECONDS = 30"

record pause_state =
  ps_paused :: bool
  ps_reason :: "string option"
  ps_actor :: "string option"
  ps_updatedAt :: "time_ms option"

text \<open>The table and the snapshot of it, keyed by scope.\<close>

type_synonym pause_entries = "(string, pause_state) jmap"

record pause_audit =
  pa_scope :: string
  pa_action :: string
  pa_actor :: string
  pa_reason :: string
  pa_prior_paused :: bool

record control_state =
  oc_table :: pause_entries
  oc_audit :: "pause_audit list"
  oc_cache :: "pause_entries redis_key"

text \<open>Which of the stores answer during one call: Postgres, and Redis for the read, the
  write and the invalidation.\<close>

record stores_up =
  su_pg :: bool
  su_get :: bool
  su_set :: bool
  su_del :: bool

definition NOT_PAUSED :: pause_state where
  "NOT_PAUSED = \<lparr>ps_paused = False, ps_reason = None, ps_actor = None, ps_updatedAt = None\<rparr>"

definition toPauseState :: "pause_state option \<Rightarrow> pause_state" where
  "toPauseState entry = (case entry of None \<Rightarrow> NOT_PAUSED | Some e \<Rightarrow> e)"

definition indexByScope :: "pause_entries \<Rightarrow> string \<Rightarrow> pause_state option" where
  "indexByScope entries = map_of (rev entries)"

definition loadEntries :: "stores_up \<Rightarrow> time_ms \<Rightarrow> control_state \<Rightarrow> pause_entries result \<times> control_state" where
  "loadEntries up now s =
     (case cache_get (su_get up) now (oc_cache s) of
        Some cached \<Rightarrow> (Inr cached, s)
      | None \<Rightarrow>
          if \<not> su_pg up then (Inl (Err ''query failed''), s)
          else (Inr (oc_table s),
                s\<lparr>oc_cache := cache_set (su_set up) now (oc_table s) (Some PAUSE_STATE_CACHE_TTL_SECONDS) (oc_cache s)\<rparr>))"

definition is_paused_entry :: "pause_state option \<Rightarrow> bool" where
  "is_paused_entry e = (case e of None \<Rightarrow> False | Some p \<Rightarrow> ps_paused p)"

text \<open>The lookup of the name is evaluated only when the global override is not active.\<close>

definition paused_by :: "pause_entries \<Rightarrow> int \<Rightarrow> bool result" where
  "paused_by entries code =
     (let byScope = indexByScope entries in
      if is_paused_entry (byScope GLOBAL_PAUSE_SCOPE) then Inr True
      else then_result (codeToSoroban code) (\<lambda>name. Inr (is_paused_entry (byScope name))))"

definition isPaused :: "stores_up \<Rightarrow> time_ms \<Rightarrow> int \<Rightarrow> control_state \<Rightarrow> bool result \<times> control_state" where
  "isPaused up now code s =
     (case loadEntries up now s of
        (Inl e, s') \<Rightarrow> (Inl e, s')
      | (Inr entries, s') \<Rightarrow> (paused_by entries code, s'))"

record coverage_status =
  cv_coverageType :: string
  cv_id :: int
  cv_state :: pause_state
  cv_effectivelyPaused :: bool

definition status_of :: "pause_entries \<Rightarrow> pause_state \<times> coverage_status list" where
  "status_of entries =
     (let byScope = indexByScope entries; globalPaused = is_paused_entry (byScope GLOBAL_PAUSE_SCOPE) in
      (toPauseState (byScope GLOBAL_PAUSE_SCOPE),
       map (\<lambda>(name, i). \<lparr>cv_coverageType = name, cv_id = i, cv_state = toPauseState (byScope name),
              cv_effectivelyPaused = (globalPaused \<or> is_paused_entry (byScope name))\<rparr>) COVERAGE_TYPE_CODE))"

definition getStatus :: "stores_up \<Rightarrow> time_ms \<Rightarrow> control_state \<Rightarrow> (pause_state \<times> coverage_status list) result \<times> control_state" where
  "getStatus up now s =
     (case loadEntries up now s of
        (Inl e, s') \<Rightarrow> (Inl e, s')
      | (Inr entries, s') \<Rightarrow> (Inr (status_of entries), s'))"

definition invalidateCache :: "stores_up \<Rightarrow> control_state \<Rightarrow> control_state" where
  "invalidateCache up s = s\<lparr>oc_cache := cache_del (su_del up) (oc_cache s)\<rparr>"

record pause_change =
  pc_scope :: string
  pc_paused :: bool
  pc_priorPaused :: bool
  pc_actor :: string
  pc_reason :: string
  pc_updatedAt :: time_ms

definition setPaused ::
  "stores_up \<Rightarrow> time_ms \<Rightarrow> string \<Rightarrow> bool \<Rightarrow> string \<Rightarrow> string \<Rightarrow> control_state \<Rightarrow> pause_change result \<times> control_state" where
  "setPaused up now scope paused actor reason s =
     (if \<not> su_pg up then (Inl (Err ''query failed''), s)
      else let prior = is_paused_entry (map_of (oc_table s) scope);
               s' = s\<lparr>oc_table := js_set scope \<lparr>ps_paused = paused, ps_reason = Some reason,
                        ps_actor = Some actor, ps_updatedAt = Some now\<rparr> (oc_table s),
                      oc_audit := oc_audit s @ [\<lparr>pa_scope = scope, pa_action = (if paused then ''pause'' else ''resume''),
                        pa_actor = actor, pa_reason = reason, pa_prior_paused = prior\<rparr>]\<rparr>
           in (Inr \<lparr>pc_scope = scope, pc_paused = paused, pc_priorPaused = prior, pc_actor = actor,
                    pc_reason = reason, pc_updatedAt = now\<rparr>, invalidateCache up s'))"

datatype control_call =
    CIsPaused int
  | CGetStatus
  | CSetPaused string bool string string

fun control_step :: "time_ms \<times> stores_up \<times> control_call \<Rightarrow> control_state \<Rightarrow> control_state" where
  "control_step (now, up, CIsPaused code) s = snd (isPaused up now code s)"
| "control_step (now, up, CGetStatus) s = snd (getStatus up now s)"
| "control_step (now, up, CSetPaused scope paused actor reason) s = snd (setPaused up now scope paused actor reason s)"

definition no_pauses :: control_state where
  "no_pauses = \<lparr>oc_table = [], oc_audit = [], oc_cache = None\<rparr>"

section \<open>Well-formed states\<close>

text \<open>One row per scope, in the table and in the snapshot.\<close>

definition control_ok :: "control_state \<Rightarrow> bool" where
  "control_ok s \<longleftrightarrow> distinct (map fst (oc_table s))
     \<and> (\<forall>es x. oc_cache s = Some (es, x) \<longrightarrow> distinct (map fst es))"

text \<open>The snapshot expires within its time-to-live of a given time.\<close>

definition cached_before :: "time_ms \<Rightarrow> control_state \<Rightarrow> bool" where
  "cached_before t s \<longleftrightarrow> (\<forall>es x. oc_cache s = Some (es, x) \<longrightarrow> (\<exists>e. x = Some e \<and> e \<le> t + PAUSE_STATE_CACHE_TTL_SECONDS * 1000))"

lemmas cache_defs = cache_get_def cache_set_def cache_del_def redis_get_def PAUSE_STATE_CACHE_TTL_SECONDS_def

lemma map_of_rev_distinct: "distinct (map fst es) \<Longrightarrow> map_of (rev es) = map_of es"
proof (induction es)
  case (Cons e es)
  then have "map_of es (fst e) = None" by (simp add: map_of_eq_None_iff)
  with Cons show ?case by (cases e) (auto simp: map_add_def fun_eq_iff split: option.splits)
qed simp

lemma indexByScope_map_of: "distinct (map fst es) \<Longrightarrow> indexByScope es = map_of es"
  by (simp add: indexByScope_def map_of_rev_distinct)

lemma loadEntries_cases:
  obtains (cached) es where "loadEntries up now s = (Inr es, s)" "cache_get (su_get up) now (oc_cache s) = Some es"
  | (failed) e where "loadEntries up now s = (Inl e, s)" "\<not> su_pg up"
  | (fresh) "loadEntries up now s = (Inr (oc_table s), s\<lparr>oc_cache := cache_set (su_set up) now (oc_table s) (Some PAUSE_STATE_CACHE_TTL_SECONDS) (oc_cache s)\<rparr>)"
      "cache_get (su_get up) now (oc_cache s) = None"
  using that by (cases "cache_get (su_get up) now (oc_cache s)"; cases "su_pg up") (auto simp: loadEntries_def)

lemma isPaused_state: "snd (isPaused up now code s) = snd (loadEntries up now s)"
  by (simp add: isPaused_def split: sum.split prod.split)

lemma getStatus_state: "snd (getStatus up now s) = snd (loadEntries up now s)"
  by (simp add: getStatus_def split: sum.split prod.split)

lemma setPaused_state:
  "snd (setPaused up now scope paused actor reason s) = s \<or>
   (\<exists>a. snd (setPaused up now scope paused actor reason s) =
      s\<lparr>oc_table := js_set scope \<lparr>ps_paused = paused, ps_reason = Some reason, ps_actor = Some actor, ps_updatedAt = Some now\<rparr> (oc_table s),
        oc_audit := a, oc_cache := cache_del (su_del up) (oc_cache s)\<rparr>)"
  by (auto simp: setPaused_def invalidateCache_def Let_def)

text \<open>A property of the states that the three kinds of state change keep holds along a run.\<close>

lemma control_step_keeps:
  assumes "P s"
    and "\<And>s. P s \<Longrightarrow> P (s\<lparr>oc_cache := cache_set (su_set up) now (oc_table s) (Some PAUSE_STATE_CACHE_TTL_SECONDS) (oc_cache s)\<rparr>)"
    and "\<And>s scope paused actor reason a. c = CSetPaused scope paused actor reason \<Longrightarrow> P s \<Longrightarrow>
      P (s\<lparr>oc_table := js_set scope \<lparr>ps_paused = paused, ps_reason = Some reason, ps_actor = Some actor, ps_updatedAt = Some now\<rparr> (oc_table s),
        oc_audit := a, oc_cache := cache_del (su_del up) (oc_cache s)\<rparr>)"
  shows "P (control_step (now, up, c) s)"
proof -
  have load: "P (snd (loadEntries up now s))"
    using assms(1,2) by (cases rule: loadEntries_cases [of up now s]) auto
  show ?thesis
  proof (cases c)
    case (CSetPaused scope paused actor reason)
    then show ?thesis using setPaused_state [of up now scope paused actor reason s] assms(1,3) by auto
  qed (use load in \<open>simp_all add: isPaused_state getStatus_state\<close>)
qed

lemma control_step_ok [inv_intros]: "control_ok s \<Longrightarrow> control_ok (control_step (now, up, c) s)"
  by (rule control_step_keeps) (auto simp: control_ok_def cache_defs distinct_js_set split: if_splits)

lemma control_step_cached: "cached_before t s \<Longrightarrow> now \<le> t \<Longrightarrow> cached_before t (control_step (now, up, c) s)"
  by (rule control_step_keeps) (auto simp: cached_before_def cache_defs split: if_splits)

lemma control_run_ok:
  "control_ok s \<Longrightarrow> control_ok (fold control_step cs s)"
  by (induction cs arbitrary: s) (auto intro: control_step_ok)

lemma control_run_cached:
  "cached_before t s \<Longrightarrow> \<forall>c \<in> set cs. fst c \<le> t \<Longrightarrow> cached_before t (fold control_step cs s)"
proof (induction cs arbitrary: s)
  case (Cons c cs)
  obtain now up k where "c = (now, up, k)" by (cases c)
  with Cons show ?case using control_step_cached [of t s now up k] by simp
qed simp

section \<open>A pause takes effect\<close>

text \<open>The scope is paused in the table, and a snapshot that does not show it expires by \<open>t\<close>.\<close>

definition pause_holds :: "string \<Rightarrow> time_ms \<Rightarrow> control_state \<Rightarrow> bool" where
  "pause_holds scope t s \<longleftrightarrow> is_paused_entry (map_of (oc_table s) scope)
     \<and> (\<forall>es x. oc_cache s = Some (es, x) \<longrightarrow> is_paused_entry (map_of es scope) \<or> (\<exists>e. x = Some e \<and> e \<le> t))"

definition resumes :: "string \<Rightarrow> time_ms \<times> stores_up \<times> control_call \<Rightarrow> bool" where
  "resumes scope c \<longleftrightarrow> (\<exists>now up actor reason. c = (now, up, CSetPaused scope False actor reason))"

lemma pause_holds_step:
  "pause_holds scope t s \<Longrightarrow> \<not> resumes scope (now, up, c) \<Longrightarrow> pause_holds scope t (control_step (now, up, c) s)"
  by (rule control_step_keeps)
     (auto simp: pause_holds_def cache_defs resumes_def is_paused_entry_def split: if_splits)

lemma pause_holds_run:
  "pause_holds scope t s \<Longrightarrow> \<forall>c \<in> set cs. \<not> resumes scope c \<Longrightarrow> pause_holds scope t (fold control_step cs s)"
proof (induction cs arbitrary: s)
  case (Cons c cs)
  obtain now up k where "c = (now, up, k)" by (cases c)
  with Cons show ?case using pause_holds_step [of scope t s now up k] by simp
qed simp

lemma pause_holds_paused:
  assumes "control_ok s" "pause_holds scope t s" "t \<le> now"
    and "scope = GLOBAL_PAUSE_SCOPE \<or> codeToSoroban code = Inr scope" "isPaused up now code s = (Inr b, s')"
  shows "b"
proof -
  have shown: "b" if "distinct (map fst es)" "is_paused_entry (map_of es scope)" "paused_by es code = Inr b" for es
    using that assms(4) by (auto simp: paused_by_def Let_def indexByScope_map_of split: if_splits)
  show ?thesis
  proof (cases rule: loadEntries_cases [of up now s])
    case (cached es)
    then obtain x where x: "oc_cache s = Some (es, x)" "x = None \<or> (\<exists>e. x = Some e \<and> now < e)"
      by (auto simp: cache_get_def redis_get_def split: if_splits option.splits)
    with assms(1-3) have "distinct (map fst es)" "is_paused_entry (map_of es scope)"
      by (auto simp: control_ok_def pause_holds_def)
    then show ?thesis using shown [of es] cached(1) assms(5) by (simp add: isPaused_def)
  next
    case (failed e)
    then show ?thesis using assms(5) by (simp add: isPaused_def)
  next
    case fresh
    then show ?thesis using shown [of "oc_table s"] assms(1,2,5)
      by (simp add: isPaused_def control_ok_def pause_holds_def)
  qed
qed


definition all_up :: stores_up where
  "all_up = \<lparr>su_pg = True, su_get = True, su_set = True, su_del = True\<rparr>"

definition lost_invalidation :: stores_up where
  "lost_invalidation = \<lparr>su_pg = True, su_get = True, su_set = True, su_del = False\<rparr>"

text \<open>The snapshot cached at time 0 hides the pause of time 10 until it expires.\<close>

definition sample_paused :: control_state where
  "sample_paused = snd (setPaused lost_invalidation 10 ''MarketCrash'' True ''ops'' ''feed incident''
     (fold control_step [(0, all_up, CIsPaused 1)] no_pauses))"


end
