(* ===== verification/Anomaly.thy ===== *)
theory Anomaly
  imports Oracle_Reading
begin

text \<open>
  The plausibility rules a reading passes before settlement looks at it
  (\<open>oracle/anomaly.ts\<close>). A bound of a rule is a finite number; a reading may be any
  JavaScript number. The printing of numbers in the reasons is an argument \<open>S\<close>, that of
  \<open>toFixed(2)\<close> an argument \<open>F\<close>. Nothing inside \<open>check\<close> throws on these types, so \<open>evaluate\<close>,
  which turns an exception into a trigger, returns what \<open>check\<close> returns.
\<close>

record anomaly_rule =
  ru_floor :: "rat option"
  ru_ceiling :: "rat option"
  ru_rejectZero :: bool
  ru_maxPctChange :: "rat option"
  ru_windowMs :: "int option"

record anomaly_verdict =
  av_triggered :: bool
  av_reasons :: "string list"

type_synonym anomaly_rules = "string \<Rightarrow> anomaly_rule option"

record anomaly_sample =
  sa_at :: time_ms
  sa_value :: rat

type_synonym anomaly_history = "string \<Rightarrow> anomaly_sample list"

definition plausible_range :: "rat \<Rightarrow> rat \<Rightarrow> bool \<Rightarrow> anomaly_rule" where
  "plausible_range lo hi z = \<lparr>ru_floor = Some lo, ru_ceiling = Some hi, ru_rejectZero = z,
     ru_maxPctChange = None, ru_windowMs = None\<rparr>"

definition DEFAULT_ANOMALY_RULES :: anomaly_rules where
  "DEFAULT_ANOMALY_RULES = map_of [
     (''StablecoinDepeg'', \<lparr>ru_floor = Some (1 / 2), ru_ceiling = Some (3 / 2), ru_rejectZero = True,
        ru_maxPctChange = Some 5, ru_windowMs = Some (5 * 60000)\<rparr>),
     (''MarketCrash'', plausible_range (- 100) 100 False),
     (''LiquidationShield'', plausible_range 0 1 True),
     (''SmartContractRisk'', plausible_range (- 100) 100 False),
     (''FlightDelay'', plausible_range 0 2880 False)]"

definition pctChangeWithinWindow :: "anomaly_history \<Rightarrow> string \<Rightarrow> rat \<Rightarrow> time_ms \<Rightarrow> int \<Rightarrow> js_number option" where
  "pctChangeWithinWindow history key v now windowMs =
     (case List.find (\<lambda>s. sa_at s \<ge> now - windowMs) (history key) of
        None \<Rightarrow> None
      | Some baseline \<Rightarrow>
          if sa_value baseline = 0 then Some (if v = 0 then Num 0 else PosInf)
          else Some (Num ((v - sa_value baseline) / \<bar>sa_value baseline\<bar> * 100)))"

definition remember :: "string \<Rightarrow> rat \<Rightarrow> time_ms \<Rightarrow> int option \<Rightarrow> anomaly_history \<Rightarrow> anomaly_history" where
  "remember key v now windowMs history =
     (case windowMs of
        None \<Rightarrow> history
      | Some w \<Rightarrow> history(key := filter (\<lambda>s. sa_at s \<ge> now - w) (history key) @ [\<lparr>sa_at = now, sa_value = v\<rparr>]))"

fun js_abs :: "js_number \<Rightarrow> js_number" where
  "js_abs (Num q) = Num \<bar>q\<bar>"
| "js_abs NaN = NaN"
| "js_abs PosInf = PosInf"
| "js_abs NegInf = PosInf"

definition reasons_for :: "(js_number \<Rightarrow> string) \<Rightarrow> (js_number \<Rightarrow> string) \<Rightarrow> anomaly_rule \<Rightarrow> anomaly_history \<Rightarrow> string \<Rightarrow> rat \<Rightarrow> time_ms \<Rightarrow> string list" where
  "reasons_for S F rule history key v now =
     (if ru_rejectZero rule \<and> v = 0 then [''zero reading rejected''] else [])
   @ (case ru_floor rule of
        None \<Rightarrow> []
      | Some lo \<Rightarrow> if v < lo then [''value '' @ S (Num v) @ '' below floor '' @ S (Num lo)] else [])
   @ (case ru_ceiling rule of
        None \<Rightarrow> []
      | Some hi \<Rightarrow> if v > hi then [''value '' @ S (Num v) @ '' above ceiling '' @ S (Num hi)] else [])
   @ (case (ru_maxPctChange rule, ru_windowMs rule) of
        (Some m, Some w) \<Rightarrow>
          (case pctChangeWithinWindow history key v now w of
             None \<Rightarrow> []
           | Some change \<Rightarrow>
               if js_less (Num m) (js_abs change)
               then [F change @ ''% change within '' @ big_to_string w @ ''ms exceeds '' @ S (Num m) @ ''%''] else [])
      | _ \<Rightarrow> [])"

definition check ::
  "(js_number \<Rightarrow> string) \<Rightarrow> (js_number \<Rightarrow> string) \<Rightarrow> anomaly_rules \<Rightarrow> oracle_reading \<Rightarrow> time_ms \<Rightarrow> anomaly_history
     \<Rightarrow> anomaly_verdict \<times> anomaly_history" where
  "check S F rules reading now history =
     (let key = or_coverageType reading in
      case rules key of
        None \<Rightarrow> (\<lparr>av_triggered = True, av_reasons = [''no anomaly rule configured for '' @ key]\<rparr>, history)
      | Some rule \<Rightarrow>
          (case or_value reading of
             Num v \<Rightarrow>
               let reasons = reasons_for S F rule history key v now in
               if reasons \<noteq> [] then (\<lparr>av_triggered = True, av_reasons = reasons\<rparr>, history)
               else (\<lparr>av_triggered = False, av_reasons = []\<rparr>, remember key v now (ru_windowMs rule) history)
           | bad \<Rightarrow> (\<lparr>av_triggered = True, av_reasons = [''null or non-finite reading ('' @ S bad @ '')'']\<rparr>, history)))"

definition evaluate_reading ::
  "(js_number \<Rightarrow> string) \<Rightarrow> (js_number \<Rightarrow> string) \<Rightarrow> anomaly_rules \<Rightarrow> oracle_reading \<Rightarrow> time_ms \<Rightarrow> anomaly_history
     \<Rightarrow> anomaly_verdict \<times> anomaly_history" where
  "evaluate_reading S F rules reading now history = check S F rules reading now history"

section \<open>What an accepted reading satisfies\<close>

definition within_rule :: "anomaly_rule \<Rightarrow> rat \<Rightarrow> bool" where
  "within_rule rule v \<longleftrightarrow> (ru_rejectZero rule \<longrightarrow> v \<noteq> 0)
     \<and> (\<forall>lo. ru_floor rule = Some lo \<longrightarrow> lo \<le> v) \<and> (\<forall>hi. ru_ceiling rule = Some hi \<longrightarrow> v \<le> hi)"

text \<open>A move of at most \<open>m\<close> percent, without the division.\<close>

definition small_move :: "rat \<Rightarrow> rat \<Rightarrow> rat \<Rightarrow> bool" where
  "small_move m b v \<longleftrightarrow> \<bar>v - b\<bar> * 100 \<le> m * \<bar>b\<bar>"

lemma pct_small_move:
  assumes "pctChangeWithinWindow history key v now w = Some c" "\<not> js_less (Num m) (js_abs c)"
    and "List.find (\<lambda>s. sa_at s \<ge> now - w) (history key) = Some b"
  shows "small_move m (sa_value b) v"
proof (cases "sa_value b = 0")
  case True
  then show ?thesis using assms by (auto simp: pctChangeWithinWindow_def small_move_def split: if_splits)
next
  case False
  let ?b = "sa_value b"
  have "c = Num ((v - ?b) / \<bar>?b\<bar> * 100)" using assms(1,3) False by (simp add: pctChangeWithinWindow_def)
  then have "\<bar>(v - ?b) / \<bar>?b\<bar> * 100\<bar> \<le> m" using assms(2) by simp
  then have "\<bar>v - ?b\<bar> * 100 / \<bar>?b\<bar> \<le> m"
    by (simp only: abs_mult abs_divide abs_abs abs_numeral times_divide_eq_left)
  then show ?thesis using False by (simp add: small_move_def divide_le_eq)
qed

lemma reasons_empty:
  assumes "reasons_for S F rule history key v now = []"
  shows "within_rule rule v"
    and "ru_maxPctChange rule = Some m \<Longrightarrow> ru_windowMs rule = Some w
       \<Longrightarrow> pctChangeWithinWindow history key v now w = Some c \<Longrightarrow> \<not> js_less (Num m) (js_abs c)"
proof -
  note parts = assms [unfolded reasons_for_def append_is_Nil_conv]
  show "within_rule rule v"
    using parts unfolding within_rule_def by (cases "ru_floor rule"; cases "ru_ceiling rule") (simp_all split: if_splits)
  assume "ru_maxPctChange rule = Some m" "ru_windowMs rule = Some w" "pctChangeWithinWindow history key v now w = Some c"
  then show "\<not> js_less (Num m) (js_abs c)"
    using conjunct2 [OF conjunct2 [OF conjunct2 [OF parts]]] by (simp split: if_splits)
qed

lemma check_cases:
  obtains (rejected) vd where "check S F rules reading now history = (vd, history)" "av_triggered vd"
  | (accepted) rule x where "rules (or_coverageType reading) = Some rule" "or_value reading = Num x"
      "reasons_for S F rule history (or_coverageType reading) x now = []"
      "check S F rules reading now history
        = (\<lparr>av_triggered = False, av_reasons = []\<rparr>, remember (or_coverageType reading) x now (ru_windowMs rule) history)"
proof (cases "rules (or_coverageType reading)")
  case None
  then show thesis using rejected by (simp add: check_def)
next
  case (Some rule)
  show thesis
  proof (cases "or_value reading")
    case (Num x)
    then show thesis using Some that
      by (cases "reasons_for S F rule history (or_coverageType reading) x now = []") (simp_all add: check_def)
  qed (use Some rejected in \<open>simp_all add: check_def\<close>)
qed

lemma accepted_check:
  assumes "check S F rules reading now history = (v, history')" "\<not> av_triggered v"
  obtains rule x where "rules (or_coverageType reading) = Some rule" "or_value reading = Num x" "within_rule rule x"
    "history' = remember (or_coverageType reading) x now (ru_windowMs rule) history"
    "\<And>m w b. ru_maxPctChange rule = Some m \<Longrightarrow> ru_windowMs rule = Some w
       \<Longrightarrow> List.find (\<lambda>s. sa_at s \<ge> now - w) (history (or_coverageType reading)) = Some b \<Longrightarrow> small_move m (sa_value b) x"
proof (cases rule: check_cases [of S F rules reading now history])
  case (rejected vd)
  then show thesis using assms by simp
next
  case (accepted rule x)
  have "small_move m (sa_value b) x"
    if w: "ru_maxPctChange rule = Some m" "ru_windowMs rule = Some w"
      and b: "List.find (\<lambda>s. sa_at s \<ge> now - w) (history (or_coverageType reading)) = Some b" for m w b
  proof -
    obtain c where c: "pctChangeWithinWindow history (or_coverageType reading) x now w = Some c"
      using b by (cases "sa_value b = 0") (simp_all add: pctChangeWithinWindow_def)
    from pct_small_move [OF c reasons_empty(2) [OF accepted(3) w c] b] show ?thesis .
  qed
  then show thesis using that accepted reasons_empty(1) [OF accepted(3)] assms(1) by simp
qed

lemma rejected_check:
  assumes "check S F rules reading now history = (v, history')" "av_triggered v"
  shows "history' = history"
  using assms by (cases rule: check_cases [of S F rules reading now history]) auto

section \<open>Runs\<close>

text \<open>The readings of a run that were accepted, and the history the run leaves.\<close>

fun accept_run ::
  "(js_number \<Rightarrow> string) \<Rightarrow> (js_number \<Rightarrow> string) \<Rightarrow> anomaly_rules \<Rightarrow> (time_ms \<times> oracle_reading) list \<Rightarrow> anomaly_history
     \<Rightarrow> (time_ms \<times> oracle_reading) list \<times> anomaly_history" where
  "accept_run S F rules [] history = ([], history)"
| "accept_run S F rules ((now, r) # rs) history =
     (case evaluate_reading S F rules r now history of
        (v, history') \<Rightarrow> (case accept_run S F rules rs history' of
          (acc, h) \<Rightarrow> (if av_triggered v then acc else (now, r) # acc, h)))"

definition accepted_of :: "string \<Rightarrow> (time_ms \<times> oracle_reading) list \<Rightarrow> (time_ms \<times> oracle_reading) list" where
  "accepted_of key acc = filter (\<lambda>p. or_coverageType (snd p) = key) acc"

definition sample_of :: "time_ms \<times> oracle_reading \<Rightarrow> anomaly_sample" where
  "sample_of p = \<lparr>sa_at = fst p, sa_value = num_of (or_value (snd p))\<rparr>"

text \<open>The history of a type is what a window before some past time keeps of its accepted
  readings, so a later window sees the same oldest sample in both.\<close>

definition history_of :: "string \<Rightarrow> int \<Rightarrow> time_ms \<Rightarrow> (time_ms \<times> oracle_reading) list \<Rightarrow> anomaly_history \<Rightarrow> bool" where
  "history_of key w t acc history \<longleftrightarrow>
     (\<forall>now \<ge> t. filter (\<lambda>s. sa_at s \<ge> now - w) (history key)
             = filter (\<lambda>s. sa_at s \<ge> now - w) (map sample_of (accepted_of key acc)))"

lemma find_filter: "List.find P xs = (case filter P xs of [] \<Rightarrow> None | x # _ \<Rightarrow> Some x)"
  by (induction xs) auto

lemma history_of_find:
  assumes "history_of key w t acc history" "t \<le> now"
  shows "List.find (\<lambda>s. sa_at s \<ge> now - w) (history key) = List.find (\<lambda>s. sa_at s \<ge> now - w) (map sample_of (accepted_of key acc))"
  using assms by (simp add: find_filter [of _ "history key"] find_filter [of _ "map sample_of (accepted_of key acc)"] history_of_def)

lemma history_of_step:
  assumes inv: "history_of key w t acc history" "t \<le> now"
    and rule: "rules key = Some rule" "ru_windowMs rule = Some w"
    and step: "check S F rules reading now history = (v, history')"
  shows "history_of key w now (if av_triggered v then acc else acc @ [(now, reading)]) history'"
proof (cases "av_triggered v")
  case True
  then show ?thesis using inv rejected_check [OF step] by (simp add: history_of_def)
next
  case False
  from step False obtain rule' x where r: "rules (or_coverageType reading) = Some rule'" "or_value reading = Num x"
      "history' = remember (or_coverageType reading) x now (ru_windowMs rule') history"
    by (rule accepted_check)
  show ?thesis
  proof (cases "or_coverageType reading = key")
    case True
    have sub: "filter (\<lambda>s. u - w \<le> sa_at s) (filter (\<lambda>s. now - w \<le> sa_at s) xs) = filter (\<lambda>s. u - w \<le> sa_at s) xs"
      if "now \<le> u" for u xs
      using that by (auto simp: filter_filter intro!: filter_cong)
    have h: "history' key = filter (\<lambda>s. now - w \<le> sa_at s) (history key) @ [\<lparr>sa_at = now, sa_value = x\<rparr>]"
      using True r rule by (simp add: remember_def)
    have a: "map sample_of (accepted_of key (acc @ [(now, reading)]))
        = map sample_of (accepted_of key acc) @ [\<lparr>sa_at = now, sa_value = x\<rparr>]"
      using True r by (simp add: accepted_of_def sample_of_def)
    show ?thesis unfolding history_of_def
    proof (intro allI impI)
      fix u assume "now \<le> u"
      then show "filter (\<lambda>s. u - w \<le> sa_at s) (history' key) = filter (\<lambda>s. u - w \<le> sa_at s)
          (map sample_of (accepted_of key (if av_triggered v then acc else acc @ [(now, reading)])))"
        using False inv sub [of u "history key"] by (simp add: h a history_of_def)
    qed
  next
    case other: False
    then show ?thesis using False inv r
      by (cases "ru_windowMs rule'") (auto simp: history_of_def remember_def accepted_of_def)
  qed
qed

text \<open>An accepted reading after the ones accepted before it.\<close>

definition sound_after :: "anomaly_rule \<Rightarrow> rat \<Rightarrow> int \<Rightarrow> (time_ms \<times> oracle_reading) list \<Rightarrow> time_ms \<times> oracle_reading \<Rightarrow> bool" where
  "sound_after rule m w pre p \<longleftrightarrow> (\<exists>x. or_value (snd p) = Num x \<and> within_rule rule x
     \<and> (\<forall>b. List.find (\<lambda>q. fst q \<ge> fst p - w) pre = Some b \<longrightarrow> small_move m (num_of (or_value (snd b))) x))"

definition all_sound :: "anomaly_rule \<Rightarrow> rat \<Rightarrow> int \<Rightarrow> (time_ms \<times> oracle_reading) list \<Rightarrow> bool" where
  "all_sound rule m w ps \<longleftrightarrow> (\<forall>pre p post. ps = pre @ p # post \<longrightarrow> sound_after rule m w pre p)"

lemma all_sound_snoc: "all_sound rule m w ps \<Longrightarrow> sound_after rule m w ps p \<Longrightarrow> all_sound rule m w (ps @ [p])"
  unfolding all_sound_def
proof (intro allI impI)
  fix pre q post
  assume *: "\<forall>pre p post. ps = pre @ p # post \<longrightarrow> sound_after rule m w pre p" "sound_after rule m w ps p"
    and eq: "ps @ [p] = pre @ q # post"
  show "sound_after rule m w pre q"
  proof (cases post rule: rev_cases)
    case Nil
    then show ?thesis using *(2) eq by simp
  next
    case (snoc ys y)
    then have "ps = pre @ q # ys" using eq by simp
    then show ?thesis using *(1) by blast
  qed
qed

lemma find_map_sample: "List.find (\<lambda>s. P (sa_at s)) (map sample_of ps) = map_option sample_of (List.find (\<lambda>q. P (fst q)) ps)"
  by (induction ps) (auto simp: sample_of_def)

lemma accept_run_sound:
  assumes "rules key = Some rule" "ru_maxPctChange rule = Some m" "ru_windowMs rule = Some w"
    and "history_of key w t acc0 history" "all_sound rule m w (accepted_of key acc0)"
    and "sorted (map fst rs)" "\<forall>p \<in> set rs. t \<le> fst p"
  shows "all_sound rule m w (accepted_of key (acc0 @ fst (accept_run S F rules rs history)))"
  using assms(4-)
proof (induction rs arbitrary: t acc0 history)
  case (Cons p rs)
  obtain now r where p: "p = (now, r)" by (cases p)
  obtain v history' where c: "check S F rules r now history = (v, history')" by (cases "check S F rules r now history")
  define acc1 where "acc1 = (if av_triggered v then acc0 else acc0 @ [(now, r)])"
  have t: "t \<le> now" using Cons.prems(4) p by simp
  have inv: "history_of key w now acc1 history'"
    unfolding acc1_def by (rule history_of_step [where rules = rules]) (use Cons.prems(1) t assms c in auto)
  have "all_sound rule m w (accepted_of key acc1)"
  proof (cases "av_triggered v \<or> or_coverageType r \<noteq> key")
    case True
    then show ?thesis using Cons.prems(2) by (auto simp: acc1_def accepted_of_def)
  next
    case False
    then have nt: "\<not> av_triggered v" and key: "or_coverageType r = key" by simp_all
    from c nt have "sound_after rule m w (accepted_of key acc0) (now, r)"
    proof (rule accepted_check)
      fix rule' x
      assume r: "rules (or_coverageType r) = Some rule'" "or_value r = Num x" "within_rule rule' x"
        "\<And>m w b. ru_maxPctChange rule' = Some m \<Longrightarrow> ru_windowMs rule' = Some w
           \<Longrightarrow> List.find (\<lambda>s. sa_at s \<ge> now - w) (history (or_coverageType r)) = Some b \<Longrightarrow> small_move m (sa_value b) x"
      have "rule' = rule" using r(1) key assms(1) by simp
      moreover have "List.find (\<lambda>s. sa_at s \<ge> now - w) (history key)
          = map_option sample_of (List.find (\<lambda>q. fst q \<ge> now - w) (accepted_of key acc0))"
        using history_of_find [OF Cons.prems(1) t] find_map_sample [of "\<lambda>a. now - w \<le> a"] by simp
      ultimately have "small_move m (num_of (or_value (snd b))) x"
        if "List.find (\<lambda>q. fst q \<ge> now - w) (accepted_of key acc0) = Some b" for b
        using r(4) [of m w "sample_of b"] assms(2,3) key that by (simp add: sample_of_def)
      then show ?thesis using r(2,3) \<open>rule' = rule\<close> unfolding sound_after_def fst_conv snd_conv by blast
    qed
    then show ?thesis using all_sound_snoc [OF Cons.prems(2)] nt key by (simp add: acc1_def accepted_of_def)
  qed
  from Cons.IH [OF inv this] have "all_sound rule m w (accepted_of key (acc1 @ fst (accept_run S F rules rs history')))"
    using Cons.prems(3) p by auto
  then show ?case by (simp add: p evaluate_reading_def c split_beta acc1_def split: if_splits)
qed simp


definition usdc_reading :: "rat \<Rightarrow> oracle_reading" where
  "usdc_reading v = \<lparr>or_readingId = None, or_coverageType = ''StablecoinDepeg'', or_value = Num v, or_threshold = Num (19 / 20),
     or_severity = Low, or_message = ''usdc'', or_feedId = None, or_source = None, or_timestamp = None, or_deadlineAt = None,
     or_fetchDurationMs = None, or_degraded = None, or_usable = None\<rparr>"


end
