(* ===== verification/Policy_Store.thy ===== *)
theory Policy_Store
  imports Coverage_Types
begin

text \<open>
  The in-memory policies (\<open>policy/policy.service.ts\<close>): the product catalogue, the checks and
  the premium of a purchase, the activation of a policy from the confirmed transaction, and
  the queries the claim scan uses. A decimal string of base units, which the request
  validator restricts to digits, is the integer it spells. What the Soroban network returns
  (the coverage bounds, the unsigned transaction and its hash) and what the SDK decodes are
  arguments, as is the coverage availability of the oracle trust service. The premium is
  computed exactly; the source multiplies doubles. The icons of the catalogue are left out.
\<close>

section \<open>Catalogue\<close>

definition FLIGHT_DELAY_COVERAGE_TYPE :: int where
  "FLIGHT_DELAY_COVERAGE_TYPE = 4"

definition COVERAGE_TYPE_VARIANTS :: "string list" where
  "COVERAGE_TYPE_VARIANTS = [''StablecoinDepeg'', ''MarketCrash'', ''LiquidationShield'', ''SmartContractRisk'', ''FlightDelay'']"

definition TRIGGER_THRESHOLDS :: "int list" where
  "TRIGGER_THRESHOLDS = [500, 3000, 500, 500, 120]"

definition RISK_MULTIPLIERS :: "rat list" where
  "RISK_MULTIPLIERS = [1, 3 / 2, 2, 3, 4 / 5]"

definition DEFAULT_BASE_RATE_BPS :: rat where
  "DEFAULT_BASE_RATE_BPS = 300"

definition COVERAGE_NAMES :: "string list" where
  "COVERAGE_NAMES = [''Stablecoin Depeg'', ''Market Crash'', ''Liquidation Shield'', ''Smart Contract Risk'', ''Flight Delay'']"

record catalog_entry =
  ct_id :: int
  ct_name :: string
  ct_description :: string
  ct_riskLevel :: string
  ct_riskMultiplier :: rat
  ct_baseRatePct :: rat
  ct_maxCoverage :: int
  ct_trigger :: string
  ct_available :: bool
  ct_requiredFeeds :: "string list"
  ct_unavailableReason :: "string option"

definition COVERAGE_TYPES :: "catalog_entry list" where
  "COVERAGE_TYPES = [
     \<lparr>ct_id = 0, ct_name = ''Stablecoin Depeg'', ct_description = ''Pays out if a major stablecoin depegs below $0.95'',
      ct_riskLevel = ''medium'', ct_riskMultiplier = 1, ct_baseRatePct = 3, ct_maxCoverage = 100000,
      ct_trigger = ''USDC price < $0.95 for 15+ minutes'', ct_available = True, ct_requiredFeeds = [], ct_unavailableReason = None\<rparr>,
     \<lparr>ct_id = 1, ct_name = ''Market Crash'', ct_description = ''Covers catastrophic market downturns exceeding 30% in 24h'',
      ct_riskLevel = ''high'', ct_riskMultiplier = 3 / 2, ct_baseRatePct = 9 / 2, ct_maxCoverage = 50000,
      ct_trigger = ''Market index 24h return < -30%'', ct_available = True, ct_requiredFeeds = [], ct_unavailableReason = None\<rparr>,
     \<lparr>ct_id = 2, ct_name = ''Liquidation Shield'', ct_description = ''Pays out if your DeFi position gets liquidated'',
      ct_riskLevel = ''high'', ct_riskMultiplier = 2, ct_baseRatePct = 6, ct_maxCoverage = 200000,
      ct_trigger = ''Collateral ratio drops below maintenance threshold'', ct_available = True, ct_requiredFeeds = [], ct_unavailableReason = None\<rparr>,
     \<lparr>ct_id = 3, ct_name = ''Smart Contract Risk'', ct_description = ''Protection against smart contract exploits and hacks'',
      ct_riskLevel = ''critical'', ct_riskMultiplier = 3, ct_baseRatePct = 9, ct_maxCoverage = 500000,
      ct_trigger = ''Covered protocol TVL drops >50% in <1 hour'', ct_available = True, ct_requiredFeeds = [], ct_unavailableReason = None\<rparr>,
     \<lparr>ct_id = 4, ct_name = ''Flight Delay'', ct_description = ''Automatic payout for flight delays over 2 hours'',
      ct_riskLevel = ''low'', ct_riskMultiplier = 4 / 5, ct_baseRatePct = 12 / 5, ct_maxCoverage = 2000,
      ct_trigger = ''Flight delayed > 120 minutes per AviationStack data'', ct_available = True, ct_requiredFeeds = [], ct_unavailableReason = None\<rparr>]"

text \<open>Reading an array at a number: \<open>undefined\<close> outside its range.\<close>

definition js_index :: "'a list \<Rightarrow> int \<Rightarrow> 'a option" where
  "js_index xs i = (if 0 \<le> i \<and> nat i < length xs then Some (xs ! nat i) else None)"

record availability =
  al_available :: bool
  al_requiredFeeds :: "string list"
  al_unavailableFeeds :: "string list"
  al_reason :: "string option"

text \<open>\<open>trust\<close> is the optional trust service, as the availability it reports for a variant.\<close>

definition listTypes :: "(string \<Rightarrow> availability) option \<Rightarrow> catalog_entry list" where
  "listTypes trust = map (\<lambda>e.
     case trust of
       None \<Rightarrow> e\<lparr>ct_available := True, ct_requiredFeeds := [], ct_unavailableReason := None\<rparr>
     | Some av \<Rightarrow> let a = av (COVERAGE_TYPE_VARIANTS ! nat (ct_id e)) in
         e\<lparr>ct_available := al_available a, ct_requiredFeeds := al_requiredFeeds a, ct_unavailableReason := al_reason a\<rparr>)
     COVERAGE_TYPES"

section \<open>Policies\<close>

datatype param_value = PString string | PNumber js_number | PBool bool

record stored_policy =
  sp_id :: string
  sp_holder :: string
  sp_coverageType :: int
  sp_coverageTypeName :: string
  sp_coverageAmount :: int
  sp_premium :: int
  sp_durationDays :: int
  sp_expiresAt :: int
  sp_isActive :: bool
  sp_createdAt :: time_ms
  sp_triggerParams :: "(string, param_value) jmap option"

definition trigger_param :: "string \<Rightarrow> stored_policy \<Rightarrow> param_value option" where
  "trigger_param k p = (case sp_triggerParams p of None \<Rightarrow> None | Some ps \<Rightarrow> map_of ps k)"

record policy_store =
  po_policies :: "(string, stored_policy) jmap"
  po_pendingBuys :: "(string, stored_policy) jmap"

text \<open>\<open>Math.floor(Date.now() / 1000)\<close>\<close>

definition now_seconds :: "time_ms \<Rightarrow> int" where
  "now_seconds now = now div 1000"

definition findByHolder :: "string \<Rightarrow> policy_store \<Rightarrow> stored_policy list" where
  "findByHolder address st = filter (\<lambda>p. sp_holder p = address) (js_values (po_policies st))"

definition findById :: "string \<Rightarrow> policy_store \<Rightarrow> stored_policy option" where
  "findById i st = map_of (po_policies st) i"

definition listActive :: "time_ms \<Rightarrow> policy_store \<Rightarrow> stored_policy list" where
  "listActive now st = filter (\<lambda>p. sp_isActive p \<and> sp_expiresAt p > now_seconds now) (js_values (po_policies st))"

definition getExpiredActive :: "time_ms \<Rightarrow> policy_store \<Rightarrow> stored_policy list" where
  "getExpiredActive now st = filter (\<lambda>p. sp_isActive p \<and> sp_expiresAt p \<le> now_seconds now) (js_values (po_policies st))"

definition deactivate :: "string \<Rightarrow> policy_store \<Rightarrow> policy_store" where
  "deactivate i st =
     (case map_of (po_policies st) i of
        None \<Rightarrow> st
      | Some p \<Rightarrow> st\<lparr>po_policies := js_set i (p\<lparr>sp_isActive := False\<rparr>) (po_policies st)\<rparr>)"

section \<open>Activation\<close>

text \<open>The return value of \<open>buy_policy\<close> and what \<open>scValToNative\<close> makes of it.\<close>

datatype scval = ScvU64 nat | ScvOther string

datatype native = NBig int | NNum js_number | NText string | NOther

definition MAX_SAFE_INTEGER :: rat where
  "MAX_SAFE_INTEGER = 9007199254740991"

definition U64_MAX :: int where
  "U64_MAX = 18446744073709551615"

fun policy_id_of :: "native \<Rightarrow> string option" where
  "policy_id_of (NBig z) = Some (big_to_string z)"
| "policy_id_of (NNum n) =
     (if isInteger n \<and> \<bar>num_of n\<bar> \<le> MAX_SAFE_INTEGER \<and> 0 \<le> num_of n then Some (big_to_string \<lfloor>num_of n\<rfloor>) else None)"
| "policy_id_of (NText s) = (if s \<noteq> [] \<and> list_all is_digit s then Some s else None)"
| "policy_id_of NOther = None"

text \<open>The value of a decimal string, with a sign, as \<open>BigInt\<close> reads it.\<close>

definition big_of_string :: "string \<Rightarrow> int" where
  "big_of_string s = (case s of [] \<Rightarrow> 0 | c # cs \<Rightarrow> if c = CHR ''-'' then - int (dec_value cs) else int (dec_value s))"

definition activateFromBuyConfirmation ::
  "(scval \<Rightarrow> native result) \<Rightarrow> string \<Rightarrow> scval option \<Rightarrow> policy_store \<Rightarrow> string option \<times> policy_store" where
  "activateFromBuyConfirmation scValToNative txHash returnValue st =
     (case map_of (po_pendingBuys st) txHash of
        None \<Rightarrow> (None, st)
      | Some pending \<Rightarrow>
          let st' = st\<lparr>po_pendingBuys := js_delete txHash (po_pendingBuys st)\<rparr> in
          case returnValue of
            Some (ScvU64 n) \<Rightarrow>
              (case scValToNative (ScvU64 n) of
                 Inl _ \<Rightarrow> (None, st')
               | Inr d \<Rightarrow>
                   (case policy_id_of d of
                      None \<Rightarrow> (None, st')
                    | Some policyId \<Rightarrow>
                        if big_of_string policyId > U64_MAX \<or> js_has policyId (po_policies st') then (None, st')
                        else (Some policyId,
                              st'\<lparr>po_policies := js_set policyId (pending\<lparr>sp_id := policyId, sp_isActive := True\<rparr>) (po_policies st')\<rparr>)))
          | _ \<Rightarrow> (None, st'))"

section \<open>Purchase\<close>

record buy_dto =
  bd_holder :: string
  bd_coverageType :: int
  bd_coverageAmount :: int
  bd_durationDays :: int
  bd_triggerParams :: "(string, param_value) jmap option"

text \<open>The outside of a purchase: the clock, the drawn identifier, the base rate of the protocol
  parameters, the availability, the coverage bounds of the pool for the holder, and the unsigned
  transaction with the hash it will have.\<close>

record buy_env =
  be_now :: time_ms
  be_uuid :: string
  be_baseRateBps :: rat
  be_trust :: "(string \<Rightarrow> availability) option"
  be_bounds :: "(int \<times> int) option result"
  be_tx :: "stored_policy \<Rightarrow> (string \<times> string) result"

definition premium_for :: "rat \<Rightarrow> rat \<Rightarrow> int \<Rightarrow> int \<Rightarrow> int" where
  "premium_for bps multiplier durationDays coverage =
     (let annualRate = bps / 10000 * multiplier; dailyRate = annualRate / 365; premiumFraction = dailyRate * of_int durationDays
      in \<lfloor>of_int coverage * premiumFraction\<rfloor>)"

definition new_policy :: "buy_env \<Rightarrow> buy_dto \<Rightarrow> stored_policy" where
  "new_policy env dto = \<lparr>sp_id = be_uuid env, sp_holder = bd_holder dto, sp_coverageType = bd_coverageType dto,
     sp_coverageTypeName = COVERAGE_NAMES ! nat (bd_coverageType dto), sp_coverageAmount = bd_coverageAmount dto,
     sp_premium = premium_for (be_baseRateBps env) (RISK_MULTIPLIERS ! nat (bd_coverageType dto)) (bd_durationDays dto) (bd_coverageAmount dto),
     sp_durationDays = bd_durationDays dto, sp_expiresAt = now_seconds (be_now env) + bd_durationDays dto * 86400,
     sp_isActive = False, sp_createdAt = be_now env, sp_triggerParams = bd_triggerParams dto\<rparr>"

definition has_flight :: "(string, param_value) jmap option \<Rightarrow> bool" where
  "has_flight ps = (case ps of None \<Rightarrow> False | Some m \<Rightarrow> (case map_of m ''flightNumber'' of Some (PString _) \<Rightarrow> True | _ \<Rightarrow> False))"

definition check_buy :: "buy_env \<Rightarrow> buy_dto \<Rightarrow> unit result" where
  "check_buy env dto =
     (case js_index COVERAGE_TYPES (bd_coverageType dto) of
        None \<Rightarrow> Inl (BadRequest (''coverageType must be between 0 and '' @ big_to_string (int (length COVERAGE_TYPES) - 1)))
      | Some entry \<Rightarrow>
          let av = map_option (\<lambda>f. f (COVERAGE_TYPE_VARIANTS ! nat (bd_coverageType dto))) (be_trust env);
              coverage = bd_coverageAmount dto in
          if av \<noteq> None \<and> \<not> al_available (the av) then Inl (BadRequest (ct_name entry @ '' coverage is unavailable''))
          else if bd_coverageType dto = FLIGHT_DELAY_COVERAGE_TYPE \<and> \<not> has_flight (bd_triggerParams dto)
          then Inl (BadRequest ''Flight Delay coverage requires triggerParams.flightNumber'')
          else if coverage \<le> 0 then Inl (BadRequest ''coverageAmount must be greater than zero'')
          else if coverage > ct_maxCoverage entry * 10000000
          then Inl (BadRequest (''coverageAmount exceeds the '' @ COVERAGE_NAMES ! nat (bd_coverageType dto)
                 @ '' maximum of '' @ big_to_string (ct_maxCoverage entry) @ '' USDC''))
          else then_result (be_bounds env) (\<lambda>bounds.
            case bounds of
              Some (lo, hi) \<Rightarrow>
                if coverage < lo \<or> coverage > hi
                then Inl (BadRequest (''coverageAmount must be between '' @ big_to_string lo @ '' and '' @ big_to_string hi
                       @ '' (pool contract units) per the pool's current configuration''))
                else Inr ()
            | None \<Rightarrow> Inr ()))"

definition buildBuy :: "buy_env \<Rightarrow> buy_dto \<Rightarrow> bool \<Rightarrow> policy_store \<Rightarrow> (stored_policy \<times> string) result \<times> policy_store" where
  "buildBuy env dto storePolicy st =
     (case check_buy env dto of
        Inl e \<Rightarrow> (Inl e, st)
      | Inr _ \<Rightarrow>
          let policy = new_policy env dto in
          case be_tx env policy of
            Inl e \<Rightarrow> (Inl e, st)
          | Inr (txXdr, hash) \<Rightarrow>
              (Inr (policy, txXdr),
               if storePolicy then st\<lparr>po_pendingBuys := js_set hash policy (po_pendingBuys st)\<rparr> else st))"

definition buy :: "buy_env \<Rightarrow> buy_dto \<Rightarrow> policy_store \<Rightarrow> (stored_policy \<times> string) result \<times> policy_store" where
  "buy env dto st = buildBuy env dto True st"

definition simulateBuy :: "buy_env \<Rightarrow> buy_dto \<Rightarrow> policy_store \<Rightarrow> (stored_policy \<times> string) result \<times> policy_store" where
  "simulateBuy env dto st = buildBuy env dto False st"

section \<open>Lemmas\<close>

text \<open>The catalogue and the positional arrays agree with the single table of coverage types.\<close>

lemma catalogue_consistent:
  "map ct_id COVERAGE_TYPES = COVERAGE_TYPE_CODES" "map ct_name COVERAGE_TYPES = COVERAGE_NAMES"
  "COVERAGE_TYPE_VARIANTS = map fst COVERAGE_TYPE_CODE" "COVERAGE_NAMES = map snd COVERAGE_TYPE_LABEL"
  "RISK_MULTIPLIERS = map snd COVERAGE_TYPE_RISK_MULTIPLIER" "map ct_riskMultiplier COVERAGE_TYPES = RISK_MULTIPLIERS"
  "TRIGGER_THRESHOLDS = map snd COVERAGE_TYPE_TRIGGER_THRESHOLD"
  by (simp_all add: COVERAGE_TYPES_def COVERAGE_TYPE_CODES_def COVERAGE_TYPE_CODE_def COVERAGE_NAMES_def
        COVERAGE_TYPE_VARIANTS_def COVERAGE_TYPE_LABEL_def RISK_MULTIPLIERS_def COVERAGE_TYPE_RISK_MULTIPLIER_def
        TRIGGER_THRESHOLDS_def COVERAGE_TYPE_TRIGGER_THRESHOLD_def)

text \<open>Every policy is stored under its own identifier, once.\<close>

definition store_keyed :: "policy_store \<Rightarrow> bool" where
  "store_keyed st \<longleftrightarrow> distinct (map fst (po_policies st)) \<and> (\<forall>(k, p) \<in> set (po_policies st). sp_id p = k)"

lemma set_js_set: "set (js_set k v m) \<subseteq> insert (k, v) (set m)"
  by (induction k v m rule: js_set.induct) auto

lemma js_values_keyed: "store_keyed st \<Longrightarrow> p \<in> set (js_values (po_policies st)) \<longleftrightarrow> map_of (po_policies st) (sp_id p) = Some p"
  by (force simp: store_keyed_def js_values_def dest: map_of_SomeD)

lemma deactivate_keyed [inv_intros]: "store_keyed st \<Longrightarrow> store_keyed (deactivate i st)"
  using set_js_set [of i _ "po_policies st"]
  by (fastforce simp: store_keyed_def deactivate_def distinct_js_set split: option.splits dest: map_of_SomeD)

lemma map_of_deactivate:
  "map_of (po_policies (deactivate i st)) k =
     (if k = i then map_option (\<lambda>p. p\<lparr>sp_isActive := False\<rparr>) (map_of (po_policies st) i) else map_of (po_policies st) k)"
  by (simp add: deactivate_def split: option.split)

lemma listActive_iff:
  "store_keyed st \<Longrightarrow> p \<in> set (listActive now st) \<longleftrightarrow>
     map_of (po_policies st) (sp_id p) = Some p \<and> sp_isActive p \<and> now_seconds now < sp_expiresAt p"
  using js_values_keyed [of st p] by (auto simp: listActive_def)

lemma activate_keyed [inv_intros]: "store_keyed st \<Longrightarrow> store_keyed (snd (activateFromBuyConfirmation dec h rv st))"
  using set_js_set
  by (fastforce simp: store_keyed_def activateFromBuyConfirmation_def Let_def distinct_js_set
                split: option.splits scval.splits sum.splits)

lemma buildBuy_keyed [inv_intros]: "store_keyed st \<Longrightarrow> store_keyed (snd (buildBuy env dto b st))"
  by (simp add: store_keyed_def buildBuy_def Let_def split: sum.split prod.split)

section \<open>The life of a policy\<close>

definition insurable :: "stored_policy \<Rightarrow> bool" where
  "insurable p \<longleftrightarrow> (\<exists>entry. js_index COVERAGE_TYPES (sp_coverageType p) = Some entry
     \<and> 0 < sp_coverageAmount p \<and> sp_coverageAmount p \<le> ct_maxCoverage entry * 10000000
     \<and> (sp_coverageType p = FLIGHT_DELAY_COVERAGE_TYPE \<longrightarrow> has_flight (sp_triggerParams p)))"

definition store_ok :: "policy_store \<Rightarrow> bool" where
  "store_ok st \<longleftrightarrow> store_keyed st \<and> (\<forall>(k, p) \<in> set (po_policies st). insurable p)
     \<and> (\<forall>(h, p) \<in> set (po_pendingBuys st). insurable p)"

datatype policy_call =
    PBuy buy_env buy_dto
  | PSimulate buy_env buy_dto
  | PActivate string "scval option"
  | PDeactivate string

fun policy_step :: "(scval \<Rightarrow> native result) \<Rightarrow> policy_call \<Rightarrow> policy_store \<Rightarrow> policy_store" where
  "policy_step dec (PBuy env dto) st = snd (buy env dto st)"
| "policy_step dec (PSimulate env dto) st = snd (simulateBuy env dto st)"
| "policy_step dec (PActivate h rv) st = snd (activateFromBuyConfirmation dec h rv st)"
| "policy_step dec (PDeactivate i) st = deactivate i st"

lemma check_buy_insurable: "check_buy env dto = Inr () \<Longrightarrow> insurable (new_policy env dto)"
  by (auto simp: check_buy_def insurable_def new_policy_def Let_def not_less not_le
           split: option.splits if_splits elim!: then_result_InrE)

lemma buildBuy_ok: "store_ok st \<Longrightarrow> store_ok (snd (buildBuy env dto b st))"
  using set_js_set [of _ "new_policy env dto" "po_pendingBuys st"] check_buy_insurable [of env dto]
  by (fastforce simp: store_ok_def store_keyed_def buildBuy_def Let_def split: sum.splits prod.splits)

lemma insurable_flags [simp]: "insurable (p\<lparr>sp_isActive := b\<rparr>) = insurable p" "insurable (p\<lparr>sp_id := i\<rparr>) = insurable p"
  by (simp_all add: insurable_def)

lemma deactivate_ok: "store_ok st \<Longrightarrow> store_ok (deactivate i st)"
  using deactivate_keyed [of st i] set_js_set [of i _ "po_policies st"]
  by (fastforce simp: store_ok_def deactivate_def split: option.splits dest: map_of_SomeD)

lemma activate_cases:
  obtains (kept) "po_policies (snd (activateFromBuyConfirmation dec h rv st)) = po_policies st"
      "set (po_pendingBuys (snd (activateFromBuyConfirmation dec h rv st))) \<subseteq> set (po_pendingBuys st)"
  | (activated) pending i where "(h, pending) \<in> set (po_pendingBuys st)" "map_of (po_policies st) i = None"
      "po_policies (snd (activateFromBuyConfirmation dec h rv st)) = js_set i (pending\<lparr>sp_id := i, sp_isActive := True\<rparr>) (po_policies st)"
      "set (po_pendingBuys (snd (activateFromBuyConfirmation dec h rv st))) \<subseteq> set (po_pendingBuys st)"
  using that unfolding activateFromBuyConfirmation_def
  by (fastforce simp: Let_def js_delete_def js_has_def dest: map_of_SomeD split: option.splits scval.splits sum.splits if_splits)

lemma activate_ok: "store_ok st \<Longrightarrow> store_ok (snd (activateFromBuyConfirmation dec h rv st))"
proof (cases rule: activate_cases [of dec h rv st])
  case kept
  assume "store_ok st"
  then show ?thesis using kept activate_keyed [of st dec h rv] by (auto simp: store_ok_def)
next
  case (activated pending i)
  assume ok: "store_ok st"
  then have "insurable pending" using activated(1) by (auto simp: store_ok_def)
  then show ?thesis
    using ok activated(3,4) activate_keyed [of st dec h rv] set_js_set [of i "pending\<lparr>sp_id := i, sp_isActive := True\<rparr>" "po_policies st"]
    by (fastforce simp: store_ok_def)
qed

lemma policy_step_ok [inv_intros]: "store_ok st \<Longrightarrow> store_ok (policy_step dec c st)"
  by (cases c) (simp_all add: buy_def simulateBuy_def buildBuy_ok activate_ok deactivate_ok)

text \<open>A stored policy changes in nothing but its flag, and the flag only goes down.\<close>

definition policy_becomes :: "string \<times> stored_policy \<Rightarrow> string \<times> stored_policy \<Rightarrow> bool" where
  "policy_becomes r r' \<longleftrightarrow> fst r' = fst r \<and> (snd r' = snd r \<or> snd r' = (snd r)\<lparr>sp_isActive := False\<rparr>)"

lemma policy_becomes_refl [simp]: "policy_becomes r r"
  by (simp add: policy_becomes_def)

lemma policy_becomes_trans: "policy_becomes r r' \<Longrightarrow> policy_becomes r' r'' \<Longrightarrow> policy_becomes r r''"
  by (auto simp: policy_becomes_def)

lemma map_of_keyed: "store_keyed st \<Longrightarrow> map_of (po_policies st) k = Some p \<longleftrightarrow> (k, p) \<in> set (po_policies st)"
  by (simp add: store_keyed_def)

lemma policy_step_row:
  assumes "store_ok st" "r \<in> set (po_policies st)"
  shows "\<exists>r' \<in> set (po_policies (policy_step dec c st)). policy_becomes r r'"
proof -
  obtain k p where r: "r = (k, p)" by (cases r)
  have m: "map_of (po_policies st) k = Some p" using assms r by (simp add: store_ok_def map_of_keyed)
  have "\<exists>p'. map_of (po_policies (policy_step dec c st)) k = Some p' \<and> (p' = p \<or> p' = p\<lparr>sp_isActive := False\<rparr>)"
  proof (cases c)
    case (PActivate h rv)
    then show ?thesis using m by (cases rule: activate_cases [of dec h rv st]) auto
  next
    case (PDeactivate i)
    then show ?thesis using m by (cases "k = i") (simp_all add: map_of_deactivate)
  qed (use m in \<open>simp_all add: buy_def simulateBuy_def buildBuy_def Let_def split: sum.split prod.split\<close>)
  then obtain p' where p': "map_of (po_policies (policy_step dec c st)) k = Some p'" "p' = p \<or> p' = p\<lparr>sp_isActive := False\<rparr>"
    by blast
  then have "policy_becomes r (k, p')" by (simp add: policy_becomes_def r)
  then show ?thesis using map_of_SomeD [OF p'(1)] by blast
qed

interpretation policy_life: row_lifecycle "policy_step dec" store_ok "\<lambda>st. set (po_policies st)" policy_becomes
  for dec
  by unfold_locales (auto intro: policy_step_ok dest: policy_step_row policy_becomes_trans)


definition sample_dto :: buy_dto where
  "sample_dto = \<lparr>bd_holder = ''G1'', bd_coverageType = 0, bd_coverageAmount = 10000000000, bd_durationDays = 365, bd_triggerParams = None\<rparr>"

definition sample_buy_env :: buy_env where
  "sample_buy_env = \<lparr>be_now = 1000, be_uuid = ''u-1'', be_baseRateBps = 300, be_trust = None,
     be_bounds = Inr (Some (1, 100000000000)), be_tx = (\<lambda>_. Inr (''xdr'', ''h1''))\<rparr>"

fun sample_native :: "scval \<Rightarrow> native result" where
  "sample_native (ScvU64 n) = Inr (NBig (int n))"
| "sample_native (ScvOther s) = Inl (Err s)"

definition sample_calls :: "policy_call list" where
  "sample_calls = [PBuy sample_buy_env sample_dto, PActivate ''h1'' (Some (ScvU64 7)), PActivate ''h1'' (Some (ScvU64 8))]"


end
