(* ===== verification/Claim_Service.thy ===== *)
theory Claim_Service
  imports Claim_Hold Circuit_Breaker Trigger_Stability Oracle_Control Anomaly Policy_Store
begin

text \<open>
  The claim scan and the payout path (\<open>claim/claim.service.ts\<close>) with the settlement
  authorisation (\<open>claim/settlement-authorization.ts\<close>), the trigger table
  (\<open>oracle/consensus/trigger-specs.ts\<close>), the record of a consensus decision
  (\<open>oracle/consensus/consensus-decision.ts\<close>), the submission of the settlement
  (\<open>claim/claim-settlement.service.ts\<close>) and the adjudication records
  (\<open>claim/reevaluation/adjudication.ts\<close>). It composes the models of the policy store, the
  operator pause, the anomaly detector, the circuit breaker, the trigger evaluator and the
  claim holds.

  What lies outside is an argument: the oracle readings, the decisions of the consensus
  service, the Soroban network, the clock and which stores answer. Each is a function of the
  number of policies scanned so far, so that every call may answer differently. Logging is
  left out; what is handed to the event repository, the reconciliation service and the
  adjudication listeners is kept in the state.
\<close>

section \<open>Trigger table and consensus decisions\<close>

record trigger_spec =
  ts_coverageType :: string
  ts_metric :: "string option"
  ts_threshold :: rat
  ts_direction :: trigger_direction
  ts_maxSpread :: rat

definition TRIGGER_SPECS :: "(int \<times> trigger_spec) list" where
  "TRIGGER_SPECS = [
     (0, \<lparr>ts_coverageType = ''StablecoinDepeg'', ts_metric = Some ''usdc.usd.price'', ts_threshold = 95 / 100, ts_direction = Below, ts_maxSpread = 2 / 100\<rparr>),
     (1, \<lparr>ts_coverageType = ''MarketCrash'', ts_metric = Some ''xlm.usd.change_24h_pct'', ts_threshold = - 30, ts_direction = Below, ts_maxSpread = 5\<rparr>),
     (2, \<lparr>ts_coverageType = ''LiquidationShield'', ts_metric = None, ts_threshold = 85 / 100, ts_direction = Below, ts_maxSpread = 0\<rparr>),
     (3, \<lparr>ts_coverageType = ''SmartContractRisk'', ts_metric = Some ''protocol.tvl.change_24h_pct'', ts_threshold = - 50, ts_direction = Below, ts_maxSpread = 10\<rparr>),
     (4, \<lparr>ts_coverageType = ''FlightDelay'', ts_metric = None, ts_threshold = 120, ts_direction = Above, ts_maxSpread = 0\<rparr>)]"

definition isPastThreshold :: "rat \<Rightarrow> trigger_spec \<Rightarrow> bool" where
  "isPastThreshold v spec = (if ts_direction spec = Below then v < ts_threshold spec else v > ts_threshold spec)"

datatype consensus_status = StOk | StDegraded | StInsufficient | StConflicted | StUnrecorded

fun consensus_status_text :: "consensus_status \<Rightarrow> string" where
  "consensus_status_text StOk = ''ok''"
| "consensus_status_text StDegraded = ''degraded''"
| "consensus_status_text StInsufficient = ''insufficient''"
| "consensus_status_text StConflicted = ''conflicted''"
| "consensus_status_text StUnrecorded = ''unrecorded''"

record decision_input =
  din_sourceId :: string
  din_value :: rat
  din_rawValue :: rat
  din_observedAt :: time_ms
  din_evidenceSha256 :: string
  din_samples :: int
  din_spanMs :: int

record consensus_decision =
  cd_id :: string
  cd_coverageType :: string
  cd_metric :: "string option"
  cd_subject :: "string option"
  cd_value :: "rat option"
  cd_threshold :: rat
  cd_direction :: trigger_direction
  cd_triggered :: bool
  cd_actionable :: bool
  cd_status :: consensus_status
  cd_confidence :: rat
  cd_quorum :: "int \<times> int \<times> bool"
  cd_inputs :: "decision_input list"
  cd_failures :: "(string \<times> string) list"
  cd_blockers :: "string list"
  cd_decidedAt :: time_ms
  cd_evidenceSeq :: "int option"

definition authorizesPayout :: "consensus_decision \<Rightarrow> bool" where
  "authorizesPayout d \<longleftrightarrow> cd_actionable d \<and> cd_triggered d \<and> cd_evidenceSeq d \<noteq> None"

record settlement_authorization =
  sz_policyId :: string
  sz_holder :: string
  sz_payout :: int
  sz_decision :: consensus_decision

text \<open>The outcome of the authorisation: a reason for refusal, or the authorisation.\<close>

definition authorizeSettlement :: "stored_policy \<Rightarrow> string \<Rightarrow> consensus_decision \<Rightarrow> string + settlement_authorization" where
  "authorizeSettlement policy coverageTypeName d =
     (if cd_coverageType d \<noteq> coverageTypeName
      then Inl (''decision '' @ cd_id d @ '' is for '' @ cd_coverageType d @ '', not '' @ coverageTypeName)
      else if \<not> cd_actionable d
      then Inl (''decision '' @ cd_id d @ '' not actionable ('' @ consensus_status_text (cd_status d) @ ''): '' @ join ''; '' (cd_blockers d))
      else if \<not> authorizesPayout d then Inl (''decision '' @ cd_id d @ '' not triggered'')
      else Inr \<lparr>sz_policyId = sp_id policy, sz_holder = sp_holder policy, sz_payout = sp_coverageAmount policy, sz_decision = d\<rparr>)"

section \<open>Settlement\<close>

record settlement_result =
  sr_settled :: bool
  sr_txHash :: "string option"
  sr_error :: "string option"
  sr_code :: "string option"

text \<open>The configuration, already trimmed, and what the network did with a submission.\<close>

record settle_config =
  sc_poolContractId :: string
  sc_relayerSecret :: string
  sc_relayerSecretId :: string

datatype network_outcome =
    NoKeypair
  | SendRejected string "string option" "string option"
  | Confirmation bool string "string option"
  | Threw

definition settle_configured :: "settle_config \<Rightarrow> bool" where
  "settle_configured cfg \<longleftrightarrow> sc_poolContractId cfg \<noteq> [] \<and> (sc_relayerSecret cfg \<noteq> [] \<or> sc_relayerSecretId cfg \<noteq> [])"

definition u64_id :: "string \<Rightarrow> bool" where
  "u64_id s \<longleftrightarrow> s \<noteq> [] \<and> list_all is_digit s \<and> int (dec_value s) \<le> U64_MAX"

definition unsettled :: "string \<Rightarrow> settlement_result" where
  "unsettled e = \<lparr>sr_settled = False, sr_txHash = None, sr_error = Some e, sr_code = None\<rparr>"

definition settleClaim :: "settle_config \<Rightarrow> (string \<Rightarrow> network_outcome) \<Rightarrow> string \<Rightarrow> settlement_result" where
  "settleClaim cfg network policyId =
     (if \<not> settle_configured cfg
      then unsettled ''Soroban relayer not configured (missing REFRACT_POOL_CONTRACT_ID or ORACLE_RELAYER_SECRET / ORACLE_RELAYER_SECRET_ID)''
      else if \<not> u64_id policyId then unsettled ''Policy ID must be an on-chain u64''
      else case network policyId of
             NoKeypair \<Rightarrow> unsettled ''Soroban relayer not configured (missing relayer secret)''
           | SendRejected h e c \<Rightarrow> \<lparr>sr_settled = False, sr_txHash = Some h, sr_error = e, sr_code = c\<rparr>
           | Confirmation ok h e \<Rightarrow> \<lparr>sr_settled = ok, sr_txHash = Some h, sr_error = e, sr_code = None\<rparr>
           | Threw \<Rightarrow> \<lparr>sr_settled = False, sr_txHash = None,
                sr_error = Some ''The Soroban request failed. Please retry later or contact support.'',
                sr_code = Some ''SOROBAN_REQUEST_FAILED''\<rparr>)"

section \<open>Adjudication records\<close>

datatype feed_trust = Trusted | UnderCorroborated | Disputed | DegradedTrust

datatype adjudication_outcome = Held | Skipped | SettledOut

record adjudication_record =
  ad_id :: string
  ad_policyId :: string
  ad_holder :: string
  ad_coverageType :: int
  ad_feedId :: string
  ad_outcome :: adjudication_outcome
  ad_trustState :: feed_trust
  ad_decidedAt :: time_ms
  ad_readingValue :: js_number
  ad_threshold :: js_number
  ad_direction :: trigger_direction
  ad_coverageAmount :: int
  ad_paid :: int
  ad_expiresAt :: time_ms
  ad_settlementTxHash :: "string option"
  ad_reevaluatedBy :: "string option"

text \<open>The flight number of a policy when it is a string.\<close>

definition flight_number :: "stored_policy \<Rightarrow> string" where
  "flight_number p = (case trigger_param ''flightNumber'' p of Some (PString s) \<Rightarrow> s | _ \<Rightarrow> ''UNKNOWN'')"

definition feedIdForPolicy :: "stored_policy \<Rightarrow> string" where
  "feedIdForPolicy p =
     (if sp_coverageType p = 0 then ''usdc-usd''
      else if sp_coverageType p = 1 then ''market-24h-change''
      else if sp_coverageType p = 2 then ''liquidation-ratio''
      else if sp_coverageType p = 3 then ''tvl-drop''
      else if sp_coverageType p = 4 then ''flight-delay:'' @ flight_number p
      else ''coverage-'' @ big_to_string (sp_coverageType p))"

section \<open>State and environment\<close>

record claim_result =
  cr_policyId :: string
  cr_holder :: string
  cr_coverageType :: int
  cr_triggered :: bool
  cr_payout :: int
  cr_reason :: string
  cr_processedAt :: time_ms
  cr_triggerDetectedAt :: "time_ms option"
  cr_settlementTxHash :: "string option"
  cr_decisionId :: "string option"

record dead_letter_entry =
  dl_policyId :: string
  dl_holder :: string
  dl_failureCount :: int
  dl_lastError :: string
  dl_reason :: string
  dl_coverageType :: int

text \<open>\<open>cs_submitted\<close> lists every settlement handed to the network, in order, with its result.\<close>

record claim_state =
  cs_store :: policy_store
  cs_control :: control_state
  cs_anomaly :: anomaly_history
  cs_breakers :: breaker_table
  cs_ledger :: ledger
  cs_triggers :: trigger_states
  cs_coverageTypes :: "(string, int) jmap"
  cs_processedCount :: int
  cs_payoutTotal :: int
  cs_history :: "claim_result list"
  cs_deadLetter :: "dead_letter_entry list"
  cs_failureCounts :: "(string, int) jmap"
  cs_deadLetterIds :: "string list"
  cs_failedSettlements :: "string list"
  cs_recorded :: "oracle_reading list"
  cs_adjudications :: "adjudication_record list"
  cs_submitted :: "(string \<times> int \<times> settlement_result) list"
  cs_tick :: nat

datatype oracle_check = CheckStablecoinDepeg | CheckMarketCrash | CheckLiquidationShield | CheckSmartContractRisk | CheckFlightDelay string

text \<open>The optional collaborators are options. \<open>ce_never\<close> is a time that no clock reaches: the
  re-evaluation path has no expiry, and a comparison with \<open>NaN\<close> is false.\<close>

record claim_env =
  ce_S :: "js_number \<Rightarrow> string"
  ce_F :: "js_number \<Rightarrow> string"
  ce_json :: "oracle_reading \<Rightarrow> string"
  ce_reason_text :: "decision_reason \<Rightarrow> string"
  ce_rules :: anomaly_rules
  ce_overrides :: trigger_overrides
  ce_hold :: "hold_env option"
  ce_payloads :: payload_store
  ce_trustGate :: "(nat \<Rightarrow> string \<Rightarrow> feed_trust option) option"
  ce_holdOnUntrusted :: bool
  ce_listening :: bool
  ce_repository :: "(oracle_reading \<Rightarrow> bool) option"
  ce_reconciling :: bool
  ce_settleConfig :: settle_config
  ce_never :: time_ms
  ce_clock :: "nat \<Rightarrow> time_ms"
  ce_clockEval :: "nat \<Rightarrow> time_ms"
  ce_oracle :: "nat \<Rightarrow> oracle_check \<Rightarrow> oracle_reading result"
  ce_decide :: "nat \<Rightarrow> int \<Rightarrow> string option \<Rightarrow> consensus_decision result"
  ce_up :: "nat \<Rightarrow> stores_up"
  ce_breakerUp :: "nat \<Rightarrow> bool"
  ce_network :: "nat \<Rightarrow> string \<Rightarrow> network_outcome"

definition STALENESS_LIMIT_SECONDS :: int where
  "STALENESS_LIMIT_SECONDS = 1800"

section \<open>The steps of a scan\<close>

definition subjectFor :: "stored_policy \<Rightarrow> string option" where
  "subjectFor p =
     (case (case trigger_param ''protocolSlug'' p of None \<Rightarrow> trigger_param ''flightNumber'' p | v \<Rightarrow> v) of
        Some (PString s) \<Rightarrow> Some s
      | _ \<Rightarrow> None)"

definition oracle_check_for :: "stored_policy \<Rightarrow> oracle_check option" where
  "oracle_check_for p =
     (if sp_coverageType p = 0 then Some CheckStablecoinDepeg
      else if sp_coverageType p = 1 then Some CheckMarketCrash
      else if sp_coverageType p = 2 then Some CheckLiquidationShield
      else if sp_coverageType p = 3 then Some CheckSmartContractRisk
      else if sp_coverageType p = 4 then Some (CheckFlightDelay (flight_number p))
      else None)"

definition fetchOracleData :: "claim_env \<Rightarrow> stored_policy \<Rightarrow> claim_state \<Rightarrow> oracle_reading result \<times> claim_state" where
  "fetchOracleData env p s =
     (case oracle_check_for p of
        None \<Rightarrow> (Inl (Err (''Unknown coverageType '' @ big_to_string (sp_coverageType p))), s)
      | Some c \<Rightarrow>
          (case ce_oracle env (cs_tick s) c of
             Inl e \<Rightarrow> (Inl e, s)
           | Inr r \<Rightarrow> (Inr r, if ce_repository env = None then s else s\<lparr>cs_recorded := cs_recorded s @ [r]\<rparr>)))"

definition buildResult :: "stored_policy \<Rightarrow> bool \<Rightarrow> string \<Rightarrow> time_ms \<Rightarrow> claim_result" where
  "buildResult p triggered reason now = \<lparr>cr_policyId = sp_id p, cr_holder = sp_holder p, cr_coverageType = sp_coverageType p,
     cr_triggered = triggered, cr_payout = (if triggered then sp_coverageAmount p else 0), cr_reason = reason,
     cr_processedAt = now, cr_triggerDetectedAt = None, cr_settlementTxHash = None, cr_decisionId = None\<rparr>"

definition direction_of :: "int \<Rightarrow> trigger_direction" where
  "direction_of coverageType = (if coverageType = 4 then Above else Below)"

text \<open>The configuration of the trigger evaluator, looked up when it is used.\<close>

definition trigger_config_for :: "claim_env \<Rightarrow> (string, int) jmap \<Rightarrow> string \<Rightarrow> trigger_config" where
  "trigger_config_for env types policyId =
     defaultTriggerConfig (case map_of types policyId of None \<Rightarrow> - 1 | Some c \<Rightarrow> c) (ce_overrides env)"

definition evaluatePolicy :: "claim_env \<Rightarrow> stored_policy \<Rightarrow> oracle_reading \<Rightarrow> int \<Rightarrow> claim_state \<Rightarrow> claim_result result \<times> claim_state" where
  "evaluatePolicy env p oracle fetchedAt s =
     (let now = ce_clockEval env (cs_tick s); staleness = now_seconds now - fetchedAt in
      if staleness > STALENESS_LIMIT_SECONDS
      then (Inr (buildResult p False (''Oracle data stale ('' @ big_to_string staleness @ ''s old)'') now), s)
      else let types = js_set (sp_id p) (sp_coverageType p) (cs_coverageTypes s); s' = s\<lparr>cs_coverageTypes := types\<rparr> in
        case Trigger_Stability.evaluate (trigger_config_for env types) (sp_id p)
               \<lparr>ob_value = or_value oracle, ob_threshold = or_threshold oracle,
                ob_direction = direction_of (sp_coverageType p), ob_observedAt = fetchedAt * 1000\<rparr> (cs_triggers s') of
          Inl e \<Rightarrow> (Inl e, s')
        | Inr (d, triggers, ev) \<Rightarrow>
            let r = buildResult p (td_triggered d) (or_message oracle @ '' [trigger: '' @ ce_reason_text env (td_reason d) @ '']'') now in
            (Inr (if td_triggered d \<and> td_confirmedAt d \<noteq> None then r\<lparr>cr_triggerDetectedAt := td_confirmedAt d\<rparr> else r),
             s'\<lparr>cs_triggers := triggers\<rparr>))"

definition tripBreaker :: "claim_env \<Rightarrow> oracle_reading \<Rightarrow> string list \<Rightarrow> claim_state \<Rightarrow> unit result \<times> claim_state" where
  "tripBreaker env reading reasons s =
     (let reason = join ''; '' reasons in
      if \<not> ce_breakerUp env (cs_tick s) then (Inl (Err ''query failed''), s)
      else case open_breaker (or_coverageType reading) reason (''['' @ ce_json env reading @ '']'') (ce_clock env (cs_tick s)) (cs_breakers s) of
        (tab, opened) \<Rightarrow>
          let s' = s\<lparr>cs_breakers := tab\<rparr> in
          if \<not> opened then (Inr (), s')
          else let evidence = reading\<lparr>or_severity := Oracle_Reading.Triggered,
                     or_message := ''Circuit breaker opened: '' @ reason @ '' [AnomalyDetector]''\<rparr> in
            case ce_repository env of
              None \<Rightarrow> (Inr (), s')
            | Some store \<Rightarrow> if store evidence then (Inr (), s'\<lparr>cs_recorded := cs_recorded s' @ [evidence]\<rparr>)
                            else (Inl (Err ''query failed''), s'))"

definition emitAdjudication ::
  "claim_env \<Rightarrow> stored_policy \<Rightarrow> oracle_reading \<Rightarrow> string \<Rightarrow> feed_trust \<Rightarrow> adjudication_outcome \<Rightarrow> int \<Rightarrow> int \<Rightarrow> string option
     \<Rightarrow> claim_state \<Rightarrow> claim_state" where
  "emitAdjudication env p oracle feedId trust out decidedAtSeconds paid tx s =
     (if \<not> ce_listening env then s
      else let decidedAt = decidedAtSeconds * 1000 in
        s\<lparr>cs_adjudications := cs_adjudications s @ [
          \<lparr>ad_id = sp_id p @ '':'' @ big_to_string decidedAt, ad_policyId = sp_id p, ad_holder = sp_holder p,
           ad_coverageType = sp_coverageType p, ad_feedId = feedId, ad_outcome = out, ad_trustState = trust,
           ad_decidedAt = decidedAt, ad_readingValue = or_value oracle, ad_threshold = or_threshold oracle,
           ad_direction = direction_of (sp_coverageType p), ad_coverageAmount = sp_coverageAmount p, ad_paid = paid,
           ad_expiresAt = sp_expiresAt p * 1000, ad_settlementTxHash = tx, ad_reevaluatedBy = None\<rparr>]\<rparr>)"

section \<open>The payout\<close>

definition coverage_feed :: "int \<Rightarrow> string" where
  "coverage_feed c = (case js_index COVERAGE_FEEDS c of Some f \<Rightarrow> f | None \<Rightarrow> ''coverage-'' @ big_to_string c)"

definition breaker_db :: "claim_env \<Rightarrow> claim_state \<Rightarrow> breaker_table option" where
  "breaker_db env s = (if ce_breakerUp env (cs_tick s) then Some (cs_breakers s) else None)"

definition settlement_failed :: "claim_env \<Rightarrow> stored_policy \<Rightarrow> claim_result \<Rightarrow> settlement_result \<Rightarrow> claim_state \<Rightarrow> claim_state" where
  "settlement_failed env p result settlement s =
     (let count = (case map_of (cs_failureCounts s) (sp_id p) of None \<Rightarrow> 0 | Some n \<Rightarrow> n) + 1;
          s' = s\<lparr>cs_failureCounts := js_set (sp_id p) count (cs_failureCounts s),
                 cs_failedSettlements := (if ce_reconciling env then cs_failedSettlements s @ [sp_id p] else cs_failedSettlements s)\<rparr>
      in if count \<ge> 3
         then s'\<lparr>cs_deadLetter := cs_deadLetter s' @ [\<lparr>dl_policyId = sp_id p, dl_holder = sp_holder p, dl_failureCount = count,
                    dl_lastError = (case sr_error settlement of None \<Rightarrow> ''settlement failed'' | Some e \<Rightarrow> e),
                    dl_reason = cr_reason result, dl_coverageType = sp_coverageType p\<rparr>],
                 cs_deadLetterIds := List.insert (sp_id p) (cs_deadLetterIds s'),
                 cs_failureCounts := js_delete (sp_id p) (cs_failureCounts s')\<rparr>
         else s')"

text \<open>The call of \<open>markSettled\<close> when there is a hold to mark.\<close>

definition mark_hold :: "claim_env \<Rightarrow> string option \<Rightarrow> nat \<Rightarrow> ledger \<Rightarrow> unit result \<times> ledger" where
  "mark_hold env holdId k lg =
     (case (holdId, ce_hold env) of
        (Some h, Some he) \<Rightarrow> if h = [] then (Inr (), lg) else markSettled he (ce_clockEval env k) h lg
      | _ \<Rightarrow> (Inr (), lg))"

text \<open>After the confirmation: the hold is marked settled first, and an exception there leaves the
  policy as it was.\<close>

definition settlement_confirmed ::
  "claim_env \<Rightarrow> stored_policy \<Rightarrow> claim_result \<Rightarrow> settlement_authorization option \<Rightarrow> string option \<Rightarrow> settlement_result
     \<Rightarrow> claim_state \<Rightarrow> claim_result option result \<times> claim_state" where
  "settlement_confirmed env p result auth holdId settlement s =
     (case mark_hold env holdId (cs_tick s) (cs_ledger s) of
        (Inl e, lg) \<Rightarrow> (Inl e, s\<lparr>cs_ledger := lg\<rparr>)
      | (Inr _, lg) \<Rightarrow>
          let settled = result\<lparr>cr_settlementTxHash := sr_txHash settlement,
                               cr_decisionId := map_option (\<lambda>a. cd_id (sz_decision a)) auth\<rparr> in
          (Inr (Some settled),
           s\<lparr>cs_ledger := lg, cs_store := deactivate (sp_id p) (cs_store s), cs_triggers := forget (sp_id p) (cs_triggers s),
             cs_coverageTypes := js_delete (sp_id p) (cs_coverageTypes s), cs_processedCount := cs_processedCount s + 1,
             cs_payoutTotal := cs_payoutTotal s + cr_payout result, cs_history := cs_history s @ [settled]\<rparr>))"

definition hold_gate_result :: "claim_env \<Rightarrow> stored_policy \<Rightarrow> claim_state \<Rightarrow> gate_result \<times> ledger" where
  "hold_gate_result env p s =
     (case ce_hold env of
        None \<Rightarrow> (Proceed None, cs_ledger s)
      | Some he \<Rightarrow> gate he (ce_clockEval env (cs_tick s)) (ce_payloads env)
          \<lparr>hc_policyId = sp_id p, hc_holder = sp_holder p, hc_feedId = coverage_feed (sp_coverageType p),
           hc_policyExpiresAt = sp_expiresAt p * 1000\<rparr> (cs_ledger s))"

definition processPayout ::
  "claim_env \<Rightarrow> stored_policy \<Rightarrow> claim_result \<Rightarrow> settlement_authorization option \<Rightarrow> claim_state \<Rightarrow> claim_result option result \<times> claim_state" where
  "processPayout env p result auth s =
     (if \<not> isSettlementAllowed (breaker_db env s) (big_to_string (sp_coverageType p)) then (Inr None, s)
      else case hold_gate_result env p s of
        (Block reason h, lg) \<Rightarrow> (Inr None, s\<lparr>cs_ledger := lg\<rparr>)
      | (Proceed holdId, lg) \<Rightarrow>
          let settlement = settleClaim (ce_settleConfig env) (ce_network env (cs_tick s)) (sp_id p);
              s' = s\<lparr>cs_ledger := lg, cs_submitted := cs_submitted s @ [(sp_id p, cr_payout result, settlement)]\<rparr> in
          if \<not> sr_settled settlement then (Inr None, settlement_failed env p result settlement s')
          else settlement_confirmed env p result auth holdId settlement s')"

section \<open>The scan\<close>

record scan_counts =
  sn_scanned :: nat
  sn_triggered :: nat
  sn_settled :: nat
  sn_deferred :: nat
  sn_failedTransient :: nat
  sn_failedPermanent :: nat
  sn_failedIndeterminate :: nat
  sn_deadLettered :: nat

text \<open>How the iteration for one policy ends; \<open>EndThrew\<close> says whether the trigger had been counted.\<close>

datatype scan_end =
    EndAnomaly
  | EndNotAuthorized string
  | EndNotTriggered
  | EndPaused
  | EndHeld
  | EndDeferred
  | EndSettled claim_result
  | EndThrew bool js_error

text \<open>The trust of the policy's feed; \<open>null\<close> without a gate.\<close>

definition trust_of :: "claim_env \<Rightarrow> string \<Rightarrow> claim_state \<Rightarrow> feed_trust option" where
  "trust_of env feedId s = (case ce_trustGate env of None \<Rightarrow> None | Some g \<Rightarrow> g (cs_tick s) feedId)"

definition untrusted :: "feed_trust option \<Rightarrow> bool" where
  "untrusted t \<longleftrightarrow> t \<noteq> None \<and> t \<noteq> Some Trusted"

definition scan_triggered ::
  "claim_env \<Rightarrow> stored_policy \<Rightarrow> oracle_reading \<Rightarrow> claim_result \<Rightarrow> settlement_authorization \<Rightarrow> int \<Rightarrow> claim_state \<Rightarrow> scan_end \<times> claim_state" where
  "scan_triggered env p oracle result auth fetchedAt s =
     (let feedId = feedIdForPolicy p; trust = trust_of env feedId s in
      case isPaused (ce_up env (cs_tick s)) (ce_clockEval env (cs_tick s)) (sp_coverageType p) (cs_control s) of
        (Inl e, c) \<Rightarrow> (EndThrew True e, s\<lparr>cs_control := c\<rparr>)
      | (Inr True, c) \<Rightarrow> (EndPaused, s\<lparr>cs_control := c\<rparr>)
      | (Inr False, c) \<Rightarrow>
          let s' = s\<lparr>cs_control := c\<rparr> in
          if untrusted trust \<and> ce_holdOnUntrusted env
          then (EndHeld, emitAdjudication env p oracle feedId (the trust) Held fetchedAt 0 None s')
          else case processPayout env p result (Some auth) s' of
                 (Inl e, s'') \<Rightarrow> (EndThrew True e, s'')
               | (Inr None, s'') \<Rightarrow> (EndDeferred, s'')
               | (Inr (Some r), s'') \<Rightarrow>
                   (EndSettled r, if untrusted trust
                      then emitAdjudication env p oracle feedId (the trust) SettledOut fetchedAt (cr_payout r) (cr_settlementTxHash r) s''
                      else s''))"

definition scan_evaluated ::
  "claim_env \<Rightarrow> stored_policy \<Rightarrow> oracle_reading \<Rightarrow> settlement_authorization \<Rightarrow> int \<Rightarrow> claim_state \<Rightarrow> scan_end \<times> claim_state" where
  "scan_evaluated env p oracle auth fetchedAt s =
     (case evaluatePolicy env p oracle fetchedAt s of
        (Inl e, s') \<Rightarrow> (EndThrew False e, s')
      | (Inr result, s') \<Rightarrow>
          if cr_triggered result then scan_triggered env p oracle result auth fetchedAt s'
          else let feedId = feedIdForPolicy p; trust = trust_of env feedId s' in
            (EndNotTriggered,
             if untrusted trust then emitAdjudication env p oracle feedId (the trust) Skipped fetchedAt 0 None s' else s'))"

definition scan_decided ::
  "claim_env \<Rightarrow> stored_policy \<Rightarrow> trigger_spec \<Rightarrow> oracle_reading \<Rightarrow> int \<Rightarrow> claim_state \<Rightarrow> scan_end \<times> claim_state" where
  "scan_decided env p spec oracle fetchedAt s =
     (case ce_decide env (cs_tick s) (sp_coverageType p) (subjectFor p) of
        Inl e \<Rightarrow> (EndThrew False e, s)
      | Inr d \<Rightarrow>
          (case authorizeSettlement p (ts_coverageType spec) d of
             Inl reason \<Rightarrow> (EndNotAuthorized reason, s)
           | Inr auth \<Rightarrow> scan_evaluated env p oracle auth fetchedAt s))"

definition scan_policy :: "claim_env \<Rightarrow> stored_policy \<Rightarrow> claim_state \<Rightarrow> scan_end \<times> claim_state" where
  "scan_policy env p s =
     (case map_of TRIGGER_SPECS (sp_coverageType p) of
        None \<Rightarrow> (EndThrew False (Err (''Unknown coverageType '' @ big_to_string (sp_coverageType p))), s)
      | Some spec \<Rightarrow>
          (case fetchOracleData env p s of
             (Inl e, s1) \<Rightarrow> (EndThrew False e, s1)
           | (Inr oracle, s1) \<Rightarrow>
               (case evaluate_reading (ce_S env) (ce_F env) (ce_rules env) oracle (ce_clock env (cs_tick s)) (cs_anomaly s1) of
                  (anomaly, hist) \<Rightarrow>
                    if av_triggered anomaly
                    then (case tripBreaker env oracle (av_reasons anomaly) (s1\<lparr>cs_anomaly := hist\<rparr>) of
                            (Inl e, s3) \<Rightarrow> (EndThrew False e, s3)
                          | (Inr _, s3) \<Rightarrow> (EndAnomaly, s3))
                    else scan_decided env p spec oracle (now_seconds (ce_clock env (cs_tick s))) (s1\<lparr>cs_anomaly := hist\<rparr>))))"

definition tick :: "claim_state \<Rightarrow> claim_state" where
  "tick s = s\<lparr>cs_tick := cs_tick s + 1\<rparr>"

fun count_end :: "scan_end \<Rightarrow> scan_counts \<Rightarrow> scan_counts" where
  "count_end EndAnomaly c = c"
| "count_end (EndNotAuthorized _) c = c"
| "count_end EndNotTriggered c = c"
| "count_end EndPaused c = c\<lparr>sn_triggered := sn_triggered c + 1\<rparr>"
| "count_end EndHeld c = c\<lparr>sn_triggered := sn_triggered c + 1\<rparr>"
| "count_end EndDeferred c = c\<lparr>sn_triggered := sn_triggered c + 1, sn_deferred := sn_deferred c + 1,
     sn_failedTransient := sn_failedTransient c + 1\<rparr>"
| "count_end (EndSettled _) c = c\<lparr>sn_triggered := sn_triggered c + 1, sn_settled := sn_settled c + 1\<rparr>"
| "count_end (EndThrew t _) c = c\<lparr>sn_triggered := sn_triggered c + (if t then 1 else 0),
     sn_failedIndeterminate := sn_failedIndeterminate c + 1\<rparr>"

fun settled_of :: "scan_end \<Rightarrow> claim_result list" where
  "settled_of (EndSettled r) = [r]"
| "settled_of _ = []"

fun scan_policies :: "claim_env \<Rightarrow> stored_policy list \<Rightarrow> claim_result list \<times> scan_counts \<Rightarrow> claim_state \<Rightarrow> (claim_result list \<times> scan_counts) \<times> claim_state" where
  "scan_policies env [] out s = (out, s)"
| "scan_policies env (p # ps) (settled, counts) s =
     (case scan_policy env p s of
        (e, s') \<Rightarrow> scan_policies env ps (settled @ settled_of e, count_end e counts) (tick s'))"

definition scan_list :: "claim_env \<Rightarrow> claim_state \<Rightarrow> stored_policy list" where
  "scan_list env s = filter (\<lambda>p. sp_id p \<notin> set (cs_deadLetterIds s)) (listActive (ce_clock env (cs_tick s)) (cs_store s))"

definition processTriggeredWithStats :: "claim_env \<Rightarrow> claim_state \<Rightarrow> (claim_result list \<times> scan_counts) \<times> claim_state" where
  "processTriggeredWithStats env s =
     (let active = scan_list env s in
      case scan_policies env active ([], \<lparr>sn_scanned = length active, sn_triggered = 0, sn_settled = 0, sn_deferred = 0,
             sn_failedTransient = 0, sn_failedPermanent = 0, sn_failedIndeterminate = 0, sn_deadLettered = 0\<rparr>) s of
        ((settled, counts), s') \<Rightarrow> ((settled, counts\<lparr>sn_deadLettered := length (cs_deadLetter s')\<rparr>), s'))"

definition processTriggered :: "claim_env \<Rightarrow> claim_state \<Rightarrow> claim_result list \<times> claim_state" where
  "processTriggered env s = (case processTriggeredWithStats env s of ((settled, _), s') \<Rightarrow> (settled, s'))"

definition settleClaims :: "claim_env \<Rightarrow> claim_state \<Rightarrow> claim_result list \<times> claim_state" where
  "settleClaims env s = processTriggered env s"

text \<open>The payment of a re-adjudicated claim: no authorisation, and a policy of four fields.\<close>

definition reevaluation_policy :: "claim_env \<Rightarrow> string \<Rightarrow> string \<Rightarrow> int \<Rightarrow> int \<Rightarrow> stored_policy" where
  "reevaluation_policy env i holder coverageType coverageAmount = \<lparr>sp_id = i, sp_holder = holder, sp_coverageType = coverageType,
     sp_coverageTypeName = [], sp_coverageAmount = coverageAmount, sp_premium = 0, sp_durationDays = 0,
     sp_expiresAt = ce_never env, sp_isActive = False, sp_createdAt = 0, sp_triggerParams = None\<rparr>"

definition settleFromReevaluation ::
  "claim_env \<Rightarrow> string \<Rightarrow> string \<Rightarrow> int \<Rightarrow> int \<Rightarrow> string \<Rightarrow> claim_state \<Rightarrow> (bool \<times> string option \<times> string option) result \<times> claim_state" where
  "settleFromReevaluation env i holder coverageType coverageAmount runId s =
     (let p = reevaluation_policy env i holder coverageType coverageAmount;
          result = (buildResult p True (''Re-adjudicated by '' @ runId @ '' after feed trust was restored'') (ce_clock env (cs_tick s)))
      in case processPayout env p result None s of
           (Inl e, s') \<Rightarrow> (Inl e, tick s')
         | (Inr None, s') \<Rightarrow> (Inr (False, None, Some ''settlement did not confirm''), tick s')
         | (Inr (Some r), s') \<Rightarrow> (Inr (True, cr_settlementTxHash r, None), tick s'))"

section \<open>Queries\<close>

definition getDeadLetterClaims :: "claim_state \<Rightarrow> dead_letter_entry list" where
  "getDeadLetterClaims s = cs_deadLetter s"

record claim_stats =
  cx_activePolicies :: nat
  cx_processedClaims :: int
  cx_totalPayout :: string
  cx_settlementConfigured :: bool
  cx_deadLetterClaims :: nat
  cx_settlementRetries :: int

definition getStats :: "claim_env \<Rightarrow> claim_state \<Rightarrow> claim_stats" where
  "getStats env s = \<lparr>cx_activePolicies = length (listActive (ce_clock env (cs_tick s)) (cs_store s)),
     cx_processedClaims = cs_processedCount s, cx_totalPayout = big_to_string (cs_payoutTotal s),
     cx_settlementConfigured = settle_configured (ce_settleConfig env), cx_deadLetterClaims = length (cs_deadLetter s),
     cx_settlementRetries = sum_list (js_values (cs_failureCounts s))\<rparr>"

definition newest_first :: "claim_result list \<Rightarrow> claim_result list" where
  "newest_first = js_sort (\<lambda>a b. cr_processedAt b \<le> cr_processedAt a)"

definition getHistoryForHolder :: "string \<Rightarrow> claim_state \<Rightarrow> claim_result list" where
  "getHistoryForHolder address s = newest_first (filter (\<lambda>c. cr_holder c = address) (cs_history s))"

definition getRecentSettlements :: "nat \<Rightarrow> claim_state \<Rightarrow> claim_result list" where
  "getRecentSettlements limit s = take limit (newest_first (cs_history s))"

section \<open>What the steps leave alone\<close>

text \<open>The parts of the state a payout changes, and the ones the gates before it read.\<close>

definition same_books :: "claim_state \<Rightarrow> claim_state \<Rightarrow> bool" where
  "same_books s s' \<longleftrightarrow> cs_store s' = cs_store s \<and> cs_submitted s' = cs_submitted s \<and> cs_history s' = cs_history s
     \<and> cs_processedCount s' = cs_processedCount s \<and> cs_payoutTotal s' = cs_payoutTotal s"

definition same_gates :: "claim_state \<Rightarrow> claim_state \<Rightarrow> bool" where
  "same_gates s s' \<longleftrightarrow> same_books s s' \<and> cs_control s' = cs_control s \<and> cs_breakers s' = cs_breakers s
     \<and> cs_ledger s' = cs_ledger s \<and> cs_tick s' = cs_tick s"

lemma same_books_refl [simp]: "same_books s s"
  by (simp add: same_books_def)

lemma same_books_trans: "same_books s s' \<Longrightarrow> same_books s' s'' \<Longrightarrow> same_books s s''"
  by (simp add: same_books_def)

lemma same_gates_books: "same_gates s s' \<Longrightarrow> same_books s s'"
  by (simp add: same_gates_def)

lemma same_gates_refl [simp]: "same_gates s s"
  by (simp add: same_gates_def)

lemma same_gates_trans: "same_gates s s' \<Longrightarrow> same_gates s' s'' \<Longrightarrow> same_gates s s''"
  by (simp add: same_gates_def same_books_def)

lemma emitAdjudication_gates [simp]: "same_gates s (emitAdjudication env p oracle feedId trust out t paid tx s)"
  by (simp add: emitAdjudication_def same_gates_def same_books_def Let_def)

lemma fetchOracleData_gates:
  "fetchOracleData env p s = (r, s') \<Longrightarrow> same_gates s s' \<and> cs_anomaly s' = cs_anomaly s \<and> cs_triggers s' = cs_triggers s
     \<and> cs_coverageTypes s' = cs_coverageTypes s"
  by (auto simp: fetchOracleData_def same_gates_def same_books_def split: option.splits sum.splits if_splits)

lemma evaluatePolicy_gates: "evaluatePolicy env p oracle t s = (r, s') \<Longrightarrow> same_gates s s'"
  by (auto simp: evaluatePolicy_def same_gates_def same_books_def Let_def split: if_splits sum.splits prod.splits)

lemma gates_same_checks:
  assumes "same_gates s s'"
  shows "trust_of env feed s' = trust_of env feed s" "breaker_db env s' = breaker_db env s"
    "hold_gate_result env p s' = hold_gate_result env p s"
  using assms by (simp_all add: same_gates_def trust_of_def breaker_db_def hold_gate_result_def split: option.split)

lemma control_same_checks [simp]:
  "breaker_db env (s\<lparr>cs_control := c\<rparr>) = breaker_db env s"
  "hold_gate_result env p (s\<lparr>cs_control := c\<rparr>) = hold_gate_result env p s"
  by (simp_all add: breaker_db_def hold_gate_result_def split: option.split)

text \<open>A trigger result carries the confirmed decision of the trigger evaluator.\<close>

definition trigger_confirmed :: "claim_env \<Rightarrow> stored_policy \<Rightarrow> oracle_reading \<Rightarrow> claim_state \<Rightarrow> bool" where
  "trigger_confirmed env p oracle s \<longleftrightarrow> (\<exists>d triggers ev.
     Trigger_Stability.evaluate (\<lambda>_. defaultTriggerConfig (sp_coverageType p) (ce_overrides env)) (sp_id p)
       \<lparr>ob_value = or_value oracle, ob_threshold = or_threshold oracle, ob_direction = direction_of (sp_coverageType p),
        ob_observedAt = now_seconds (ce_clock env (cs_tick s)) * 1000\<rparr> (cs_triggers s) = Inr (d, triggers, ev) \<and> td_triggered d)"

lemma evaluate_config_cong:
  "f key = g key \<Longrightarrow> Trigger_Stability.evaluate f key obs states = Trigger_Stability.evaluate g key obs states"
  by (simp add: Trigger_Stability.evaluate_def)

lemma evaluatePolicy_triggered:
  assumes "evaluatePolicy env p oracle (now_seconds (ce_clock env (cs_tick s))) s = (Inr result, s')" "cr_triggered result"
  shows "trigger_confirmed env p oracle s \<and> cr_payout result = sp_coverageAmount p \<and> cr_policyId result = sp_id p"
proof -
  let ?obs = "\<lparr>ob_value = or_value oracle, ob_threshold = or_threshold oracle, ob_direction = direction_of (sp_coverageType p),
        ob_observedAt = now_seconds (ce_clock env (cs_tick s)) * 1000\<rparr>"
  let ?f = "trigger_config_for env (js_set (sp_id p) (sp_coverageType p) (cs_coverageTypes s))"
  from assms obtain d triggers ev where e: "Trigger_Stability.evaluate ?f (sp_id p) ?obs (cs_triggers s) = Inr (d, triggers, ev)"
      and r: "td_triggered d" "cr_payout result = sp_coverageAmount p \<and> cr_policyId result = sp_id p"
    by (auto simp: evaluatePolicy_def buildResult_def Let_def split: if_splits sum.splits)
  have "?f (sp_id p) = defaultTriggerConfig (sp_coverageType p) (ce_overrides env)" by (simp add: trigger_config_for_def)
  from evaluate_config_cong [of ?f "sp_id p" "\<lambda>_. defaultTriggerConfig (sp_coverageType p) (ce_overrides env)", OF this] e r
  show ?thesis unfolding trigger_confirmed_def by (metis)
qed

lemma settlement_failed_frame [simp]:
  "cs_submitted (settlement_failed env p result x s) = cs_submitted s"
  "cs_store (settlement_failed env p result x s) = cs_store s"
  by (simp_all add: settlement_failed_def Let_def)

lemma settlement_confirmed_submitted [simp]:
  "cs_submitted (snd (settlement_confirmed env p result auth h x s)) = cs_submitted s"
  by (auto simp: settlement_confirmed_def Let_def split: option.splits prod.splits sum.splits if_splits)

text \<open>A settlement is handed to the network only behind the breaker and the hold gate.\<close>

lemma processPayout_submits:
  assumes "processPayout env p result auth s = (r, s')" "cs_submitted s' \<noteq> cs_submitted s"
  shows "\<exists>res. cs_submitted s' = cs_submitted s @ [(sp_id p, cr_payout result, res)]"
    and "isSettlementAllowed (breaker_db env s) (big_to_string (sp_coverageType p))"
    and "\<exists>h lg. hold_gate_result env p s = (Proceed h, lg)"
proof -
  show allowed: "isSettlementAllowed (breaker_db env s) (big_to_string (sp_coverageType p))"
    using assms by (auto simp: processPayout_def split: if_splits)
  obtain g lg where g: "hold_gate_result env p s = (g, lg)" by (cases "hold_gate_result env p s")
  show gp: "\<exists>h lg. hold_gate_result env p s = (Proceed h, lg)"
    using assms allowed g by (cases g) (auto simp: processPayout_def)
  then obtain h lg where h: "hold_gate_result env p s = (Proceed h, lg)" by blast
  let ?x = "settleClaim (ce_settleConfig env) (ce_network env (cs_tick s)) (sp_id p)"
  let ?s = "s\<lparr>cs_ledger := lg, cs_submitted := cs_submitted s @ [(sp_id p, cr_payout result, ?x)]\<rparr>"
  have "s' = settlement_failed env p result ?x ?s \<or> s' = snd (settlement_confirmed env p result auth h ?x ?s)"
    using assms(1) allowed h by (auto simp: processPayout_def Let_def split: if_splits)
  then show "\<exists>res. cs_submitted s' = cs_submitted s @ [(sp_id p, cr_payout result, res)]" by auto
qed

text \<open>An iteration that changes what was submitted or the store ran into the payout, after every
  check before it; the checks are stated on the state the iteration started in.\<close>

definition cleared :: "claim_env \<Rightarrow> stored_policy \<Rightarrow> trigger_spec \<Rightarrow> oracle_reading \<Rightarrow> consensus_decision \<Rightarrow> claim_state \<Rightarrow> bool" where
  "cleared env p spec oracle d s \<longleftrightarrow> map_of TRIGGER_SPECS (sp_coverageType p) = Some spec
     \<and> (\<exists>c. oracle_check_for p = Some c \<and> ce_oracle env (cs_tick s) c = Inr oracle)
     \<and> \<not> av_triggered (fst (evaluate_reading (ce_S env) (ce_F env) (ce_rules env) oracle (ce_clock env (cs_tick s)) (cs_anomaly s)))
     \<and> ce_decide env (cs_tick s) (sp_coverageType p) (subjectFor p) = Inr d
     \<and> cd_coverageType d = ts_coverageType spec \<and> authorizesPayout d
     \<and> trigger_confirmed env p oracle s"

lemma tripBreaker_frame:
  assumes "tripBreaker env r reasons s = (x, s')"
  shows "same_books s s'"
  using assms by (auto simp: tripBreaker_def same_books_def Let_def split: if_splits prod.splits option.splits)

lemma authorize_InrD: "authorizeSettlement p name d = Inr auth \<Longrightarrow> cd_coverageType d = name \<and> authorizesPayout d"
  by (auto simp: authorizeSettlement_def split: if_splits)

lemma scan_evaluated_cases:
  assumes "scan_evaluated env p r auth (now_seconds (ce_clock env (cs_tick s))) s = (e, s')"
  obtains (quiet) "same_gates s s'"
  | (paying) res s3 where "trigger_confirmed env p r s" "same_gates s s3" "cr_payout res = sp_coverageAmount p \<and> cr_policyId res = sp_id p"
      "scan_triggered env p r res auth (now_seconds (ce_clock env (cs_tick s))) s3 = (e, s')"
proof -
  let ?t = "now_seconds (ce_clock env (cs_tick s))"
  obtain x s3 where x: "evaluatePolicy env p r ?t s = (x, s3)" by (cases "evaluatePolicy env p r ?t s")
  note g = evaluatePolicy_gates [OF x]
  show thesis
  proof (cases "\<exists>res. x = Inr res \<and> cr_triggered res")
    case True
    then obtain res where "x = Inr res" "cr_triggered res" by blast
    then have "scan_triggered env p r res auth ?t s3 = (e, s')" using assms x by (simp add: scan_evaluated_def)
    then show thesis using paying x g evaluatePolicy_triggered [of env p r s res s3] \<open>x = Inr res\<close> \<open>cr_triggered res\<close> by blast
  next
    case False
    then have "same_gates s3 s'" using assms x by (cases x) (auto simp: scan_evaluated_def Let_def split: if_splits)
    then show thesis using quiet same_gates_trans g by blast
  qed
qed

lemma scan_decided_cases:
  assumes "scan_decided env p spec r (now_seconds (ce_clock env (cs_tick s))) s = (e, s')"
  obtains (quiet) "same_gates s s'"
  | (paying) d res auth s3 where "ce_decide env (cs_tick s) (sp_coverageType p) (subjectFor p) = Inr d"
      "cd_coverageType d = ts_coverageType spec" "authorizesPayout d"
      "trigger_confirmed env p r s" "same_gates s s3" "cr_payout res = sp_coverageAmount p \<and> cr_policyId res = sp_id p"
      "scan_triggered env p r res auth (now_seconds (ce_clock env (cs_tick s))) s3 = (e, s')"
proof (cases "\<exists>d auth. ce_decide env (cs_tick s) (sp_coverageType p) (subjectFor p) = Inr d \<and> authorizeSettlement p (ts_coverageType spec) d = Inr auth")
  case True
  then obtain d auth where d: "ce_decide env (cs_tick s) (sp_coverageType p) (subjectFor p) = Inr d"
      "authorizeSettlement p (ts_coverageType spec) d = Inr auth" by blast
  then have "scan_evaluated env p r auth (now_seconds (ce_clock env (cs_tick s))) s = (e, s')"
    using assms by (simp add: scan_decided_def)
  then show thesis using that d(1) authorize_InrD [OF d(2)] by (cases rule: scan_evaluated_cases) auto
next
  case False
  then show thesis using assms quiet by (auto simp: scan_decided_def split: sum.splits)
qed

lemma scan_policy_cases:
  assumes run: "scan_policy env p s = (e, s')"
  obtains (quiet) "same_books s s'"
  | (paying) spec r d res auth s3 where "cleared env p spec r d s" "same_gates s s3" "cr_payout res = sp_coverageAmount p \<and> cr_policyId res = sp_id p"
      "scan_triggered env p r res auth (now_seconds (ce_clock env (cs_tick s))) s3 = (e, s')"
proof -
  obtain x s1 where f: "fetchOracleData env p s = (x, s1)" by (cases "fetchOracleData env p s")
  note fg = fetchOracleData_gates [OF f]
  show thesis
  proof (cases "\<exists>spec r. map_of TRIGGER_SPECS (sp_coverageType p) = Some spec \<and> x = Inr r")
    case False
    then have "same_gates s s'" using run f fg by (auto simp: scan_policy_def split: option.splits sum.splits)
    then show thesis using quiet by (simp add: same_gates_books)
  next
    case True
    then obtain spec r where spec: "map_of TRIGGER_SPECS (sp_coverageType p) = Some spec" and x: "x = Inr r" by blast
    obtain a hist where a: "evaluate_reading (ce_S env) (ce_F env) (ce_rules env) r (ce_clock env (cs_tick s)) (cs_anomaly s) = (a, hist)"
      by (cases "evaluate_reading (ce_S env) (ce_F env) (ce_rules env) r (ce_clock env (cs_tick s)) (cs_anomaly s)")
    let ?s2 = "s1\<lparr>cs_anomaly := hist\<rparr>"
    have s2: "same_gates s ?s2" "cs_triggers ?s2 = cs_triggers s" "cs_tick ?s2 = cs_tick s"
      using fg by (simp_all add: same_gates_def same_books_def)
    have check: "\<exists>c. oracle_check_for p = Some c \<and> ce_oracle env (cs_tick s) c = Inr r"
      using f x by (auto simp: fetchOracleData_def split: option.splits sum.splits)
    show thesis
    proof (cases "av_triggered a")
      case True
      obtain y s3 where t: "tripBreaker env r (av_reasons a) ?s2 = (y, s3)" by (cases "tripBreaker env r (av_reasons a) ?s2")
      then have "s' = s3" using run spec f x fg a True by (auto simp: scan_policy_def split: sum.splits)
      then show thesis using quiet tripBreaker_frame [OF t] same_books_trans [OF same_gates_books [OF s2(1)]] by simp
    next
      case False
      then have "scan_decided env p spec r (now_seconds (ce_clock env (cs_tick ?s2))) ?s2 = (e, s')"
        using run spec f x fg a s2(3) by (simp add: scan_policy_def)
      then show thesis
      proof (cases rule: scan_decided_cases)
        case quiet
        then show thesis using that(1) same_gates_books [OF same_gates_trans [OF s2(1) quiet]] by simp
      next
        case (paying d res auth s3)
        then have "cleared env p spec r d s"
          using spec check a False s2 by (simp add: cleared_def trigger_confirmed_def)
        then show thesis using that(2) [of spec r d s3 res auth] paying s2 same_gates_trans [OF s2(1)] by simp
      qed
    qed
  qed
qed

lemma scan_triggered_cases:
  assumes "scan_triggered env p r res auth t s = (e, s')"
  obtains (quiet) "same_books s s'"
  | (paying) c x s2 where
      "isPaused (ce_up env (cs_tick s)) (ce_clockEval env (cs_tick s)) (sp_coverageType p) (cs_control s) = (Inr False, c)"
      "\<not> untrusted (trust_of env (feedIdForPolicy p) s) \<or> \<not> ce_holdOnUntrusted env"
      "processPayout env p res (Some auth) (s\<lparr>cs_control := c\<rparr>) = (x, s2)"
      "same_books s2 s'"
proof -
  obtain y c where y: "isPaused (ce_up env (cs_tick s)) (ce_clockEval env (cs_tick s)) (sp_coverageType p) (cs_control s) = (y, c)"
    by (cases "isPaused (ce_up env (cs_tick s)) (ce_clockEval env (cs_tick s)) (sp_coverageType p) (cs_control s)")
  have emit: "same_books z (emitAdjudication env p r f u w t a h z)" for f u w a h z
    by (rule same_gates_books) simp
  have ctl: "same_books s (s\<lparr>cs_control := c\<rparr>)" by (simp add: same_books_def)
  show thesis
  proof (cases "y = Inr False \<and> (\<not> untrusted (trust_of env (feedIdForPolicy p) s) \<or> \<not> ce_holdOnUntrusted env)")
    case True
    obtain x s2 where x: "processPayout env p res (Some auth) (s\<lparr>cs_control := c\<rparr>) = (x, s2)"
      by (cases "processPayout env p res (Some auth) (s\<lparr>cs_control := c\<rparr>)")
    have "same_books s2 s'"
      using assms y True x emit by (auto simp: scan_triggered_def Let_def split: sum.splits option.splits if_splits)
    then show thesis using paying [of c x s2] y True x by blast
  next
    case False
    then show thesis using assms y same_books_trans [OF ctl emit] ctl quiet
      by (cases y) (auto simp: scan_triggered_def Let_def split: bool.splits)
  qed
qed

text \<open>C1. Every settlement the scan hands to the network has passed every gate. In an
  iteration of the scan for a policy that submits a settlement, the coverage type is in the
  trigger table, the fresh reading passed the anomaly detector, the consensus service returned
  a decision for that coverage type which is actionable, triggered and recorded in the evidence
  trail, the trigger evaluator confirmed the trigger on this reading, the operator pause is off,
  the feed is trusted unless holding is switched off, the circuit breaker of the type's number
  is closed, and the hold gate lets the claim proceed. It is one settlement, for this policy and
  for exactly its coverage amount.\<close>

theorem payout_passes_every_gate:
  assumes "scan_policy env p s = (e, s')" "cs_submitted s' \<noteq> cs_submitted s"
  shows "\<exists>spec rd d res. map_of TRIGGER_SPECS (sp_coverageType p) = Some spec
    \<and> (\<exists>c. oracle_check_for p = Some c \<and> ce_oracle env (cs_tick s) c = Inr rd)
    \<and> \<not> av_triggered (fst (evaluate_reading (ce_S env) (ce_F env) (ce_rules env) rd (ce_clock env (cs_tick s)) (cs_anomaly s)))
    \<and> ce_decide env (cs_tick s) (sp_coverageType p) (subjectFor p) = Inr d
    \<and> cd_coverageType d = ts_coverageType spec \<and> cd_actionable d \<and> cd_triggered d \<and> cd_evidenceSeq d \<noteq> None
    \<and> trigger_confirmed env p rd s
    \<and> fst (isPaused (ce_up env (cs_tick s)) (ce_clockEval env (cs_tick s)) (sp_coverageType p) (cs_control s)) = Inr False
    \<and> (trust_of env (feedIdForPolicy p) s \<in> {None, Some Trusted} \<or> \<not> ce_holdOnUntrusted env)
    \<and> isSettlementAllowed (breaker_db env s) (big_to_string (sp_coverageType p))
    \<and> (\<exists>h lg. hold_gate_result env p s = (Proceed h, lg))
    \<and> cs_submitted s' = cs_submitted s @ [(sp_id p, sp_coverageAmount p, res)]"
  using assms(1)
proof (cases rule: scan_policy_cases)
  case quiet
  then show ?thesis using assms(2) by (simp add: same_books_def)
next
  case outer: (paying spec r d res auth s3)
  from outer(4) show ?thesis
  proof (cases rule: scan_triggered_cases)
    case quiet
    then show ?thesis using assms(2) outer(2) by (simp add: same_gates_def same_books_def)
  next
    case (paying c x s2)
    let ?s = "s3\<lparr>cs_control := c\<rparr>"
    have sub: "cs_submitted ?s = cs_submitted s" "cs_submitted s' = cs_submitted s2"
      using outer(2) paying(4) by (simp_all add: same_gates_def same_books_def)
    have "cs_submitted s2 \<noteq> cs_submitted ?s" using assms(2) sub by simp
    note pp = processPayout_submits [OF paying(3) this]
    have same: "breaker_db env ?s = breaker_db env s" "hold_gate_result env p ?s = hold_gate_result env p s"
      using gates_same_checks(2,3) [OF outer(2)] by simp_all
    have pz: "isPaused (ce_up env (cs_tick s)) (ce_clockEval env (cs_tick s)) (sp_coverageType p) (cs_control s) = (Inr False, c)"
      "trust_of env (feedIdForPolicy p) s3 = trust_of env (feedIdForPolicy p) s"
      using paying(1) outer(2) gates_same_checks(1) [OF outer(2)] by (simp_all add: same_gates_def)
    obtain y where "cs_submitted s2 = cs_submitted s @ [(sp_id p, sp_coverageAmount p, y)]"
      using pp(1) sub outer(3) by auto
    then show ?thesis
      using outer(1) paying(2) pp(2,3) pz same sub(2)
      by (intro exI [of _ spec] exI [of _ r] exI [of _ d] exI [of _ y])
         (auto simp: cleared_def authorizesPayout_def untrusted_def)
  qed
qed

section \<open>A breaker the scan trips\<close>

lemma coverage_name_not_number:
  assumes "name \<in> set (map fst COVERAGE_TYPE_CODE)"
  shows "name \<noteq> big_to_string n"
proof
  assume "name = big_to_string n"
  then have "hd (big_to_string n) = hd name" by simp
  moreover have "is_digit (hd (big_to_string n)) \<or> hd (big_to_string n) = CHR ''-''"
    using digits_dec_digits [of "nat n"] by (cases "dec_digits (nat n)") (auto simp: big_to_string_def)
  moreover have "\<not> is_digit (hd name) \<and> hd name \<noteq> CHR ''-''"
    using assms by (auto simp: COVERAGE_TYPE_CODE_def is_digit_def)
  ultimately show False by metis
qed


section \<open>A policy is paid once\<close>

definition confirmed_payments :: "claim_state \<Rightarrow> (string \<times> int) list" where
  "confirmed_payments s = map (\<lambda>(i, amount, r). (i, amount)) (filter (\<lambda>(i, amount, r). sr_settled r) (cs_submitted s))"

text \<open>The books of the service agree with what the network confirmed, and a policy that was
  paid is in the store and inactive.\<close>

definition books_ok :: "claim_state \<Rightarrow> bool" where
  "books_ok s \<longleftrightarrow> map (\<lambda>r. (cr_policyId r, cr_payout r)) (cs_history s) = confirmed_payments s
     \<and> cs_processedCount s = int (length (confirmed_payments s))
     \<and> cs_payoutTotal s = sum_list (map snd (confirmed_payments s))"

definition claim_ok :: "claim_state \<Rightarrow> bool" where
  "claim_ok s \<longleftrightarrow> store_ok (cs_store s) \<and> distinct (map fst (confirmed_payments s)) \<and> books_ok s
     \<and> (\<forall>i \<in> fst ` set (confirmed_payments s). \<exists>p. map_of (po_policies (cs_store s)) i = Some p \<and> \<not> sp_isActive p)"

text \<open>The hold ledger accepts what is written to it.\<close>

definition ledger_reliable :: "claim_env \<Rightarrow> bool" where
  "ledger_reliable env \<longleftrightarrow> (\<forall>he. ce_hold env = Some he \<longrightarrow> he_persist he = (\<lambda>_. True))"

text \<open>The effect of one payout attempt on the books: none, or one confirmed payment of the policy
  with everything that belongs to it.\<close>

definition unpaid_step :: "claim_state \<Rightarrow> claim_state \<Rightarrow> bool" where
  "unpaid_step s s' \<longleftrightarrow> confirmed_payments s' = confirmed_payments s \<and> cs_store s' = cs_store s
     \<and> cs_history s' = cs_history s \<and> cs_processedCount s' = cs_processedCount s \<and> cs_payoutTotal s' = cs_payoutTotal s"

definition paid_step :: "string \<Rightarrow> int \<Rightarrow> claim_state \<Rightarrow> claim_state \<Rightarrow> bool" where
  "paid_step i amount s s' \<longleftrightarrow> confirmed_payments s' = confirmed_payments s @ [(i, amount)]
     \<and> cs_store s' = deactivate i (cs_store s) \<and> (\<exists>r. cs_history s' = cs_history s @ [r] \<and> cr_policyId r = i \<and> cr_payout r = amount)
     \<and> cs_processedCount s' = cs_processedCount s + 1 \<and> cs_payoutTotal s' = cs_payoutTotal s + amount"

lemma settlement_failed_books [simp]:
  "cs_history (settlement_failed env p res x s) = cs_history s"
  "cs_processedCount (settlement_failed env p res x s) = cs_processedCount s"
  "cs_payoutTotal (settlement_failed env p res x s) = cs_payoutTotal s"
  by (simp_all add: settlement_failed_def Let_def)

lemma mark_settled_reliable:
  assumes "ledger_reliable env" "hold_gate_result env p s = (Proceed h, lg)"
  shows "\<exists>lg'. mark_hold env h k lg = (Inr (), lg')"
proof (cases "h = None \<or> ce_hold env = None")
  case True
  then show ?thesis by (cases h) (auto simp: mark_hold_def)
next
  case False
  then obtain i he where h: "h = Some i" "ce_hold env = Some he" by auto
  then have "\<exists>x. get_hold i lg = Inr x"
    using assms(2) gate_hold_known by (fastforce simp: hold_gate_result_def)
  then show ?thesis using h assms(1) markSettled_ok [of i lg _ he "ce_clockEval env k"]
    by (auto simp: ledger_reliable_def mark_hold_def)
qed

lemma processPayout_books:
  assumes "ledger_reliable env" "processPayout env p res auth s = (x, s')" "cr_policyId res = sp_id p"
  shows "unpaid_step s s' \<or> paid_step (sp_id p) (cr_payout res) s s'"
proof (cases "isSettlementAllowed (breaker_db env s) (big_to_string (sp_coverageType p)) \<and> (\<exists>h lg. hold_gate_result env p s = (Proceed h, lg))")
  case False
  then have "unpaid_step s s'"
    using assms(2) by (auto simp: processPayout_def unpaid_step_def confirmed_payments_def split: if_splits prod.splits gate_result.splits)
  then show ?thesis ..
next
  case True
  then obtain h lg where h: "hold_gate_result env p s = (Proceed h, lg)" by blast
  let ?x = "settleClaim (ce_settleConfig env) (ce_network env (cs_tick s)) (sp_id p)"
  let ?s = "s\<lparr>cs_ledger := lg, cs_submitted := cs_submitted s @ [(sp_id p, cr_payout res, ?x)]\<rparr>"
  show ?thesis
  proof (cases "sr_settled ?x")
    case False
    then have "s' = settlement_failed env p res ?x ?s" using assms(2) True h by (simp add: processPayout_def Let_def)
    then have "unpaid_step s s'" using False by (simp add: unpaid_step_def confirmed_payments_def)
    then show ?thesis ..
  next
    case ok: True
    then have "s' = snd (settlement_confirmed env p res auth h ?x ?s)"
      using assms(2) True h by (simp add: processPayout_def Let_def)
    moreover obtain lg' where "mark_hold env h (cs_tick s) lg = (Inr (), lg')"
      using mark_settled_reliable [OF assms(1) h] by blast
    ultimately have "paid_step (sp_id p) (cr_payout res) s s'"
      using ok assms(3) by (simp add: settlement_confirmed_def Let_def paid_step_def confirmed_payments_def)
    then show ?thesis ..
  qed
qed

text \<open>A payout attempt returns a result exactly when it was paid.\<close>

lemma processPayout_outcome:
  assumes "ledger_reliable env" "processPayout env p res auth s = (x, s')" "cr_policyId res = sp_id p"
  shows "(\<exists>r. x = Inr (Some r)) \<longleftrightarrow> paid_step (sp_id p) (cr_payout res) s s'"
    and "(\<nexists>r. x = Inr (Some r)) \<longleftrightarrow> unpaid_step s s'"
proof -
  have excl: "\<not> (paid_step (sp_id p) (cr_payout res) s s' \<and> unpaid_step s s')"
    by (simp add: paid_step_def unpaid_step_def)
  have none: "unpaid_step s s'" if "\<nexists>r. x = Inr (Some r)"
  proof (cases "sr_settled (settleClaim (ce_settleConfig env) (ce_network env (cs_tick s)) (sp_id p))
      \<and> isSettlementAllowed (breaker_db env s) (big_to_string (sp_coverageType p)) \<and> (\<exists>h lg. hold_gate_result env p s = (Proceed h, lg))")
    case True
    then obtain h lg where h: "hold_gate_result env p s = (Proceed h, lg)" by blast
    from mark_settled_reliable [OF assms(1) h, of "cs_tick s"] obtain lg' where "mark_hold env h (cs_tick s) lg = (Inr (), lg')" by blast
    then show ?thesis using assms(2) True h that
      by (auto simp: processPayout_def settlement_confirmed_def Let_def)
  next
    case False
    then have "length (confirmed_payments s') = length (confirmed_payments s)"
      using assms(2) by (auto simp: processPayout_def confirmed_payments_def Let_def split: if_splits prod.splits gate_result.splits)
    then show ?thesis using processPayout_books [OF assms] by (auto simp: paid_step_def)
  qed
  have some: "paid_step (sp_id p) (cr_payout res) s s'" if "x = Inr (Some r)" for r
  proof -
    have "cs_processedCount s' = cs_processedCount s + 1"
      using assms(2) that by (auto simp: processPayout_def settlement_confirmed_def Let_def split: if_splits prod.splits gate_result.splits sum.splits)
    then show ?thesis using processPayout_books [OF assms] by (auto simp: unpaid_step_def)
  qed
  show "(\<exists>r. x = Inr (Some r)) \<longleftrightarrow> paid_step (sp_id p) (cr_payout res) s s'" using some none excl by blast
  show "(\<nexists>r. x = Inr (Some r)) \<longleftrightarrow> unpaid_step s s'" using some none excl by blast
qed

lemma unpaid_step_refl [simp]: "unpaid_step s s"
  by (simp add: unpaid_step_def)

lemma same_books_unpaid: "same_books s s' \<Longrightarrow> unpaid_step s s'"
  by (simp add: same_books_def unpaid_step_def confirmed_payments_def)

lemma same_books_steps:
  assumes "same_books s s1" "same_books s2 s'"
  shows "unpaid_step s1 s2 \<Longrightarrow> unpaid_step s s'" "paid_step i a s1 s2 \<Longrightarrow> paid_step i a s s'"
  using assms by (simp_all add: same_books_def unpaid_step_def paid_step_def confirmed_payments_def)

lemma scan_policy_books:
  assumes "ledger_reliable env" "scan_policy env p s = (e, s')"
  shows "unpaid_step s s' \<or> paid_step (sp_id p) (sp_coverageAmount p) s s'"
  using assms(2)
proof (cases rule: scan_policy_cases)
  case quiet
  then show ?thesis by (simp add: same_books_unpaid)
next
  case outer: (paying spec r d res auth s3)
  note b3 = same_gates_books [OF outer(2)]
  from outer(4) show ?thesis
  proof (cases rule: scan_triggered_cases)
    case quiet
    then show ?thesis using same_books_unpaid same_books_trans [OF b3] by blast
  next
    case (paying c x s2)
    have b: "same_books s (s3\<lparr>cs_control := c\<rparr>)" using b3 by (simp add: same_books_def)
    from processPayout_books [OF assms(1) paying(3)] outer(3) show ?thesis
      using same_books_steps [OF b paying(4)] by auto
  qed
qed

text \<open>Within one scan the policies are distinct and active, so each is paid at most once.\<close>

lemma claim_ok_unpaid: "claim_ok s \<Longrightarrow> unpaid_step s s' \<Longrightarrow> claim_ok s'"
  by (simp add: claim_ok_def unpaid_step_def books_ok_def)

lemma claim_ok_paid:
  assumes "claim_ok s" "paid_step i a s s'" "map_of (po_policies (cs_store s)) i = Some p" "sp_isActive p"
  shows "claim_ok s'"
proof -
  have "i \<notin> fst ` set (confirmed_payments s)" using assms by (fastforce simp: claim_ok_def)
  moreover have "\<exists>q. map_of (po_policies (cs_store s')) j = Some q \<and> \<not> sp_isActive q"
    if "j \<in> insert i (fst ` set (confirmed_payments s))" for j
    using that assms by (cases "j = i") (auto simp: claim_ok_def paid_step_def map_of_deactivate)
  ultimately show ?thesis
    using assms(1,2) deactivate_ok [of "cs_store s" i] by (auto simp: claim_ok_def paid_step_def books_ok_def)
qed

lemma tick_simps [simp]: "claim_ok (tick s) = claim_ok s" "cs_store (tick s) = cs_store s"
  by (simp_all add: tick_def claim_ok_def books_ok_def confirmed_payments_def)

lemma scan_policies_ok:
  assumes "ledger_reliable env" "claim_ok s" "distinct (map sp_id ps)"
    and "\<forall>p \<in> set ps. map_of (po_policies (cs_store s)) (sp_id p) = Some p \<and> sp_isActive p"
  shows "claim_ok (snd (scan_policies env ps out s))"
  using assms(2-)
proof (induction ps arbitrary: out s)
  case Nil
  then show ?case by (cases out) simp
next
  case (Cons p ps)
  obtain e s' where r: "scan_policy env p s = (e, s')" by (cases "scan_policy env p s")
  have p: "map_of (po_policies (cs_store s)) (sp_id p) = Some p" "sp_isActive p" using Cons.prems(3) by auto
  from scan_policy_books [OF assms(1) r]
  have "claim_ok s' \<and> (\<forall>q \<in> set ps. map_of (po_policies (cs_store s')) (sp_id q) = Some q)"
  proof
    assume "unpaid_step s s'"
    then show ?thesis using claim_ok_unpaid Cons.prems by (simp add: unpaid_step_def)
  next
    assume paid: "paid_step (sp_id p) (sp_coverageAmount p) s s'"
    then have st: "cs_store s' = deactivate (sp_id p) (cs_store s)" by (simp add: paid_step_def)
    have "map_of (po_policies (cs_store s')) (sp_id q) = Some q" if q: "q \<in> set ps" for q
    proof -
      have "sp_id q \<noteq> sp_id p" using Cons.prems(2) q by (metis distinct.simps(2) imageI list.set_map list.simps(9))
      then show ?thesis using Cons.prems(3) q by (simp add: st map_of_deactivate)
    qed
    then show ?thesis using claim_ok_paid [OF Cons.prems(1) paid p] by blast
  qed
  then have "claim_ok (snd (scan_policies env ps out' (tick s')))" for out'
    using Cons.IH [of "tick s'" out'] Cons.prems(2,3) by simp
  then show ?case using r by (cases out) simp
qed

lemma distinct_js_values: "store_keyed st \<Longrightarrow> distinct (map sp_id (js_values (po_policies st)))"
proof -
  assume k: "store_keyed st"
  then have "map sp_id (js_values (po_policies st)) = map fst (po_policies st)"
    by (auto simp: js_values_def store_keyed_def)
  with k show ?thesis by (simp add: store_keyed_def)
qed

lemma scan_ok:
  assumes "ledger_reliable env" "claim_ok s"
  shows "claim_ok (snd (processTriggeredWithStats env s))"
proof -
  have keyed: "store_keyed (cs_store s)" using assms(2) by (simp add: claim_ok_def store_ok_def)
  have "\<forall>p \<in> set (scan_list env s). map_of (po_policies (cs_store s)) (sp_id p) = Some p \<and> sp_isActive p"
    using listActive_iff [OF keyed] by (auto simp: scan_list_def)
  moreover have "distinct (map sp_id (scan_list env s))"
    using distinct_js_values [OF keyed] by (simp add: scan_list_def listActive_def distinct_map_filter)
  ultimately have "claim_ok (snd (scan_policies env (scan_list env s) out s))" for out
    using scan_policies_ok [OF assms] by blast
  then show ?thesis by (simp add: processTriggeredWithStats_def Let_def split_beta)
qed

text \<open>Between the scans the operators, the auditors and the buyers act on the other parts.\<close>

datatype claim_event =
    EScan
  | EControl "time_ms \<times> stores_up \<times> control_call"
  | EBreaker breaker_call
  | EHold hold_call
  | EPolicy policy_call

fun claim_step :: "claim_env \<Rightarrow> (scval \<Rightarrow> native result) \<Rightarrow> claim_event \<Rightarrow> claim_state \<Rightarrow> claim_state" where
  "claim_step env dec EScan s = snd (processTriggeredWithStats env s)"
| "claim_step env dec (EControl c) s = s\<lparr>cs_control := control_step c (cs_control s)\<rparr>"
| "claim_step env dec (EBreaker c) s = s\<lparr>cs_breakers := breaker_step c (cs_breakers s)\<rparr>"
| "claim_step env dec (EHold c) s =
     (case ce_hold env of None \<Rightarrow> s | Some he \<Rightarrow> s\<lparr>cs_ledger := hold_step he c (cs_ledger s)\<rparr>)"
| "claim_step env dec (EPolicy c) s = s\<lparr>cs_store := policy_step dec c (cs_store s)\<rparr>"

lemma claim_ok_policy:
  assumes "claim_ok s"
  shows "claim_ok (s\<lparr>cs_store := policy_step dec c (cs_store s)\<rparr>)"
proof -
  have st: "store_ok (cs_store s)" using assms by (simp add: claim_ok_def)
  have "\<exists>q. map_of (po_policies (policy_step dec c (cs_store s))) i = Some q \<and> \<not> sp_isActive q"
    if "i \<in> fst ` set (confirmed_payments s)" for i
  proof -
    from assms that obtain p where p: "map_of (po_policies (cs_store s)) i = Some p" "\<not> sp_isActive p" by (auto simp: claim_ok_def)
    from policy_step_row [OF st map_of_SomeD [OF p(1)], of dec c] obtain q where
      "(i, q) \<in> set (po_policies (policy_step dec c (cs_store s)))" "\<not> sp_isActive q"
      using p(2) by (auto simp: policy_becomes_def)
    then show ?thesis using policy_step_ok [OF st, of dec c] by (auto simp: store_ok_def map_of_keyed)
  qed
  then show ?thesis using assms policy_step_ok [OF st, of dec c]
    by (simp add: claim_ok_def books_ok_def confirmed_payments_def)
qed

lemma claim_step_ok [inv_intros]: "ledger_reliable env \<Longrightarrow> claim_ok s \<Longrightarrow> claim_ok (claim_step env dec ev s)"
proof (cases ev)
  case (EPolicy c)
  assume "claim_ok s"
  then show ?thesis using EPolicy claim_ok_policy by simp
qed (auto intro: scan_ok claim_ok_unpaid simp: unpaid_step_def confirmed_payments_def split: option.split)

definition fresh_claims :: "control_state \<Rightarrow> breaker_table \<Rightarrow> ledger \<Rightarrow> claim_state" where
  "fresh_claims ctl br lg = \<lparr>cs_store = \<lparr>po_policies = [], po_pendingBuys = []\<rparr>, cs_control = ctl, cs_anomaly = (\<lambda>_. []),
     cs_breakers = br, cs_ledger = lg, cs_triggers = Map.empty, cs_coverageTypes = [], cs_processedCount = 0, cs_payoutTotal = 0,
     cs_history = [], cs_deadLetter = [], cs_failureCounts = [], cs_deadLetterIds = [], cs_failedSettlements = [],
     cs_recorded = [], cs_adjudications = [], cs_submitted = [], cs_tick = 0\<rparr>"

lemma claim_run_ok: "ledger_reliable env \<Longrightarrow> claim_ok s \<Longrightarrow> claim_ok (fold (claim_step env dec) evs s)"
  by (induction evs arbitrary: s) (auto intro: claim_step_ok)


section \<open>A concrete service\<close>

definition depeg_decision :: consensus_decision where
  "depeg_decision = \<lparr>cd_id = ''StablecoinDepeg@1'', cd_coverageType = ''StablecoinDepeg'', cd_metric = Some ''usdc.usd.price'',
     cd_subject = None, cd_value = Some (9 / 10), cd_threshold = 95 / 100, cd_direction = Below, cd_triggered = True,
     cd_actionable = True, cd_status = StOk, cd_confidence = 1, cd_quorum = (2, 3, True), cd_inputs = [], cd_failures = [],
     cd_blockers = [], cd_decidedAt = 0, cd_evidenceSeq = Some 1\<rparr>"

definition depeg_env :: "hold_env option \<Rightarrow> (nat \<Rightarrow> string \<Rightarrow> feed_trust option) option \<Rightarrow> claim_env" where
  "depeg_env hold trust = \<lparr>ce_S = (\<lambda>_. []), ce_F = (\<lambda>_. []), ce_json = (\<lambda>_. []), ce_reason_text = (\<lambda>_. []), ce_rules = DEFAULT_ANOMALY_RULES,
     ce_overrides = \<lparr>to_hysteresis = None, to_minDwellMs = Some (Num 0), to_minConfirmations = Some (Num 1), to_flap = None\<rparr>,
     ce_hold = hold, ce_payloads = Map.empty, ce_trustGate = trust, ce_holdOnUntrusted = True, ce_listening = True,
     ce_repository = None, ce_reconciling = False,
     ce_settleConfig = \<lparr>sc_poolContractId = ''C'', sc_relayerSecret = ''S'', sc_relayerSecretId = []\<rparr>, ce_never = 10 ^ 12,
     ce_clock = (\<lambda>k. 2000000 + int k * 300000), ce_clockEval = (\<lambda>k. 2000000 + int k * 300000),
     ce_oracle = (\<lambda>_ _. Inr (usdc_reading (9 / 10))), ce_decide = (\<lambda>_ _ _. Inr depeg_decision),
     ce_up = (\<lambda>_. all_up), ce_breakerUp = (\<lambda>_. True), ce_network = (\<lambda>_ _. Confirmation True ''tx'' None)\<rparr>"

definition insured :: claim_state where
  "insured = fold (claim_step (depeg_env None None) sample_native) (map EPolicy sample_calls) (fresh_claims no_pauses Map.empty [])"


definition policy7 :: stored_policy where
  "policy7 = (new_policy sample_buy_env sample_dto)\<lparr>sp_id := ''7'', sp_isActive := True\<rparr>"

theorem payout_passes_every_gate_witness:
  "cs_submitted (snd (scan_policy (depeg_env None None) policy7 insured)) \<noteq> cs_submitted insured
   \<and> trigger_confirmed (depeg_env None None) policy7 (usdc_reading (9 / 10)) insured
   \<and> isSettlementAllowed (breaker_db (depeg_env None None) insured) ''0''"
proof -
  let ?env = "depeg_env None None"
  obtain e s' where r: "scan_policy ?env policy7 insured = (e, s')" by (cases "scan_policy ?env policy7 insured")
  have e: "length (cs_submitted (snd (scan_policy ?env policy7 insured))) = 1 \<and> length (cs_submitted insured) = 0
      \<and> big_to_string (sp_coverageType policy7) = ''0''"
    by code_simp
  then have n: "cs_submitted s' \<noteq> cs_submitted insured" using r by auto
  have "big_to_string (sp_coverageType policy7) = ''0''" using e by simp
  moreover have "ce_oracle ?env k c = Inr x \<Longrightarrow> x = usdc_reading (9 / 10)" for k c x by (simp add: depeg_env_def)
  ultimately show ?thesis using payout_passes_every_gate [OF r n] n r by auto
qed


section \<open>A payment that is not booked\<close>

definition refusing_ledger :: hold_env where
  "refusing_ledger = sample_env\<lparr>he_persist := (\<lambda>e. case ev_body e of HoldSettledE _ \<Rightarrow> False | _ \<Rightarrow> True)\<rparr>"

text \<open>The claim of policy 7 was held and an operator approved it.\<close>

definition approved_ledger :: ledger where
  "approved_ledger = fold (hold_step refusing_ledger) [DisposeC 10 ''h'' ApprovePayout ''op'' ''ok'' None]
     [sample_hold\<lparr>ev_body := HoldPlacedE
       \<lparr>hp_holdId = ''h'', hp_policyId = ''7'', hp_holder = ''G1'', hp_feedId = ''StablecoinDepeg'', hp_decisionId = ''d'', hp_gaps = [],
        hp_reason = ''r'', hp_deadline = 900, hp_policyExpiresAt = 800\<rparr>\<rparr>]"


end
