(* ===== verification/Reevaluation.thy ===== *)
theory Reevaluation
  imports Claim_Service
begin

text \<open>
  The re-adjudication of claims that were decided while a feed was not trusted
  (\<open>claim/reevaluation/reevaluation-planner.ts\<close>, \<open>reevaluation.service.ts\<close> and the executor of
  \<open>reevaluation.module.ts\<close>): the ledger of such decisions, the history of trusted readings, the
  planner that replays them through a fresh trigger evaluator, and the runs an operator
  applies. The collation of \<open>localeCompare\<close>, the printing of dates and the digest that names a
  run are arguments. The executor pays through the model of the claim service.
\<close>

section \<open>The ledger of decisions\<close>

record adjudication_ledger =
  al_records :: "(string, adjudication_record) jmap"
  al_latestByPolicy :: "(string, string) jmap"
  al_paidPolicies :: "string list"

definition markPaid :: "string \<Rightarrow> adjudication_ledger \<Rightarrow> adjudication_ledger" where
  "markPaid policyId l = l\<lparr>al_paidPolicies := List.insert policyId (al_paidPolicies l)\<rparr>"

definition isPaid :: "string \<Rightarrow> adjudication_ledger \<Rightarrow> bool" where
  "isPaid policyId l \<longleftrightarrow> policyId \<in> set (al_paidPolicies l)"

text \<open>The identifier of a run is not empty, so a record was taken by a run when it names one.\<close>

definition record_decision :: "adjudication_record \<Rightarrow> adjudication_ledger \<Rightarrow> bool \<times> adjudication_ledger" where
  "record_decision rc l0 =
     (let l = (if ad_outcome rc = SettledOut then markPaid (ad_policyId rc) l0 else l0);
          prev = Option.bind (map_of (al_latestByPolicy l) (ad_policyId rc)) (map_of (al_records l));
          collapses = (case prev of
             None \<Rightarrow> False
           | Some q \<Rightarrow> ad_reevaluatedBy q = None \<and> ad_outcome q = ad_outcome rc \<and> ad_feedId q = ad_feedId rc
               \<and> ad_trustState q = ad_trustState rc \<and> ad_outcome rc \<noteq> SettledOut)
      in if collapses then (False, l)
         else if js_has (ad_id rc) (al_records l) then (False, l)
         else (True, l\<lparr>al_records := js_set (ad_id rc) rc (al_records l),
                       al_latestByPolicy := js_set (ad_policyId rc) (ad_id rc) (al_latestByPolicy l)\<rparr>))"

definition pending :: "string \<Rightarrow> adjudication_ledger \<Rightarrow> adjudication_record list" where
  "pending feedId l = filter (\<lambda>r. ad_feedId r = feedId \<and> ad_reevaluatedBy r = None) (js_values (al_records l))"

definition mark_one :: "string \<Rightarrow> string \<Rightarrow> adjudication_ledger \<Rightarrow> adjudication_ledger" where
  "mark_one runId i l =
     (case map_of (al_records l) i of
        None \<Rightarrow> l
      | Some r \<Rightarrow> if ad_reevaluatedBy r = None then l\<lparr>al_records := js_set i (r\<lparr>ad_reevaluatedBy := Some runId\<rparr>) (al_records l)\<rparr> else l)"

definition markReevaluated :: "string list \<Rightarrow> string \<Rightarrow> adjudication_ledger \<Rightarrow> adjudication_ledger" where
  "markReevaluated ids runId l = fold (mark_one runId) ids l"

section \<open>Trusted readings\<close>

datatype reading_provenance = Quorum | OperatorBackfill

fun provenance_text :: "reading_provenance \<Rightarrow> string" where
  "provenance_text Quorum = ''quorum''"
| "provenance_text OperatorBackfill = ''operator_backfill''"

record trusted_reading =
  tr_observedAt :: time_ms
  tr_value :: js_number
  tr_provenance :: reading_provenance

type_synonym reading_history = "string \<Rightarrow> trusted_reading list"

definition RETENTION_MS :: int where
  "RETENTION_MS = 14 * 24 * 60 * 60000"

definition add_reading :: "int \<Rightarrow> string \<Rightarrow> trusted_reading \<Rightarrow> reading_history \<Rightarrow> reading_history" where
  "add_reading retentionMs feedId reading h =
     (if list_ex (\<lambda>r. tr_observedAt r = tr_observedAt reading \<and> tr_provenance r = tr_provenance reading) (h feedId) then h
      else h(feedId := js_sort (\<lambda>a b. tr_observedAt a \<le> tr_observedAt b)
              (filter (\<lambda>r. tr_observedAt r \<ge> tr_observedAt reading - retentionMs) (h feedId @ [reading]))))"

record quorum_verdict =
  qv_feedId :: string
  qv_trust :: feed_trust
  qv_value :: "js_number option"
  qv_evaluatedAt :: time_ms

definition recordVerdict :: "int \<Rightarrow> quorum_verdict \<Rightarrow> reading_history \<Rightarrow> reading_history" where
  "recordVerdict retentionMs v h =
     (case qv_value v of
        Some x \<Rightarrow> if qv_trust v \<noteq> Trusted then h
                  else add_reading retentionMs (qv_feedId v) \<lparr>tr_observedAt = qv_evaluatedAt v, tr_value = x, tr_provenance = Quorum\<rparr> h
      | None \<Rightarrow> h)"

definition between :: "string \<Rightarrow> time_ms \<Rightarrow> time_ms \<Rightarrow> reading_history \<Rightarrow> trusted_reading list" where
  "between feedId from to h = filter (\<lambda>r. tr_observedAt r \<ge> from \<and> tr_observedAt r \<le> to) (h feedId)"

section \<open>The planner\<close>

datatype corrected_outcome = CorTriggered | CorNotTriggered | CorInsufficient

datatype reevaluation_action = ActSettle | ActRelease | ActFlagOverpayment | ActNoChange | ActSuperseded | ActManualReview

record item_evidence =
  ie_windowStart :: time_ms
  ie_windowEnd :: time_ms
  ie_readingsUsed :: nat
  ie_provenance :: "reading_provenance list"
  ie_decisionReading :: js_number
  ie_threshold :: js_number
  ie_triggerConfirmedAt :: "time_ms option"
  ie_reason :: string

record reevaluation_item =
  it_recordId :: string
  it_policyId :: string
  it_holder :: string
  it_coverageType :: int
  it_before :: adjudication_outcome
  it_trustState :: feed_trust
  it_after :: corrected_outcome
  it_action :: reevaluation_action
  it_changed :: bool
  it_payoutDelta :: int
  it_evidence :: item_evidence

definition decideAction :: "adjudication_record \<Rightarrow> corrected_outcome \<Rightarrow> string list \<Rightarrow> reevaluation_action \<times> int" where
  "decideAction rc after paid =
     (if after = CorInsufficient then (ActManualReview, 0)
      else if ad_outcome rc = SettledOut
      then (if after = CorTriggered then (ActNoChange, 0) else (ActFlagOverpayment, 0 - ad_paid rc))
      else if after = CorTriggered
      then (if ad_policyId rc \<in> set paid then (ActSuperseded, 0) else (ActSettle, ad_coverageAmount rc))
      else if ad_outcome rc = Held then (ActRelease, 0) else (ActNoChange, 0))"

text \<open>The replay: a fresh evaluator, and the first confirmation it reports.\<close>

fun replay :: "trigger_config \<Rightarrow> adjudication_record \<Rightarrow> trusted_reading list \<Rightarrow> time_ms option \<Rightarrow> trigger_states \<Rightarrow> time_ms option result" where
  "replay config rc [] confirmed states = Inr confirmed"
| "replay config rc (r # rs) confirmed states =
     then_result (Trigger_Stability.evaluate (\<lambda>_. config) (ad_id rc)
         \<lparr>ob_value = tr_value r, ob_threshold = ad_threshold rc, ob_direction = ad_direction rc, ob_observedAt = tr_observedAt r\<rparr> states)
       (\<lambda>(d, states', ev). replay config rc rs (if td_triggered d \<and> confirmed = None then td_confirmedAt d else confirmed) states')"

record plan_input =
  pi_feedId :: string
  pi_degradedSince :: time_ms
  pi_restoredAt :: time_ms
  pi_records :: "adjudication_record list"
  pi_readings :: "trusted_reading list"
  pi_configFor :: "int \<Rightarrow> trigger_config"
  pi_alreadyPaid :: "string list"
  pi_lookbackMs :: int
  pi_confirmWindowMs :: int

record plan_env =
  pe_lc :: "string \<Rightarrow> string \<Rightarrow> bool"
  pe_iso :: "time_ms \<Rightarrow> string"
  pe_digest :: "string \<Rightarrow> time_ms \<Rightarrow> time_ms \<Rightarrow> string list \<Rightarrow> (time_ms \<times> js_number \<times> string) list \<Rightarrow> string"

definition record_le :: "plan_env \<Rightarrow> adjudication_record \<Rightarrow> adjudication_record \<Rightarrow> bool" where
  "record_le pe a b \<longleftrightarrow> ad_decidedAt a < ad_decidedAt b \<or> ad_decidedAt a = ad_decidedAt b \<and> pe_lc pe (ad_id a) (ad_id b)"

definition reading_le :: "plan_env \<Rightarrow> trusted_reading \<Rightarrow> trusted_reading \<Rightarrow> bool" where
  "reading_le pe a b \<longleftrightarrow> tr_observedAt a < tr_observedAt b \<or> tr_observedAt a = tr_observedAt b
     \<and> (num_of (tr_value a) < num_of (tr_value b) \<or> num_of (tr_value a) = num_of (tr_value b)
        \<and> pe_lc pe (provenance_text (tr_provenance a)) (provenance_text (tr_provenance b)))"

definition sorted_readings :: "plan_env \<Rightarrow> trusted_reading list \<Rightarrow> trusted_reading list" where
  "sorted_readings pe rs = js_sort (reading_le pe) (filter (\<lambda>r. isFinite (tr_value r)) rs)"

definition evidence_window :: "plan_input \<Rightarrow> adjudication_record \<Rightarrow> time_ms \<times> time_ms" where
  "evidence_window inp rc = (ad_decidedAt rc - pi_lookbackMs inp, min (pi_restoredAt inp + pi_confirmWindowMs inp) (ad_expiresAt rc))"

text \<open>The distinct provenances in the default order of \<open>sort\<close>.\<close>

definition provenances :: "trusted_reading list \<Rightarrow> reading_provenance list" where
  "provenances rs = filter (\<lambda>v. v \<in> tr_provenance ` set rs) [OperatorBackfill, Quorum]"

definition plan_item :: "plan_env \<Rightarrow> plan_input \<Rightarrow> trusted_reading list \<Rightarrow> string list \<Rightarrow> adjudication_record \<Rightarrow> reevaluation_item result" where
  "plan_item pe inp readings paid rc =
     (case evidence_window inp rc of (windowStart, windowEnd) \<Rightarrow>
      let window = filter (\<lambda>r. tr_observedAt r \<ge> windowStart \<and> tr_observedAt r \<le> windowEnd) readings in
      then_result (if window = [] then Inr None
                   else replay (pi_configFor inp (ad_coverageType rc)) rc window None Map.empty) (\<lambda>confirmedAt.
      let after = (if window = [] then CorInsufficient else if confirmedAt \<noteq> None then CorTriggered else CorNotTriggered);
          reason = (if window = [] then ''no trusted readings in evidence window''
                    else case confirmedAt of
                           Some t \<Rightarrow> ''trigger confirmed on trusted data at '' @ pe_iso pe t
                         | None \<Rightarrow> ''trigger never confirmed across '' @ big_to_string (int (length window)) @ '' trusted reading(s)'')
      in (case decideAction rc after paid of (action, delta) \<Rightarrow>
          Inr \<lparr>it_recordId = ad_id rc, it_policyId = ad_policyId rc, it_holder = ad_holder rc, it_coverageType = ad_coverageType rc,
               it_before = ad_outcome rc, it_trustState = ad_trustState rc, it_after = after, it_action = action,
               it_changed = (action \<noteq> ActNoChange), it_payoutDelta = delta,
               it_evidence = \<lparr>ie_windowStart = windowStart, ie_windowEnd = windowEnd, ie_readingsUsed = length window,
                 ie_provenance = provenances window, ie_decisionReading = ad_readingValue rc, ie_threshold = ad_threshold rc,
                 ie_triggerConfirmedAt = confirmedAt, ie_reason = reason\<rparr>\<rparr>)))"

fun plan_items :: "plan_env \<Rightarrow> plan_input \<Rightarrow> trusted_reading list \<Rightarrow> string list \<Rightarrow> adjudication_record list \<Rightarrow> reevaluation_item list result" where
  "plan_items pe inp readings paid [] = Inr []"
| "plan_items pe inp readings paid (rc # rcs) =
     then_result (plan_item pe inp readings paid rc) (\<lambda>it.
     then_result (plan_items pe inp readings (if it_action it = ActSettle then List.insert (ad_policyId rc) paid else paid) rcs)
       (\<lambda>its. Inr (it # its)))"

record reevaluation_summary =
  rs_affected :: nat
  rs_changed :: nat
  rs_byAction :: "reevaluation_action \<Rightarrow> nat"
  rs_netPayoutDelta :: int

record reevaluation_plan =
  pl_runId :: string
  pl_feedId :: string
  pl_degradedSince :: time_ms
  pl_restoredAt :: time_ms
  pl_items :: "reevaluation_item list"
  pl_summary :: reevaluation_summary

definition summarize :: "reevaluation_item list \<Rightarrow> reevaluation_summary" where
  "summarize items = \<lparr>rs_affected = length items, rs_changed = length (filter it_changed items),
     rs_byAction = (\<lambda>a. length (filter (\<lambda>i. it_action i = a) items)), rs_netPayoutDelta = sum_list (map it_payoutDelta items)\<rparr>"

definition planReevaluation :: "plan_env \<Rightarrow> plan_input \<Rightarrow> reevaluation_plan result" where
  "planReevaluation pe inp =
     (let records = js_sort (record_le pe) (pi_records inp);
          readings = sorted_readings pe (pi_readings inp);
          paid = fold (\<lambda>r p. if ad_outcome r = SettledOut then List.insert (ad_policyId r) p else p) records (pi_alreadyPaid inp)
      in then_result (plan_items pe inp readings paid records) (\<lambda>items.
         Inr \<lparr>pl_runId = ''reeval_'' @ take 24 (pe_digest pe (pi_feedId inp) (pi_degradedSince inp) (pi_restoredAt inp)
                 (map ad_id records) (map (\<lambda>r. (tr_observedAt r, tr_value r, provenance_text (tr_provenance r))) readings)),
              pl_feedId = pi_feedId inp, pl_degradedSince = pi_degradedSince inp, pl_restoredAt = pi_restoredAt inp,
              pl_items = items, pl_summary = summarize items\<rparr>))"

section \<open>Runs\<close>

datatype item_status = StatPending | StatDone | StatFailed | StatFlagged | StatReversalApproved

record item_state =
  is_status :: item_status
  is_txHash :: "string option"
  is_error :: "string option"

datatype run_status = RunPlanned | RunApplying | RunApplied | RunPartiallyApplied

datatype run_event = EvPlanned | EvApplyStarted | EvItemSettled | EvItemFailed | EvItemSkipped | EvReversalApproved

record run_audit =
  ra_at :: time_ms
  ra_actor :: string
  ra_event :: run_event
  ra_recordId :: "string option"
  ra_detail :: "string option"

record reevaluation_run =
  rn_plan :: reevaluation_plan
  rn_status :: run_status
  rn_createdAt :: time_ms
  rn_appliedAt :: "time_ms option"
  rn_appliedBy :: "string option"
  rn_itemStatus :: "(string, item_state) jmap"
  rn_audit :: "run_audit list"

record reevaluation_config =
  rc_lookbackMs :: int
  rc_confirmWindowMs :: int
  rc_triggerConfigFor :: "int \<Rightarrow> trigger_config"

definition DEFAULT_APPLY_BATCH :: int where
  "DEFAULT_APPLY_BATCH = 50"

definition no_overrides :: trigger_overrides where
  "no_overrides = \<lparr>to_hysteresis = None, to_minDwellMs = None, to_minConfirmations = None, to_flap = None\<rparr>"

definition DEFAULT_REEVALUATION_CONFIG :: reevaluation_config where
  "DEFAULT_REEVALUATION_CONFIG = \<lparr>rc_lookbackMs = 15 * 60000, rc_confirmWindowMs = 30 * 60000,
     rc_triggerConfigFor = (\<lambda>c. defaultTriggerConfig c no_overrides)\<rparr>"

record reevaluation_service =
  re_ledger :: adjudication_ledger
  re_history :: reading_history
  re_degradedSince :: "(string, time_ms) jmap"
  re_runs :: "(string, reevaluation_run) jmap"

definition onVerdict :: "int \<Rightarrow> quorum_verdict \<Rightarrow> reevaluation_service \<Rightarrow> reevaluation_service" where
  "onVerdict retentionMs v s = s\<lparr>re_history := recordVerdict retentionMs v (re_history s)\<rparr>"

definition min_of :: "time_ms list \<Rightarrow> time_ms" where
  "min_of ts = fold min (tl ts) (hd ts)"

definition buildRun ::
  "plan_env \<Rightarrow> reevaluation_config \<Rightarrow> string \<Rightarrow> time_ms \<Rightarrow> time_ms \<Rightarrow> (time_ms \<times> js_number) list \<Rightarrow> time_ms option
     \<Rightarrow> reevaluation_service \<Rightarrow> reevaluation_run option result \<times> reevaluation_service" where
  "buildRun pe config feedId restoredAt now backfill trackedSince s =
     (let records = pending feedId (re_ledger s) in
      if records = [] then (Inr None, s)
      else let earliest = min_of (map ad_decidedAt records);
               degradedSince = min (case trackedSince of None \<Rightarrow> earliest | Some t \<Rightarrow> t) earliest;
               readings = between feedId (degradedSince - rc_lookbackMs config) (restoredAt + rc_confirmWindowMs config) (re_history s)
                 @ map (\<lambda>(t, x). \<lparr>tr_observedAt = t, tr_value = x, tr_provenance = OperatorBackfill\<rparr>) backfill
           in case planReevaluation pe \<lparr>pi_feedId = feedId, pi_degradedSince = degradedSince, pi_restoredAt = restoredAt,
                     pi_records = records, pi_readings = readings, pi_configFor = rc_triggerConfigFor config,
                     pi_alreadyPaid = al_paidPolicies (re_ledger s), pi_lookbackMs = rc_lookbackMs config,
                     pi_confirmWindowMs = rc_confirmWindowMs config\<rparr> of
                Inl e \<Rightarrow> (Inl e, s)
              | Inr plan \<Rightarrow>
                  (case map_of (re_runs s) (pl_runId plan) of
                     Some existing \<Rightarrow> (Inr (Some existing), s)
                   | None \<Rightarrow>
                       let run = \<lparr>rn_plan = plan, rn_status = RunPlanned, rn_createdAt = now, rn_appliedAt = None, rn_appliedBy = None,
                             rn_itemStatus = fold (\<lambda>i m. js_set (it_recordId i) \<lparr>is_status = StatPending, is_txHash = None, is_error = None\<rparr> m)
                               (pl_items plan) [],
                             rn_audit = [\<lparr>ra_at = now, ra_actor = ''system'', ra_event = EvPlanned, ra_recordId = None,
                               ra_detail = Some (big_to_string (int (rs_affected (pl_summary plan))) @ '' affected, ''
                                 @ big_to_string (int (rs_changed (pl_summary plan))) @ '' changed'')\<rparr>]\<rparr>
                       in (Inr (Some run),
                           s\<lparr>re_runs := js_set (pl_runId plan) run (re_runs s),
                             re_ledger := markReevaluated (map ad_id records) (pl_runId plan) (re_ledger s)\<rparr>)))"

record trust_transition =
  tt_feedId :: string
  tt_to :: feed_trust
  tt_at :: time_ms

definition onTrustTransition ::
  "plan_env \<Rightarrow> reevaluation_config \<Rightarrow> trust_transition \<Rightarrow> reevaluation_service \<Rightarrow> reevaluation_run option result \<times> reevaluation_service" where
  "onTrustTransition pe config t s =
     (if tt_to t \<noteq> Trusted
      then (Inr None, if js_has (tt_feedId t) (re_degradedSince s) then s
                      else s\<lparr>re_degradedSince := js_set (tt_feedId t) (tt_at t) (re_degradedSince s)\<rparr>)
      else let since = map_of (re_degradedSince s) (tt_feedId t);
               s' = s\<lparr>re_degradedSince := js_delete (tt_feedId t) (re_degradedSince s)\<rparr>
           in if since = None \<and> pending (tt_feedId t) (re_ledger s') = [] then (Inr None, s')
              else buildRun pe config (tt_feedId t) (tt_at t) (tt_at t) [] since s')"

definition plan_run ::
  "plan_env \<Rightarrow> reevaluation_config \<Rightarrow> string \<Rightarrow> time_ms \<Rightarrow> time_ms \<Rightarrow> (time_ms \<times> js_number) list
     \<Rightarrow> reevaluation_service \<Rightarrow> reevaluation_run option result \<times> reevaluation_service" where
  "plan_run pe config feedId restoredAt now backfill s =
     (if js_has feedId (re_degradedSince s)
      then (Inl (Err (''Feed '' @ feedId @ '' is still untrusted; re-evaluation waits for trust to be restored'')), s)
      else buildRun pe config feedId restoredAt now backfill None s)"

definition run_le :: "plan_env \<Rightarrow> reevaluation_run \<Rightarrow> reevaluation_run \<Rightarrow> bool" where
  "run_le pe a b \<longleftrightarrow> rn_createdAt b < rn_createdAt a \<or> rn_createdAt a = rn_createdAt b \<and> pe_lc pe (pl_runId (rn_plan a)) (pl_runId (rn_plan b))"

definition listRuns :: "plan_env \<Rightarrow> reevaluation_service \<Rightarrow> reevaluation_run list" where
  "listRuns pe s = js_sort (run_le pe) (js_values (re_runs s))"

definition getRun :: "string \<Rightarrow> reevaluation_service \<Rightarrow> reevaluation_run option" where
  "getRun runId s = map_of (re_runs s) runId"

section \<open>Applying a run\<close>

text \<open>The executor: \<open>settleFromReevaluation\<close> with the four fields of the item.\<close>

definition executor_settle ::
  "claim_env \<Rightarrow> reevaluation_item \<Rightarrow> string \<Rightarrow> claim_state \<Rightarrow> (bool \<times> string option \<times> string option) result \<times> claim_state" where
  "executor_settle env it runId cs =
     settleFromReevaluation env (it_policyId it) (it_holder it) (it_coverageType it) (it_payoutDelta it) runId cs"

definition applyItem ::
  "claim_env \<Rightarrow> reevaluation_item \<Rightarrow> string \<Rightarrow> item_state \<Rightarrow> adjudication_ledger \<Rightarrow> claim_state \<Rightarrow> item_state \<times> adjudication_ledger \<times> claim_state" where
  "applyItem env it runId st l cs =
     (if it_action it = ActFlagOverpayment \<or> it_action it = ActManualReview then (st\<lparr>is_status := StatFlagged\<rparr>, l, cs)
      else if it_action it \<noteq> ActSettle then (st\<lparr>is_status := StatDone\<rparr>, l, cs)
      else if isPaid (it_policyId it) l
      then (st\<lparr>is_status := StatDone, is_error := Some ''policy already paid; skipped to avoid a double payout''\<rparr>, l, cs)
      else case executor_settle env it runId cs of
             (Inl e, cs') \<Rightarrow> (st\<lparr>is_status := StatFailed, is_error := Some (error_message e)\<rparr>, l, cs')
           | (Inr (settled, txHash, err), cs') \<Rightarrow>
               if \<not> settled
               then (st\<lparr>is_status := StatFailed, is_error := Some (case err of None \<Rightarrow> ''settlement did not confirm'' | Some e \<Rightarrow> e)\<rparr>, l, cs')
               else (st\<lparr>is_status := StatDone, is_txHash := txHash, is_error := None\<rparr>, markPaid (it_policyId it) l, cs'))"

definition item_audit :: "reevaluation_item \<Rightarrow> item_state \<Rightarrow> string \<Rightarrow> time_ms \<Rightarrow> run_audit list" where
  "item_audit it st actor now =
     (if it_action it = ActSettle
      then [\<lparr>ra_at = now, ra_actor = actor,
             ra_event = (if is_status st = StatFailed then EvItemFailed else if is_error st \<noteq> None then EvItemSkipped else EvItemSettled),
             ra_recordId = Some (it_recordId it),
             ra_detail = (case is_txHash st of Some h \<Rightarrow> Some h | None \<Rightarrow> is_error st)\<rparr>]
      else [])"

text \<open>The loop stops when the budget is used up. Every item of a run has a status, so the first
  branch is not reached.\<close>

fun apply_items ::
  "claim_env \<Rightarrow> string \<Rightarrow> string \<Rightarrow> time_ms \<Rightarrow> nat \<Rightarrow> reevaluation_item list \<Rightarrow> reevaluation_run \<Rightarrow> adjudication_ledger \<Rightarrow> claim_state
     \<Rightarrow> reevaluation_run \<times> adjudication_ledger \<times> claim_state" where
  "apply_items env runId actor now budget [] run l cs = (run, l, cs)"
| "apply_items env runId actor now budget (it # its) run l cs =
     (case map_of (rn_itemStatus run) (it_recordId it) of
        None \<Rightarrow> (run, l, cs)
      | Some st \<Rightarrow>
          if is_status st \<noteq> StatPending \<and> is_status st \<noteq> StatFailed then apply_items env runId actor now budget its run l cs
          else if budget = 0 then (run, l, cs)
          else case applyItem env it runId st l cs of
                 (st', l', cs') \<Rightarrow>
                   apply_items env runId actor now (budget - 1) its
                     (run\<lparr>rn_itemStatus := js_set (it_recordId it) st' (rn_itemStatus run),
                          rn_audit := rn_audit run @ item_audit it st' actor now\<rparr>) l' cs')"

definition start_run :: "string \<Rightarrow> time_ms \<Rightarrow> js_number \<Rightarrow> reevaluation_run \<Rightarrow> reevaluation_run" where
  "start_run actor now maxItems run = run\<lparr>rn_status := RunApplying, rn_audit := rn_audit run @ [\<lparr>ra_at = now, ra_actor = actor,
     ra_event = EvApplyStarted, ra_recordId = None, ra_detail = Some (''batch '' @ big_to_string \<lfloor>num_of maxItems\<rfloor>)\<rparr>]\<rparr>"

definition finish_run :: "string \<Rightarrow> time_ms \<Rightarrow> reevaluation_run \<Rightarrow> reevaluation_run" where
  "finish_run actor now run = run\<lparr>
     rn_status := (if list_ex (\<lambda>st. is_status st = StatFailed \<or> is_status st = StatPending) (js_values (rn_itemStatus run))
                   then RunPartiallyApplied else RunApplied),
     rn_appliedAt := Some now, rn_appliedBy := Some actor\<rparr>"

definition apply_run ::
  "claim_env \<Rightarrow> string \<Rightarrow> string \<Rightarrow> time_ms \<Rightarrow> js_number \<Rightarrow> reevaluation_service \<Rightarrow> claim_state
     \<Rightarrow> reevaluation_run result \<times> reevaluation_service \<times> claim_state" where
  "apply_run env runId actor now maxItems s cs =
     (case map_of (re_runs s) runId of
        None \<Rightarrow> (Inl (Err (''Unknown re-evaluation run '' @ runId)), s, cs)
      | Some run \<Rightarrow>
          if rn_status run = RunApplying then (Inl (Err (''Re-evaluation run '' @ runId @ '' is already being applied'')), s, cs)
          else if \<not> isInteger maxItems \<or> js_less maxItems (Num 1) then (Inl (Err ''maxItems must be a positive integer''), s, cs)
          else case apply_items env runId actor now (nat \<lfloor>num_of maxItems\<rfloor>) (pl_items (rn_plan run))
                      (start_run actor now maxItems run) (re_ledger s) cs of
                 (run', l, cs') \<Rightarrow>
                   (Inr (finish_run actor now run'),
                    s\<lparr>re_runs := js_set runId (finish_run actor now run') (re_runs s), re_ledger := l\<rparr>, cs'))"

definition approveReversal ::
  "string \<Rightarrow> string \<Rightarrow> string \<Rightarrow> string \<Rightarrow> time_ms \<Rightarrow> reevaluation_service \<Rightarrow> reevaluation_run result \<times> reevaluation_service" where
  "approveReversal runId recordId actor nt now s =
     (case map_of (re_runs s) runId of
        None \<Rightarrow> (Inl (Err (''Unknown re-evaluation run '' @ runId)), s)
      | Some run \<Rightarrow>
          (case List.find (\<lambda>i. it_recordId i = recordId) (pl_items (rn_plan run)) of
             None \<Rightarrow> (Inl (Err (''Record '' @ recordId @ '' is not a flagged overpayment in '' @ runId)), s)
           | Some it \<Rightarrow>
               if it_action it \<noteq> ActFlagOverpayment
               then (Inl (Err (''Record '' @ recordId @ '' is not a flagged overpayment in '' @ runId)), s)
               else case map_of (rn_itemStatus run) recordId of
                      None \<Rightarrow> (Inl (Err ''Cannot read properties of undefined''), s)
                    | Some st \<Rightarrow>
                        if is_status st = StatReversalApproved then (Inr run, s)
                        else let run' = run\<lparr>rn_itemStatus := js_set recordId (st\<lparr>is_status := StatReversalApproved\<rparr>) (rn_itemStatus run),
                                   rn_audit := rn_audit run @ [\<lparr>ra_at = now, ra_actor = actor, ra_event = EvReversalApproved,
                                     ra_recordId = Some recordId, ra_detail = Some nt\<rparr>]\<rparr>
                             in (Inr run', s\<lparr>re_runs := js_set runId run' (re_runs s)\<rparr>)))"

section \<open>The plan\<close>

text \<open>What an item that pays must satisfy.\<close>

definition pays_on_evidence :: "plan_input \<Rightarrow> trusted_reading list \<Rightarrow> reevaluation_item \<Rightarrow> adjudication_record \<Rightarrow> bool" where
  "pays_on_evidence inp readings it rc \<longleftrightarrow> it_policyId it = ad_policyId rc \<and> it_recordId it = ad_id rc
     \<and> ad_outcome rc \<noteq> SettledOut \<and> it_payoutDelta it = ad_coverageAmount rc
     \<and> (\<exists>t. replay (pi_configFor inp (ad_coverageType rc)) rc
          (filter (\<lambda>r. ad_decidedAt rc - pi_lookbackMs inp \<le> tr_observedAt r
             \<and> tr_observedAt r \<le> min (pi_restoredAt inp + pi_confirmWindowMs inp) (ad_expiresAt rc)) readings) None Map.empty = Inr (Some t))"

lemma decideAction_settle:
  "decideAction rc after paid = (ActSettle, delta) \<Longrightarrow>
     after = CorTriggered \<and> ad_outcome rc \<noteq> SettledOut \<and> ad_policyId rc \<notin> set paid \<and> delta = ad_coverageAmount rc"
  by (simp add: decideAction_def split: if_splits)

lemma plan_item_settle:
  assumes "plan_item pe inp readings paid rc = Inr it"
  shows "it_policyId it = ad_policyId rc" "it_recordId it = ad_id rc"
    and "it_action it = ActSettle \<Longrightarrow> pays_on_evidence inp readings it rc \<and> ad_policyId rc \<notin> set paid"
proof -
  define window where "window = filter (\<lambda>r. ad_decidedAt rc - pi_lookbackMs inp \<le> tr_observedAt r
     \<and> tr_observedAt r \<le> min (pi_restoredAt inp + pi_confirmWindowMs inp) (ad_expiresAt rc)) readings"
  define after where "after = (\<lambda>c. if window = [] then CorInsufficient else if c \<noteq> (None :: time_ms option) then CorTriggered else CorNotTriggered)"
  from assms obtain c where
    c: "(if window = [] then Inr None else replay (pi_configFor inp (ad_coverageType rc)) rc window None Map.empty) = Inr c"
    and it: "it_policyId it = ad_policyId rc" "it_recordId it = ad_id rc" "(it_action it, it_payoutDelta it) = decideAction rc (after c) paid"
    unfolding plan_item_def evidence_window_def Let_def prod.case window_def [symmetric] after_def
    by (elim then_result_InrE) (auto simp only: split_beta prod.collapse sum.inject reevaluation_item.simps)
  show "it_policyId it = ad_policyId rc" "it_recordId it = ad_id rc" by (fact it)+
  assume "it_action it = ActSettle"
  with it(3) have d: "after c = CorTriggered \<and> ad_outcome rc \<noteq> SettledOut \<and> ad_policyId rc \<notin> set paid \<and> it_payoutDelta it = ad_coverageAmount rc"
    using decideAction_settle [of rc "after c" paid "it_payoutDelta it"] by simp
  then have "window \<noteq> []" "c \<noteq> None" by (auto simp: after_def split: if_splits)
  then have "\<exists>t. replay (pi_configFor inp (ad_coverageType rc)) rc window None Map.empty = Inr (Some t)" using c by auto
  then show "pays_on_evidence inp readings it rc \<and> ad_policyId rc \<notin> set paid"
    using d it(1,2) by (simp add: pays_on_evidence_def window_def)
qed

definition settle_items :: "reevaluation_item list \<Rightarrow> reevaluation_item list" where
  "settle_items items = filter (\<lambda>i. it_action i = ActSettle) items"

lemma plan_items_settle:
  assumes "plan_items pe inp readings paid rcs = Inr items"
  shows "distinct (map it_policyId (settle_items items)) \<and> it_policyId ` set (settle_items items) \<inter> set paid = {}
    \<and> (\<forall>it \<in> set (settle_items items). \<exists>rc \<in> set rcs. pays_on_evidence inp readings it rc) \<and> map it_recordId items = map ad_id rcs"
  using assms
proof (induction rcs arbitrary: paid items)
  case (Cons rc rcs)
  from Cons.prems obtain it its where it: "plan_item pe inp readings paid rc = Inr it" and items: "items = it # its"
    and its: "plan_items pe inp readings (if it_action it = ActSettle then List.insert (ad_policyId rc) paid else paid) rcs = Inr its"
    by (auto elim!: then_result_InrE)
  note ih = Cons.IH [OF its] and one = plan_item_settle [OF it]
  show ?case
  proof (cases "it_action it = ActSettle")
    case True
    then show ?thesis using ih one items by (auto simp: settle_items_def)
  next
    case False
    then show ?thesis using ih one items by (auto simp: settle_items_def)
  qed
qed (simp add: settle_items_def)

lemma set_paid_fold:
  "set (fold (\<lambda>r p. if ad_outcome r = SettledOut then List.insert (ad_policyId r) p else p) rcs p0)
     = set p0 \<union> ad_policyId ` {r \<in> set rcs. ad_outcome r = SettledOut}"
  by (induction rcs arbitrary: p0) auto

text \<open>C17. A plan pays a policy at most once and only on trusted evidence. Every item that
  settles belongs to a record that was held or skipped, pays its full coverage amount, and the
  replay of the trusted readings in the record's evidence window confirmed the trigger; no policy
  has two such items, none that was paid before, and none with a settled record in the same run.
  There is one item per record, in the order of the decisions.\<close>

theorem plan_settles_on_evidence:
  assumes "planReevaluation pe inp = Inr plan"
  shows "distinct (map it_policyId (settle_items (pl_items plan)))
    \<and> (\<forall>it \<in> set (settle_items (pl_items plan)). it_policyId it \<notin> set (pi_alreadyPaid inp)
         \<and> \<not> (\<exists>r \<in> set (pi_records inp). ad_outcome r = SettledOut \<and> ad_policyId r = it_policyId it)
         \<and> (\<exists>rc \<in> set (pi_records inp). pays_on_evidence inp (sorted_readings pe (pi_readings inp)) it rc))
    \<and> map it_recordId (pl_items plan) = map ad_id (js_sort (record_le pe) (pi_records inp))"
proof -
  let ?records = "js_sort (record_le pe) (pi_records inp)"
  let ?paid = "fold (\<lambda>r p. if ad_outcome r = SettledOut then List.insert (ad_policyId r) p else p) ?records (pi_alreadyPaid inp)"
  have "plan_items pe inp (sorted_readings pe (pi_readings inp)) ?paid ?records = Inr (pl_items plan)"
    using assms by (auto simp: planReevaluation_def Let_def elim!: then_result_InrE)
  from plan_items_settle [OF this] show ?thesis by (fastforce simp: set_paid_fold)
qed

section \<open>What applying a run pays\<close>

lemma settleFromReevaluation_books:
  assumes "ledger_reliable env" "settleFromReevaluation env i holder c a runId cs = (r, cs')"
  shows "(confirmed_payments cs' = confirmed_payments cs \<and> (\<forall>h e. r \<noteq> Inr (True, h, e)))
    \<or> (confirmed_payments cs' = confirmed_payments cs @ [(i, a)] \<and> (\<exists>h. r = Inr (True, h, None)))"
proof -
  let ?p = "reevaluation_policy env i holder c a"
  let ?res = "buildResult ?p True (''Re-adjudicated by '' @ runId @ '' after feed trust was restored'') (ce_clock env (cs_tick cs))"
  obtain x s2 where x: "processPayout env ?p ?res None cs = (x, s2)" by (cases "processPayout env ?p ?res None cs")
  have cs': "cs' = tick s2" using assms(2) x
    by (auto simp: settleFromReevaluation_def Let_def split: sum.splits option.splits)
  have conf: "confirmed_payments (tick s) = confirmed_payments s" for s by (simp add: tick_def confirmed_payments_def)
  have id: "cr_policyId ?res = sp_id ?p" "sp_id ?p = i" "cr_payout ?res = a"
    by (simp_all add: buildResult_def reevaluation_policy_def)
  have paid: "(\<exists>z. x = Inr (Some z)) \<longleftrightarrow> paid_step i a cs s2" and unpaid: "(\<nexists>z. x = Inr (Some z)) \<longleftrightarrow> unpaid_step cs s2"
    using processPayout_outcome [OF assms(1) x id(1)] id by simp_all
  show ?thesis
  proof (cases "\<exists>z. x = Inr (Some z)")
    case True
    then show ?thesis using paid cs' conf assms(2) x by (auto simp: paid_step_def settleFromReevaluation_def Let_def)
  next
    case False
    then show ?thesis using unpaid cs' conf assms(2) x
      by (auto simp: unpaid_step_def settleFromReevaluation_def Let_def split: sum.splits option.splits)
  qed
qed

text \<open>The new confirmed payments of a step, relative to the policies the ledger knows as paid.\<close>

definition pays_new :: "adjudication_ledger \<Rightarrow> claim_state \<Rightarrow> adjudication_ledger \<Rightarrow> claim_state \<Rightarrow> bool" where
  "pays_new l cs l' cs' \<longleftrightarrow> (\<exists>new. confirmed_payments cs' = confirmed_payments cs @ new \<and> distinct (map fst new)
     \<and> fst ` set new \<inter> set (al_paidPolicies l) = {} \<and> set (al_paidPolicies l') = set (al_paidPolicies l) \<union> fst ` set new)"

lemma pays_new_refl: "set (al_paidPolicies l') = set (al_paidPolicies l) \<Longrightarrow> pays_new l cs l' cs"
  by (simp add: pays_new_def)

lemma pays_new_trans: "pays_new l cs l1 cs1 \<Longrightarrow> pays_new l1 cs1 l2 cs2 \<Longrightarrow> pays_new l cs l2 cs2"
proof -
  assume "pays_new l cs l1 cs1" "pays_new l1 cs1 l2 cs2"
  then obtain a b where ab: "confirmed_payments cs1 = confirmed_payments cs @ a" "distinct (map fst a)"
      "fst ` set a \<inter> set (al_paidPolicies l) = {}" "set (al_paidPolicies l1) = set (al_paidPolicies l) \<union> fst ` set a"
      "confirmed_payments cs2 = confirmed_payments cs1 @ b" "distinct (map fst b)"
      "fst ` set b \<inter> set (al_paidPolicies l1) = {}" "set (al_paidPolicies l2) = set (al_paidPolicies l1) \<union> fst ` set b"
    by (auto simp: pays_new_def)
  then show ?thesis unfolding pays_new_def by (intro exI [of _ "a @ b"]) auto
qed

lemma applyItem_pays:
  assumes "ledger_reliable env" "applyItem env it runId st l cs = (st', l', cs')"
  shows "pays_new l cs l' cs'"
proof (cases "it_action it = ActSettle \<and> \<not> isPaid (it_policyId it) l")
  case False
  then have "l' = l \<and> cs' = cs" using assms(2) by (auto simp: applyItem_def split: if_splits)
  then show ?thesis by (simp add: pays_new_refl)
next
  case True
  obtain r cs1 where r: "executor_settle env it runId cs = (r, cs1)" by (cases "executor_settle env it runId cs")
  from settleFromReevaluation_books [OF assms(1) r [unfolded executor_settle_def]] show ?thesis
  proof
    assume none: "confirmed_payments cs1 = confirmed_payments cs \<and> (\<forall>h e. r \<noteq> Inr (True, h, e))"
    then have "l' = l \<and> cs' = cs1" using assms(2) True r
      by (cases r) (auto simp: applyItem_def split: if_splits)
    then show ?thesis using none by (simp add: pays_new_def)
  next
    assume some: "confirmed_payments cs1 = confirmed_payments cs @ [(it_policyId it, it_payoutDelta it)] \<and> (\<exists>h. r = Inr (True, h, None))"
    then have "l' = markPaid (it_policyId it) l \<and> cs' = cs1" using assms(2) True r by (auto simp: applyItem_def)
    then show ?thesis using some True unfolding pays_new_def
      by (intro exI [of _ "[(it_policyId it, it_payoutDelta it)]"]) (auto simp: markPaid_def isPaid_def)
  qed
qed

lemma apply_items_pays:
  assumes "ledger_reliable env"
  shows "apply_items env runId actor now budget its run l cs = (run', l', cs') \<Longrightarrow> pays_new l cs l' cs'"
proof (induction its arbitrary: budget run l cs)
  case (Cons it its)
  show ?case
  proof (cases "map_of (rn_itemStatus run) (it_recordId it)")
    case (Some st)
    obtain st1 l1 cs1 where one: "applyItem env it runId st l cs = (st1, l1, cs1)" by (cases "applyItem env it runId st l cs")
    then show ?thesis using Cons.prems Some Cons.IH pays_new_trans [OF applyItem_pays [OF assms one]]
      by (auto simp: pays_new_refl split: if_splits)
  qed (use Cons.prems in \<open>simp add: pays_new_refl\<close>)
qed (simp add: pays_new_refl)

section \<open>The system\<close>

text \<open>The calls of the service. A scan of the claim service hands its adjudication records to the
  ledger, as the wiring of the module does.\<close>

datatype system_call =
    SClaim claim_event
  | SVerdict quorum_verdict
  | STransition trust_transition
  | SPlan string time_ms time_ms "(time_ms \<times> js_number) list"
  | SApply string string time_ms js_number
  | SReversal string string string string time_ms

fun system_step ::
  "plan_env \<Rightarrow> reevaluation_config \<Rightarrow> claim_env \<Rightarrow> (scval \<Rightarrow> native result) \<Rightarrow> system_call
     \<Rightarrow> reevaluation_service \<times> claim_state \<Rightarrow> reevaluation_service \<times> claim_state" where
  "system_step pe config env dec (SClaim ev) (s, cs) =
     (let cs' = claim_step env dec ev cs;
          fresh = drop (length (cs_adjudications cs)) (cs_adjudications cs')
      in (s\<lparr>re_ledger := fold (\<lambda>r l. snd (record_decision r l)) fresh (re_ledger s)\<rparr>, cs'))"
| "system_step pe config env dec (SVerdict v) (s, cs) = (onVerdict RETENTION_MS v s, cs)"
| "system_step pe config env dec (STransition t) (s, cs) = (snd (onTrustTransition pe config t s), cs)"
| "system_step pe config env dec (SPlan feedId restoredAt now backfill) (s, cs) =
     (snd (plan_run pe config feedId restoredAt now backfill s), cs)"
| "system_step pe config env dec (SApply runId actor now maxItems) (s, cs) = snd (apply_run env runId actor now maxItems s cs)"
| "system_step pe config env dec (SReversal runId recordId actor nt now) (s, cs) =
     (snd (approveReversal runId recordId actor nt now s), cs)"

lemma markReevaluated_paid [simp]: "al_paidPolicies (markReevaluated ids runId l) = al_paidPolicies l"
proof -
  have "al_paidPolicies (fold (mark_one runId) ids l) = al_paidPolicies l"
    by (induction ids arbitrary: l) (simp_all add: mark_one_def split: option.split)
  then show ?thesis by (simp add: markReevaluated_def)
qed

lemma buildRun_paid [simp]: "al_paidPolicies (re_ledger (snd (buildRun pe config f r n b t s))) = al_paidPolicies (re_ledger s)"
  by (simp add: buildRun_def Let_def split: sum.split option.split)

definition no_claim :: "system_call \<Rightarrow> bool" where
  "no_claim c = (case c of SClaim _ \<Rightarrow> False | _ \<Rightarrow> True)"

lemma system_step_pays:
  assumes "ledger_reliable env" "no_claim c"
  shows "pays_new (re_ledger s) cs (re_ledger (fst (system_step pe config env dec c (s, cs)))) (snd (system_step pe config env dec c (s, cs)))"
proof (cases c)
  case (SClaim ev)
  then show ?thesis using assms(2) by (simp add: no_claim_def)
next
  case (SApply runId actor now maxItems)
  show ?thesis
  proof (cases "map_of (re_runs s) runId")
    case (Some run)
    obtain run' l cs' where r: "apply_items env runId actor now (nat \<lfloor>num_of maxItems\<rfloor>) (pl_items (rn_plan run)) (start_run actor now maxItems run) (re_ledger s) cs = (run', l, cs')"
      by (cases "apply_items env runId actor now (nat \<lfloor>num_of maxItems\<rfloor>) (pl_items (rn_plan run)) (start_run actor now maxItems run) (re_ledger s) cs")
    show ?thesis using SApply Some r apply_items_pays [OF assms(1) r]
      by (simp add: apply_run_def pays_new_refl)
  qed (use SApply in \<open>simp add: apply_run_def pays_new_refl\<close>)
next
  case (SReversal runId recordId actor nt now)
  then show ?thesis by (simp add: approveReversal_def Let_def pays_new_refl split: option.split)
qed (simp_all add: onVerdict_def onTrustTransition_def plan_run_def Let_def pays_new_refl)


section \<open>Live settlement and re-evaluation\<close>

definition eager_config :: reevaluation_config where
  "eager_config = \<lparr>rc_lookbackMs = 15 * 60000, rc_confirmWindowMs = 30 * 60000, rc_triggerConfigFor = (\<lambda>c.
     defaultTriggerConfig c \<lparr>to_hysteresis = None, to_minDwellMs = Some (Num 0), to_minConfirmations = Some (Num 1), to_flap = None\<rparr>)\<rparr>"

definition plain_env :: plan_env where
  "plain_env = \<lparr>pe_lc = (\<lambda>_ _. True), pe_iso = (\<lambda>_. []), pe_digest = (\<lambda>_ _ _ _ _. ''d'')\<rparr>"

text \<open>Two held decisions of one policy, and a trusted reading below the threshold.\<close>

definition held_record :: "string \<Rightarrow> time_ms \<Rightarrow> adjudication_record" where
  "held_record i t = \<lparr>ad_id = i, ad_policyId = ''7'', ad_holder = ''G1'', ad_coverageType = 0, ad_feedId = ''usdc-usd'', ad_outcome = Held,
     ad_trustState = UnderCorroborated, ad_decidedAt = t, ad_readingValue = Num (9 / 10), ad_threshold = Num (95 / 100),
     ad_direction = direction_of 0, ad_coverageAmount = 10000000000, ad_paid = 0, ad_expiresAt = 10 ^ 12,
     ad_settlementTxHash = None, ad_reevaluatedBy = None\<rparr>"

definition two_holds :: plan_input where
  "two_holds = \<lparr>pi_feedId = ''usdc-usd'', pi_degradedSince = 1900000, pi_restoredAt = 2100000,
     pi_records = [held_record ''b'' 2060000, held_record ''a'' 2000000],
     pi_readings = [\<lparr>tr_observedAt = 2100000, tr_value = Num (9 / 10), tr_provenance = Quorum\<rparr>],
     pi_configFor = rc_triggerConfigFor eager_config, pi_alreadyPaid = [], pi_lookbackMs = 15 * 60000, pi_confirmWindowMs = 30 * 60000\<rparr>"

theorem plan_settles_on_evidence_witness:
  "\<exists>plan. planReevaluation plain_env two_holds = Inr plan \<and> map it_action (pl_items plan) = [ActSettle, ActSuperseded]
     \<and> map it_recordId (pl_items plan) = [''a'', ''b''] \<and> distinct (map it_policyId (settle_items (pl_items plan)))"
proof -
  have e: "is_ok (planReevaluation plain_env two_holds)
    \<and> map it_action (pl_items (projr (planReevaluation plain_env two_holds))) = [ActSettle, ActSuperseded]
    \<and> map ad_id (js_sort (record_le plain_env) (pi_records two_holds)) = [''a'', ''b'']"
    by code_simp
  then obtain plan where p: "planReevaluation plain_env two_holds = Inr plan" by (auto simp: is_ok_iff)
  then show ?thesis using plan_settles_on_evidence [OF p] e by auto
qed

definition no_runs :: reevaluation_service where
  "no_runs = \<lparr>re_ledger = \<lparr>al_records = [], al_latestByPolicy = [], al_paidPolicies = []\<rparr>, re_history = (\<lambda>_. []),
     re_degradedSince = [], re_runs = []\<rparr>"

text \<open>The feed is untrusted during the first scan and trusted from then on. The half-life of the
  damping is the time between two scans.\<close>

definition recovering_env :: claim_env where
  "recovering_env = (depeg_env None (Some (\<lambda>k f. Some (if k = 0 then UnderCorroborated else Trusted))))
     \<lparr>ce_overrides := \<lparr>to_hysteresis = None, to_minDwellMs = Some (Num 0), to_minConfirmations = Some (Num 1),
        to_flap = Some \<lparr>fo_penaltyPerFlip = None, fo_suppressAbove = None, fo_reuseBelow = None, fo_halfLifeMs = Some 300000,
          fo_maxPenalty = None\<rparr>\<rparr>\<rparr>"

definition outage :: "system_call list" where
  "outage = map (\<lambda>c. SClaim (EPolicy c)) sample_calls @
     [STransition \<lparr>tt_feedId = ''usdc-usd'', tt_to = UnderCorroborated, tt_at = 1900000\<rparr>, SClaim EScan,
      SVerdict \<lparr>qv_feedId = ''usdc-usd'', qv_trust = Trusted, qv_value = Some (Num (9 / 10)), qv_evaluatedAt = 2100000\<rparr>,
      STransition \<lparr>tt_feedId = ''usdc-usd'', tt_to = Trusted, tt_at = 2100000\<rparr>]"



end
