(* ===== verification/Contract_Spec.thy ===== *)
theory Contract_Spec
  imports Refract_Prelude
begin

text \<open>
  The startup check of the deployed contracts (\<open>stellar/pool-contract-interface.service.ts\<close>):
  the custom section \<open>contractspecv0\<close> is cut out of the WebAssembly module that the network
  returned, and the functions, structs and enums it declares are compared with what the
  backend calls. A \<open>Buffer\<close> is a list of bytes; reading outside of it gives \<open>undefined\<close>, which
  the bitwise operators take as 0. The bitwise operators work on signed 32-bit integers.
  The XDR reader and the transport are arguments of the service.

  The loop over the sections ends on every module whose section lengths are read as
  non-negative numbers, and finds the section. It does not end on every module: a length of
  five bytes with its top bit set is read as a negative number and moves the loop backwards.
\<close>

unbundle bit_operations_syntax

section \<open>Bytes\<close>

definition byte_at :: "int list \<Rightarrow> int \<Rightarrow> int option" where
  "byte_at bytes i = (if 0 \<le> i \<and> i < int (length bytes) then Some (bytes ! nat i) else None)"

definition as_number :: "int option \<Rightarrow> int" where
  "as_number b = (case b of None \<Rightarrow> 0 | Some x \<Rightarrow> x)"

text \<open>\<open>ToInt32\<close> of an integer.\<close>

definition to_int32 :: "int \<Rightarrow> int" where
  "to_int32 x = signed_take_bit 31 x"

text \<open>\<open>subarray\<close>: a negative index counts from the end, and both are clamped.\<close>

definition clamp_index :: "nat \<Rightarrow> int \<Rightarrow> nat" where
  "clamp_index n i = (if i < 0 then nat (int n + i) else min n (nat i))"

definition subarray :: "int list \<Rightarrow> int \<Rightarrow> int \<Rightarrow> int list" where
  "subarray bytes start finish =
     (let a = clamp_index (length bytes) start; b = clamp_index (length bytes) finish
      in take (b - a) (drop a bytes))"

function leb128 :: "int list \<Rightarrow> int \<Rightarrow> int \<Rightarrow> nat \<Rightarrow> (int \<times> int) result" where
  "leb128 bytes offset v shift =
     (if offset < int (length bytes) \<and> shift < 35 then
        let byte = as_number (byte_at bytes offset);
            v' = to_int32 (v OR to_int32 (push_bit (shift mod 32) (byte AND 127)))
        in if byte AND 128 = 0 then Inr (v', offset + 1) else leb128 bytes (offset + 1) v' (shift + 7)
      else Inl (Err ''Invalid WebAssembly section length''))"
  by pat_completeness auto
termination by (relation "measure (\<lambda>(_, _, _, shift). 35 - shift)") auto

declare leb128.simps [simp del]

definition readUnsignedLeb128 :: "int list \<Rightarrow> int \<Rightarrow> (int \<times> int) result" where
  "readUnsignedLeb128 bytes start = leb128 bytes start 0 0"

section \<open>The section of the contract\<close>

definition ascii :: "string \<Rightarrow> int list" where
  "ascii s = map (\<lambda>c. int (of_char c)) s"

text \<open>What the section at an offset says: the specification, or where the next section starts.\<close>

datatype section_step = Found "int list" | Continue int

definition read_section :: "int list \<Rightarrow> int \<Rightarrow> section_step result" where
  "read_section wasm offset =
     (let sectionId = byte_at wasm offset in
      then_result (readUnsignedLeb128 wasm (offset + 1)) (\<lambda>(len, start).
      let sectionEnd = start + len in
      if sectionEnd > int (length wasm) then Inl (Err ''Truncated WebAssembly section'')
      else if sectionId = Some 0 then
        then_result (readUnsignedLeb128 wasm start) (\<lambda>(nameLength, nameStart).
        let nameEnd = nameStart + nameLength in
        if nameEnd > sectionEnd then Inl (Err ''Truncated WebAssembly custom section name'')
        else if subarray wasm nameStart nameEnd = ascii ''contractspecv0''
        then Inr (Found (subarray wasm nameEnd sectionEnd))
        else Inr (Continue sectionEnd))
      else Inr (Continue sectionEnd)))"

definition quoted :: "string \<Rightarrow> string" where
  "quoted s = [CHR 0x22] @ s @ [CHR 0x22]"

definition no_section :: js_error where
  "no_section = Err (''Pool contract WASM does not contain the '' @ quoted ''contractspecv0'' @ '' section'')"

text \<open>The loop may run forever: \<open>None\<close>.\<close>

partial_function (option) find_spec :: "int list \<Rightarrow> int \<Rightarrow> int list result option" where
  "find_spec wasm offset =
     (if offset < int (length wasm) then
        (case read_section wasm offset of
           Inl e \<Rightarrow> Some (Inl e)
         | Inr (Found spec) \<Rightarrow> Some (Inr spec)
         | Inr (Continue next) \<Rightarrow> find_spec wasm next)
      else Some (Inl no_section))"

definition WASM_MAGIC :: "int list" where
  "WASM_MAGIC = [0, 97, 115, 109]"

definition extractContractSpec :: "int list \<Rightarrow> int list result option" where
  "extractContractSpec wasm =
     (if length wasm < 8 \<or> take 4 wasm \<noteq> WASM_MAGIC
      then Some (Inl (Err ''Pool contract response is not a WebAssembly module''))
      else find_spec wasm 8)"

section \<open>The interface the backend expects\<close>

text \<open>A type of the specification; the kinds without arguments are the names of the XDR union.\<close>

datatype type_def = TUdt string | TOption type_def | TResult type_def | TKind string

definition lower_char :: "char \<Rightarrow> char" where
  "lower_char c = (if 65 \<le> (of_char c :: nat) \<and> (of_char c :: nat) \<le> 90 then char_of (of_char c + 32 :: nat) else c)"

definition strip_kind :: "string \<Rightarrow> string" where
  "strip_kind k = (if take 10 k = ''scSpecType'' then drop 10 k else k)"

fun describeType :: "type_def \<Rightarrow> string" where
  "describeType (TUdt n) = ''udt:'' @ n"
| "describeType (TOption t) = ''option:'' @ describeType t"
| "describeType (TResult t) = ''result:'' @ describeType t"
| "describeType (TKind k) = map lower_char (strip_kind k)"

record expected_function =
  ef_args :: "string list"
  ef_result :: string

definition EXPECTED_FUNCTIONS :: "(string \<times> expected_function) list" where
  "EXPECTED_FUNCTIONS = [
     (''buy_policy'', \<lparr>ef_args = [''holder:address'', ''params:udt:PolicyParams''], ef_result = ''result:u64''\<rparr>),
     (''provide_capital'', \<lparr>ef_args = [''provider:address'', ''amount:i128''], ef_result = ''result:i128''\<rparr>),
     (''withdraw_capital'', \<lparr>ef_args = [''provider:address'', ''shares:i128''], ef_result = ''result:i128''\<rparr>),
     (''process_claim'', \<lparr>ef_args = [''policy_id:string'', ''holder:address'', ''payout:i128''], ef_result = ''result:i128''\<rparr>),
     (''pool_config'', \<lparr>ef_args = [], ef_result = ''option:udt:PoolConfig''\<rparr>),
     (''lockup_expires_at'', \<lparr>ef_args = [''provider:address''], ef_result = ''option:u64''\<rparr>)]"

definition EXPECTED_ORACLE_FUNCTIONS :: "(string \<times> expected_function) list" where
  "EXPECTED_ORACLE_FUNCTIONS = [(''update_reading'', \<lparr>ef_args = [''coverage_type:u32'', ''value:i128''], ef_result = ''void''\<rparr>)]"

definition EXPECTED_STRUCT_FIELDS :: "(string \<times> (string \<times> string) list) list" where
  "EXPECTED_STRUCT_FIELDS = [
     (''PolicyParams'', [(''coverage_amount'', ''i128''), (''coverage_type'', ''udt:CoverageType''), (''duration_days'', ''u32''),
        (''trigger_threshold'', ''i128'')]),
     (''PoolConfig'', [(''min_coverage'', ''i128''), (''max_coverage'', ''i128'')])]"

definition EXPECTED_ENUM_VARIANTS :: "(string \<times> string list) list" where
  "EXPECTED_ENUM_VARIANTS = [
     (''CoverageType'', [''StablecoinDepeg'', ''MarketCrash'', ''LiquidationShield'', ''SmartContractRisk'', ''FlightDelay''])]"

record function_spec =
  fn_inputs :: "(string \<times> type_def) list"
  fn_outputs :: "type_def list"

datatype spec_entry = EntryStruct string "(string \<times> type_def) list" | EntryEnum string "string list" | EntryOther

text \<open>The specification object of the SDK: the lookup of a function, which throws when there is
  none, and the entries.\<close>

record contract_spec =
  spec_getFunc :: "string \<Rightarrow> function_spec option"
  spec_entries :: "spec_entry list"

definition result_text :: "type_def list \<Rightarrow> string" where
  "result_text outputs = (case outputs of [t] \<Rightarrow> describeType t | [] \<Rightarrow> ''void'' | _ \<Rightarrow> ''multiple'')"

definition function_errors :: "contract_spec \<Rightarrow> string \<times> expected_function \<Rightarrow> string list" where
  "function_errors spec = (\<lambda>(name, expected).
     case spec_getFunc spec name of
       None \<Rightarrow> [''missing function '' @ name]
     | Some actual \<Rightarrow>
         let args = map (\<lambda>(n, t). n @ '':'' @ describeType t) (fn_inputs actual); r = result_text (fn_outputs actual) in
         (if join '','' args \<noteq> join '','' (ef_args expected)
          then [name @ '' arguments expected ('' @ join '', '' (ef_args expected) @ '') but found ('' @ join '', '' args @ '')''] else [])
         @ (if r \<noteq> ef_result expected then [name @ '' result expected '' @ ef_result expected @ '' but found '' @ r] else []))"

definition validateFunctionInterfaces :: "contract_spec \<Rightarrow> (string \<times> expected_function) list \<Rightarrow> string list" where
  "validateFunctionInterfaces spec expected = concat (map (function_errors spec) expected)"

definition validateOracleContractSpec :: "contract_spec \<Rightarrow> string list" where
  "validateOracleContractSpec spec = validateFunctionInterfaces spec EXPECTED_ORACLE_FUNCTIONS"

fun find_struct :: "string \<Rightarrow> spec_entry list \<Rightarrow> (string \<times> type_def) list option" where
  "find_struct name [] = None"
| "find_struct name (EntryStruct n fs # es) = (if n = name then Some fs else find_struct name es)"
| "find_struct name (_ # es) = find_struct name es"

fun find_enum :: "string \<Rightarrow> spec_entry list \<Rightarrow> string list option" where
  "find_enum name [] = None"
| "find_enum name (EntryEnum n cases # es) = (if n = name then Some cases else find_enum name es)"
| "find_enum name (_ # es) = find_enum name es"

text \<open>\<open>new Map(pairs)\<close>: the last pair of a key wins.\<close>

definition field_map :: "(string \<times> type_def) list \<Rightarrow> (string, string) jmap" where
  "field_map fs = fold (\<lambda>(n, t) m. js_set n (describeType t) m) fs []"

definition struct_errors :: "contract_spec \<Rightarrow> string \<times> (string \<times> string) list \<Rightarrow> string list" where
  "struct_errors spec = (\<lambda>(name, expectedFields).
     case find_struct name (spec_entries spec) of
       None \<Rightarrow> [''missing struct '' @ name]
     | Some fs \<Rightarrow> concat (map (\<lambda>(f, expectedType).
         let actual = map_of (field_map fs) f in
         if actual \<noteq> Some expectedType
         then [name @ ''.'' @ f @ '' expected '' @ expectedType @ '' but found '' @ (case actual of None \<Rightarrow> ''missing'' | Some t \<Rightarrow> t)]
         else []) expectedFields))"

definition enum_errors :: "contract_spec \<Rightarrow> string \<times> string list \<Rightarrow> string list" where
  "enum_errors spec = (\<lambda>(name, expectedVariants).
     case find_enum name (spec_entries spec) of
       None \<Rightarrow> [''missing enum '' @ name]
     | Some variants \<Rightarrow>
         if join '','' variants \<noteq> join '','' expectedVariants
         then [name @ '' variants expected ('' @ join '', '' expectedVariants @ '') but found ('' @ join '', '' variants @ '')'']
         else [])"

definition validatePoolContractSpec :: "contract_spec \<Rightarrow> string list" where
  "validatePoolContractSpec spec =
     validateFunctionInterfaces spec EXPECTED_FUNCTIONS
     @ concat (map (struct_errors spec) EXPECTED_STRUCT_FIELDS) @ concat (map (enum_errors spec) EXPECTED_ENUM_VARIANTS)"

text \<open>\<open>decode\<close> reads the entries of the section.\<close>

definition parseContractSpec :: "(int list \<Rightarrow> contract_spec result) \<Rightarrow> int list \<Rightarrow> contract_spec result option" where
  "parseContractSpec decode wasm = map_option (\<lambda>r. then_result r decode) (extractContractSpec wasm)"

section \<open>Startup\<close>

record interface_env =
  ie_network :: string
  ie_passphrase :: string
  ie_poolContractId :: string
  ie_oracleContractId :: string
  ie_rpcPassphrase :: "string result"
  ie_wasm :: "string \<Rightarrow> int list result"
  ie_decode :: "int list \<Rightarrow> contract_spec result"

definition check_contract ::
  "interface_env \<Rightarrow> string \<Rightarrow> string \<Rightarrow> (contract_spec \<Rightarrow> string list) \<Rightarrow> unit result option" where
  "check_contract env which contract validate =
     (if contract = [] then Some (Inr ())
      else case ie_wasm env contract of
             Inl e \<Rightarrow> Some (Inl e)
           | Inr wasm \<Rightarrow> map_option (\<lambda>r. then_result r (\<lambda>spec.
               let errors = validate spec in
               if errors \<noteq> [] then Inl (Err (which @ '' contract interface mismatch:'' @ [CHR 0x0A] @ ''- '' @ join ([CHR 0x0A] @ ''- '') errors))
               else Inr ())) (parseContractSpec (ie_decode env) wasm))"

definition validate_startup :: "interface_env \<Rightarrow> unit result option" where
  "validate_startup env =
     (case ie_rpcPassphrase env of
        Inl e \<Rightarrow> Some (Inl e)
      | Inr passphrase \<Rightarrow>
          if passphrase \<noteq> ie_passphrase env
          then Some (Inl (Err (''RPC network passphrase mismatch for '' @ ie_network env @ '': expected '' @ quoted (ie_passphrase env) @ '', found '' @ quoted passphrase)))
          else (case check_contract env ''Pool'' (ie_poolContractId env) validatePoolContractSpec of
                  None \<Rightarrow> None
                | Some (Inl e) \<Rightarrow> Some (Inl e)
                | Some (Inr _) \<Rightarrow> check_contract env ''Oracle'' (ie_oracleContractId env) validateOracleContractSpec))"

definition onModuleInit :: "interface_env \<Rightarrow> unit result option" where
  "onModuleInit env =
     (if ie_poolContractId env = [] \<and> ie_oracleContractId env = [] then Some (Inr ())
      else map_option (\<lambda>r. case r of
             Inl e \<Rightarrow> Inl (Err (''Stellar contract validation failed: '' @ error_message e))
           | Inr _ \<Rightarrow> Inr ()) (validate_startup env))"

section \<open>The loop over the sections\<close>

lemma leb128_advances: "leb128 bytes offset v shift = Inr (len, next) \<Longrightarrow> offset < next"
proof (induction bytes offset v shift rule: leb128.induct)
  case (1 bytes offset v shift)
  from "1.prems" have g: "offset < int (length bytes) \<and> shift < 35"
    by (subst (asm) leb128.simps) (simp split: if_splits)
  show ?case
  proof (cases "as_number (byte_at bytes offset) AND 128 = 0")
    case True
    then show ?thesis using "1.prems" g by (simp add: leb128.simps [of bytes offset] Let_def)
  next
    case False
    then have "offset + 1 < next"
      using "1.IH" [OF g refl refl] "1.prems" g by (simp add: leb128.simps [of bytes offset] Let_def)
    then show ?thesis by simp
  qed
qed

text \<open>The lengths that the module holds, at any offset, are read as non-negative numbers.\<close>

definition plain_lengths :: "int list \<Rightarrow> bool" where
  "plain_lengths wasm \<longleftrightarrow> (\<forall>i len next. readUnsignedLeb128 wasm i = Inr (len, next) \<longrightarrow> 0 \<le> len)"

lemma section_advances:
  assumes "plain_lengths wasm" "read_section wasm offset = Inr (Continue next)"
  shows "offset < next"
proof -
  obtain len start where r: "readUnsignedLeb128 wasm (offset + 1) = Inr (len, start)" and n: "next = start + len"
    using assms(2) by (auto simp: read_section_def Let_def elim!: then_result_InrE split: if_splits)
  have "offset + 1 < start" using r leb128_advances by (simp add: readUnsignedLeb128_def)
  moreover have "0 \<le> len" using assms(1) r unfolding plain_lengths_def by blast
  ultimately show ?thesis using n by simp
qed

lemma find_spec_returns:
  assumes "plain_lengths wasm"
  shows "\<exists>r. find_spec wasm offset = Some r"
proof (induction "nat (int (length wasm) - offset)" arbitrary: offset rule: less_induct)
  case less
  show ?case
  proof (cases "offset < int (length wasm)")
    case True
    show ?thesis
    proof (cases "\<exists>next. read_section wasm offset = Inr (Continue next)")
      case cont: True
      then obtain n where n: "read_section wasm offset = Inr (Continue n)" by blast
      then have "nat (int (length wasm) - n) < nat (int (length wasm) - offset)"
        using section_advances [OF assms n] True by simp
      from less [OF this] show ?thesis using True n by (subst find_spec.simps) simp
    next
      case False
      then show ?thesis using True
        by (subst find_spec.simps) (auto split: sum.split section_step.split)
    qed
  qed (subst find_spec.simps, simp)
qed


lemma small_bytes_plain:
  assumes "list_all (\<lambda>b. 0 \<le> b \<and> b < 128) wasm"
  shows "plain_lengths wasm"
proof -
  have "0 \<le> len" if r: "readUnsignedLeb128 wasm i = Inr (len, n)" for i len n
  proof -
    let ?b = "as_number (byte_at wasm i)"
    have b: "0 \<le> ?b" "?b < 128"
      using assms by (auto simp: as_number_def byte_at_def list_all_length nat_less_iff split: option.split if_splits)
    have "\<not> bit ?b 7" using b by (simp add: bit_iff_odd)
    then have "?b AND 2 ^ 7 = 0" by (simp only: and_exp_eq_0_iff_not_bit not_False_eq_True)
    then have low: "?b AND 128 = 0" by simp
    have m: "?b AND 127 = ?b" using b take_bit_eq_mask [of 7 ?b] by (simp add: take_bit_int_eq_self mask_eq_exp_minus_1)
    have "i < int (length wasm)"
      using r unfolding readUnsignedLeb128_def by (subst (asm) leb128.simps) (simp split: if_splits)
    then have "len = to_int32 (0 OR to_int32 (push_bit 0 ?b))"
      using r low m unfolding readUnsignedLeb128_def by (subst (asm) leb128.simps) (simp add: Let_def)
    then show ?thesis using b by (simp add: to_int32_def signed_take_bit_int_eq_self)
  qed
  then show ?thesis by (auto simp: plain_lengths_def)
qed

section \<open>A length that moves the loop backwards\<close>

text \<open>The header of a module and one section of length \<open>0xFFFFFFFA\<close>.\<close>

definition endless_module :: "int list" where
  "endless_module = WASM_MAGIC @ [1, 0, 0, 0] @ [1, 250, 255, 255, 255, 15]"

text \<open>C31. The extraction does not end on every module. The length of a section is accumulated with
  32-bit signed operators and never converted back to an unsigned number: in a module of 14
  bytes the length \<open>0xFFFFFFFA\<close> is read as \<open>-6\<close>, passes the check against the end of the
  module, and takes the loop back to the section it just read, forever.\<close>

theorem negative_length_never_returns: "extractContractSpec endless_module = None"
proof -
  have again: "read_section endless_module 8 = Inr (Continue 8)" by code_simp
  have "\<not> (wasm = endless_module \<and> offset = 8)" if "find_spec wasm offset = Some r" for wasm offset r
  proof (rule find_spec.raw_induct [OF _ that, of "\<lambda>wasm offset r. \<not> (wasm = endless_module \<and> offset = 8)"])
    fix f :: "int list \<Rightarrow> int \<Rightarrow> int list result option" and w i y
    assume ih: "\<And>w i y. f w i = Some y \<Longrightarrow> \<not> (w = endless_module \<and> i = 8)"
      and body: "(if i < int (length w) then case read_section w i of Inl e \<Rightarrow> Some (Inl e)
           | Inr (Found spec) \<Rightarrow> Some (Inr spec) | Inr (Continue next) \<Rightarrow> f w next
         else Some (Inl no_section)) = Some y"
    show "\<not> (w = endless_module \<and> i = 8)"
    proof
      assume e: "w = endless_module \<and> i = 8"
      have "8 < int (length endless_module)" by (simp add: endless_module_def WASM_MAGIC_def)
      then have "f endless_module 8 = Some y" using body e again by simp
      then show False using ih by blast
    qed
  qed
  then have "find_spec endless_module 8 = None" by (metis option.exhaust)
  then show ?thesis by (simp add: extractContractSpec_def endless_module_def WASM_MAGIC_def)
qed

section \<open>Well-formed modules\<close>

text \<open>The encoding that a compiler writes.\<close>

fun encode_leb :: "nat \<Rightarrow> int list" where
  "encode_leb n = (if n < 128 then [int n] else int (n mod 128 + 128) # encode_leb (n div 128))"

declare encode_leb.simps [simp del]

lemma low_bits:
  fixes b :: int
  assumes "0 \<le> b" "b < 256"
  shows "b AND 127 = b mod 128" "b AND 128 = 0 \<longleftrightarrow> b < 128"
proof -
  show "b AND 127 = b mod 128" using take_bit_eq_mask [of 7 b] by (simp add: take_bit_eq_mod mask_eq_exp_minus_1)
  have "b div 128 = (if b < 128 then 0 else 1)" using assms by auto
  then have "bit b 7 \<longleftrightarrow> \<not> b < 128" by (simp add: bit_iff_odd)
  then show "b AND 128 = 0 \<longleftrightarrow> b < 128" using and_exp_eq_0_iff_not_bit [of b 7] by simp
qed

lemma accumulate:
  assumes "0 \<le> v" "v < 2 ^ shift" "0 \<le> l" "v + l * 2 ^ shift < 2 ^ 31"
  shows "to_int32 (v OR to_int32 (push_bit shift l)) = v + l * 2 ^ shift"
proof -
  have l: "0 \<le> l * 2 ^ shift" "l * 2 ^ shift < 2 ^ 31" using assms by (simp_all add: order_le_less_trans [of "l * 2 ^ shift" "v + l * 2 ^ shift"])
  then have p: "to_int32 (push_bit shift l) = push_bit shift l"
    by (simp add: to_int32_def push_bit_eq_mult signed_take_bit_int_eq_self)
  have "v OR push_bit shift l = v + l * 2 ^ shift"
    using concat_bit_eq [of shift v l] assms by (simp add: concat_bit_def take_bit_int_eq_self push_bit_eq_mult)
  moreover have "signed_take_bit 31 (v + l * 2 ^ shift) = v + l * 2 ^ shift"
    using l(1) assms by (intro signed_take_bit_int_eq_self) linarith+
  ultimately show ?thesis unfolding p by (simp add: to_int32_def)
qed

lemma byte_at_append: "byte_at (pre @ b # post) (int (length pre)) = Some b"
  by (simp add: byte_at_def)

lemma leb128_encoded:
  assumes "0 \<le> v" "v < 2 ^ shift" "shift \<le> 31" "v + int n * 2 ^ shift < 2 ^ 31"
  shows "leb128 (pre @ encode_leb n @ post) (int (length pre)) v shift
      = Inr (v + int n * 2 ^ shift, int (length pre) + int (length (encode_leb n)))"
  using assms
proof (induction n arbitrary: pre v shift rule: encode_leb.induct)
  case (1 n)
  have sh: "shift mod 32 = shift" "shift < 35" using "1.prems"(3) by simp_all
  show ?case
  proof (cases "n < 128")
    case True
    then have "int n AND 127 = int n" "int n AND 128 = 0" using low_bits [of "int n"] by simp_all
    then show ?thesis using True sh accumulate [OF "1.prems"(1,2) _ "1.prems"(4)]
      by (subst leb128.simps) (simp add: Let_def encode_leb.simps [of n] byte_at_append as_number_def del: push_bit_and)
  next
    case False
    let ?b = "int (n mod 128 + 128)" and ?q = "encode_leb (n div 128)"
    have b: "?b AND 127 = int (n mod 128)" "?b AND 128 \<noteq> 0" using low_bits [of ?b] by (simp_all add: zmod_int)
    have split: "int n = int (n div 128) * 128 + int (n mod 128)"
      using div_mult_mod_eq [of n 128] by linarith
    have sum: "v + int (n mod 128) * 2 ^ shift + int (n div 128) * 2 ^ (shift + 7) = v + int n * 2 ^ shift"
      unfolding power_add by (subst split) (simp add: algebra_simps)
    have pos: "0 \<le> int (n div 128) * 2 ^ (shift + 7)" by simp
    have acc: "to_int32 (v OR to_int32 (push_bit shift (int (n mod 128)))) = v + int (n mod 128) * 2 ^ shift"
      using sum pos "1.prems"(4) by (intro accumulate "1.prems"(1,2)) (simp, linarith)
    have "int (n mod 128) \<le> 127" by simp
    then have "int (n mod 128) * 2 ^ shift \<le> 127 * 2 ^ shift" by (intro mult_right_mono) simp_all
    moreover have "(2 :: int) ^ (shift + 7) = 128 * 2 ^ shift" by (simp add: power_add)
    ultimately have bound: "v + int (n mod 128) * 2 ^ shift < 2 ^ (shift + 7)" using "1.prems"(2) by linarith
    have "1 \<le> int (n div 128)" using False by simp
    then have "(2 :: int) ^ (shift + 7) \<le> int (n div 128) * 2 ^ (shift + 7)" by simp
    moreover have "0 \<le> int (n mod 128) * 2 ^ shift" by simp
    ultimately have "(2 :: int) ^ (shift + 7) < 2 ^ 31" using sum "1.prems"(1,4) by linarith
    then have sh7: "shift + 7 \<le> 31" by (simp only: power_strict_increasing_iff one_less_numeral_iff semiring_norm)
    have ih: "leb128 ((pre @ [?b]) @ ?q @ post) (int (length (pre @ [?b]))) (v + int (n mod 128) * 2 ^ shift) (shift + 7)
        = Inr (v + int (n mod 128) * 2 ^ shift + int (n div 128) * 2 ^ (shift + 7), int (length (pre @ [?b])) + int (length ?q))"
      using "1.IH" [OF False _ bound sh7, of "pre @ [?b]"] "1.prems"(1,4) sum by simp
    have e: "pre @ encode_leb n @ post = pre @ ?b # ?q @ post" using False by (simp add: encode_leb.simps [of n])
    show ?thesis unfolding e
      by (subst leb128.simps) (use ih b sh acc sum False in \<open>simp add: Let_def byte_at_append as_number_def encode_leb.simps [of n] add_ac del: push_bit_and\<close>)
  qed
qed

lemma read_encoded:
  assumes "int n < 2 ^ 31" "bytes = pre @ encode_leb n @ post" "i = int (length pre)"
  shows "readUnsignedLeb128 bytes i = Inr (int n, i + int (length (encode_leb n)))"
  using leb128_encoded [of 0 0 n pre post] assms by (simp add: readUnsignedLeb128_def)

text \<open>The sections of a module: a custom section has a name.\<close>

datatype wasm_section = Plain int "int list" | Custom "int list" "int list"

definition framed :: "int \<Rightarrow> int list \<Rightarrow> int list" where
  "framed i body = i # encode_leb (length body) @ body"

definition named :: "int list \<Rightarrow> int list \<Rightarrow> int list" where
  "named name content = encode_leb (length name) @ name @ content"

fun section_bytes :: "wasm_section \<Rightarrow> int list" where
  "section_bytes (Plain i body) = framed i body"
| "section_bytes (Custom name content) = framed 0 (named name content)"

fun other_section :: "wasm_section \<Rightarrow> bool" where
  "other_section (Plain i body) \<longleftrightarrow> i \<noteq> 0"
| "other_section (Custom name content) \<longleftrightarrow> name \<noteq> ascii ''contractspecv0''"

lemma subarray_middle: "subarray (pre @ mid @ post) (int (length pre)) (int (length pre) + int (length mid)) = mid"
  by (simp add: subarray_def clamp_index_def)

lemma frame_read:
  assumes "length (pre @ framed i body @ post) < 2 ^ 31"
  defines "w \<equiv> pre @ framed i body @ post"
  defines "start \<equiv> int (length pre) + 1 + int (length (encode_leb (length body)))"
  shows "byte_at w (int (length pre)) = Some i" "readUnsignedLeb128 w (int (length pre) + 1) = Inr (int (length body), start)"
    "start + int (length body) = int (length (pre @ framed i body))" "int (length (pre @ framed i body)) \<le> int (length w)"
proof -
  show "byte_at w (int (length pre)) = Some i" by (simp add: w_def framed_def byte_at_append)
  have "int (length body) < 2 ^ 31" using assms(1) by (simp add: framed_def)
  then show "readUnsignedLeb128 w (int (length pre) + 1) = Inr (int (length body), start)"
    using read_encoded [of "length body" w "pre @ [i]" "body @ post"] by (simp add: w_def framed_def start_def add.commute)
qed (simp_all add: w_def framed_def start_def)

lemma plain_section_skipped:
  assumes "length (pre @ framed i body @ post) < 2 ^ 31" "i \<noteq> 0"
  shows "read_section (pre @ framed i body @ post) (int (length pre)) = Inr (Continue (int (length (pre @ framed i body))))"
  using frame_read [OF assms(1)] assms(2) by (simp add: read_section_def Let_def)

lemma custom_section_read:
  assumes "length (pre @ framed 0 (named name content) @ post) < 2 ^ 31"
  shows "read_section (pre @ framed 0 (named name content) @ post) (int (length pre))
    = Inr (if name = ascii ''contractspecv0'' then Found content
           else Continue (int (length (pre @ framed 0 (named name content)))))"
proof -
  let ?body = "named name content" and ?w = "pre @ framed 0 (named name content) @ post"
  let ?p = "pre @ 0 # encode_leb (length ?body)" and ?q = "pre @ 0 # encode_leb (length ?body) @ encode_leb (length name)"
  note f = frame_read [OF assms]
  have "int (length name) < 2 ^ 31" using assms by (simp add: framed_def named_def)
  then have r: "readUnsignedLeb128 ?w (int (length ?p)) = Inr (int (length name), int (length ?q))"
    using read_encoded [of "length name" ?w ?p "name @ content @ post"] by (simp add: framed_def named_def)
  have n: "subarray ?w (int (length ?q)) (int (length ?q) + int (length name)) = name"
    using subarray_middle [of ?q name "content @ post"] by (simp add: framed_def named_def)
  have c: "subarray ?w (int (length ?q) + int (length name)) (int (length ?p) + int (length ?body)) = content"
    using subarray_middle [of "?q @ name" content post] by (simp add: framed_def named_def add.assoc)
  have p: "int (length pre) + 1 + int (length (encode_leb (length ?body))) = int (length ?p)" by simp
  have le: "int (length ?q) + int (length name) \<le> int (length ?p) + int (length ?body)" by (simp add: named_def)
  have e: "int (length ?p) + int (length ?body) = int (length (pre @ framed 0 ?body))" by (simp add: framed_def)
  show ?thesis
    unfolding read_section_def Let_def f(1) f(2) [unfolded p] then_result_simps prod.case r n c
    using f(4) le by (simp only: e [symmetric]) (simp add: not_less)
qed

lemma find_spec_reaches:
  assumes "list_all other_section secs" "length (pre @ concat (map section_bytes secs) @ framed 0 (named (ascii ''contractspecv0'') spec) @ rest) < 2 ^ 31"
  shows "find_spec (pre @ concat (map section_bytes secs) @ framed 0 (named (ascii ''contractspecv0'') spec) @ rest) (int (length pre)) = Some (Inr spec)"
  using assms
proof (induction secs arbitrary: pre)
  case Nil
  then show ?case using custom_section_read [of pre "ascii ''contractspecv0''" spec rest]
    by (subst find_spec.simps) (simp add: framed_def)
next
  case (Cons s secs)
  let ?tail = "concat (map section_bytes secs) @ framed 0 (named (ascii ''contractspecv0'') spec) @ rest"
  have step: "read_section (pre @ section_bytes s @ ?tail) (int (length pre)) = Inr (Continue (int (length (pre @ section_bytes s))))"
    using Cons.prems plain_section_skipped [of pre _ _ ?tail] custom_section_read [of pre _ _ ?tail] by (cases s) simp_all
  have "find_spec ((pre @ section_bytes s) @ ?tail) (int (length (pre @ section_bytes s))) = Some (Inr spec)"
    using Cons.prems by (intro Cons.IH) simp_all
  then have "find_spec (pre @ section_bytes s @ ?tail) (int (length pre)) = Some (Inr spec)"
    using step by (subst find_spec.simps) (simp add: framed_def)
  then show ?case by simp
qed

text \<open>C30. The specification of a well-formed module is found: whatever the sections before it, as
  long as none of them is a specification itself, and whatever follows, the bytes returned are
  exactly the content that the module's specification section was written with.\<close>

theorem module_spec_found:
  assumes "list_all other_section secs" "length version = 4"
    and "length wasm < 2 ^ 31"
    and "wasm = WASM_MAGIC @ version @ concat (map section_bytes secs) @ section_bytes (Custom (ascii ''contractspecv0'') spec) @ rest"
  shows "extractContractSpec wasm = Some (Inr spec)"
  using find_spec_reaches [of secs "WASM_MAGIC @ version" spec rest] assms
  by (simp add: extractContractSpec_def WASM_MAGIC_def)

definition small_module :: "int list" where
  "small_module = WASM_MAGIC @ [1, 0, 0, 0] @ concat (map section_bytes [Plain 1 [96, 0], Custom (ascii ''name'') [7]])
     @ section_bytes (Custom (ascii ''contractspecv0'') [42, 43]) @ [3]"

lemma small_module_eq: "small_module = [0, 97, 115, 109, 1, 0, 0, 0, 1, 2, 96, 0, 0, 6, 4, 110, 97, 109, 101, 7, 0, 17, 14,
    99, 111, 110, 116, 114, 97, 99, 116, 115, 112, 101, 99, 118, 48, 42, 43, 3]"
  by (simp add: small_module_def WASM_MAGIC_def framed_def named_def ascii_def encode_leb.simps)

theorem module_spec_found_witness: "extractContractSpec small_module = Some (Inr [42, 43])"
  by (rule module_spec_found [OF _ _ _ small_module_def]) (simp_all add: ascii_def small_module_eq)


end
