(* ===== verification/Signed_Webhook.thy ===== *)
theory Signed_Webhook
  imports Refract_Prelude
begin

text \<open>
  Signed inbound requests (\<open>oracle/sources/webhook-signature.ts\<close>,
  \<open>oracle/sources/nonce-store.ts\<close> and the credentials of \<open>oracle/sources/oracle-source.ts\<close>):
  the headers, the string that is signed, the verification, and the store of nonces as an
  interface and its in-memory implementation. The SHA-256 of the body (in hexadecimal) and the
  HMAC are arguments. Bodies are lists of bytes, times are integers.
\<close>

section \<open>Requests\<close>

record webhook_credential =
  wc_keyId :: string
  wc_secret :: string
  wc_notBefore :: "time_ms option"
  wc_notAfter :: "time_ms option"

text \<open>A header is absent, one string, or repeated.\<close>

datatype header_value = One string | Repeated "string list"

type_synonym header_bag = "string \<Rightarrow> header_value option"

datatype webhook_reject =
    MissingHeaders | MalformedHeaders | UnknownKey | KeyNotActive | TimestampOutOfWindow | BadSignature
  | ReplayedNonce | NonceStoreFull

record signed_headers =
  sh_keyId :: string
  sh_timestamp :: int
  sh_nonce :: string
  sh_signature :: string

definition get_header :: "header_bag \<Rightarrow> string \<Rightarrow> string option" where
  "get_header headers name = (case headers name of Some (One v) \<Rightarrow> Some v | _ \<Rightarrow> None)"

definition char_in :: "char \<Rightarrow> nat \<Rightarrow> nat \<Rightarrow> bool" where
  "char_in c lo hi \<longleftrightarrow> lo \<le> of_char c \<and> of_char c \<le> hi"

definition nonce_char :: "char \<Rightarrow> bool" where
  "nonce_char c \<longleftrightarrow> char_in c 65 90 \<or> char_in c 97 122 \<or> is_digit c \<or> c = CHR ''_'' \<or> c = CHR ''-''"

definition NONCE_PATTERN :: "string \<Rightarrow> bool" where
  "NONCE_PATTERN s \<longleftrightarrow> 16 \<le> length s \<and> length s \<le> 128 \<and> list_all nonce_char s"

definition SIGNATURE_PATTERN :: "string \<Rightarrow> bool" where
  "SIGNATURE_PATTERN s \<longleftrightarrow> take 3 s = ''v1='' \<and> length s = 67 \<and> list_all (\<lambda>c. is_digit c \<or> char_in c 97 102) (drop 3 s)"

definition readSignatureHeaders :: "header_bag \<Rightarrow> webhook_reject + signed_headers" where
  "readSignatureHeaders headers =
     (case (get_header headers ''x-refract-key-id'', get_header headers ''x-refract-timestamp'',
            get_header headers ''x-refract-nonce'', get_header headers ''x-refract-signature'') of
        (Some keyId, Some ts, Some nonce, Some signature) \<Rightarrow>
          if keyId = [] \<or> ts = [] \<or> nonce = [] \<or> signature = [] then Inl MissingHeaders
          else if \<not> (length ts \<le> 12 \<and> list_all is_digit ts) \<or> \<not> NONCE_PATTERN nonce \<or> \<not> SIGNATURE_PATTERN signature
                  \<or> length keyId > 128
          then Inl MalformedHeaders
          else Inr \<lparr>sh_keyId = keyId, sh_timestamp = int (dec_value ts), sh_nonce = nonce, sh_signature = signature\<rparr>
      | _ \<Rightarrow> Inl MissingHeaders)"

definition newline :: string where
  "newline = [CHR 0x0A]"

definition buildSigningString :: "(int list \<Rightarrow> string) \<Rightarrow> string \<Rightarrow> string \<Rightarrow> int \<Rightarrow> string \<Rightarrow> int list \<Rightarrow> string" where
  "buildSigningString sha256 sourceId keyId timestamp nonce rawBody =
     join newline [''v1'', sourceId, keyId, big_to_string timestamp, nonce, sha256 rawBody]"

definition signWebhook ::
  "(int list \<Rightarrow> string) \<Rightarrow> (string \<Rightarrow> string \<Rightarrow> string) \<Rightarrow> string \<Rightarrow> string \<Rightarrow> string \<Rightarrow> int \<Rightarrow> string \<Rightarrow> int list \<Rightarrow> string" where
  "signWebhook sha256 hmac secret sourceId keyId timestamp nonce rawBody =
     ''v1='' @ hmac secret (buildSigningString sha256 sourceId keyId timestamp nonce rawBody)"

text \<open>The two signatures are compared as bytes; UTF-8 is injective.\<close>

definition verifyWebhookSignature ::
  "(int list \<Rightarrow> string) \<Rightarrow> (string \<Rightarrow> string \<Rightarrow> string) \<Rightarrow> string \<Rightarrow> webhook_credential list \<Rightarrow> signed_headers \<Rightarrow> int list
     \<Rightarrow> time_ms \<Rightarrow> int \<Rightarrow> webhook_reject + string" where
  "verifyWebhookSignature sha256 hmac sourceId credentials headers rawBody now maxSkewMs =
     (case List.find (\<lambda>c. wc_keyId c = sh_keyId headers) credentials of
        None \<Rightarrow> Inl UnknownKey
      | Some c \<Rightarrow>
          if (case wc_notBefore c of None \<Rightarrow> False | Some t \<Rightarrow> now < t) \<or> (case wc_notAfter c of None \<Rightarrow> False | Some t \<Rightarrow> t \<le> now)
          then Inl KeyNotActive
          else if \<bar>now - sh_timestamp headers * 1000\<bar> > maxSkewMs then Inl TimestampOutOfWindow
          else if signWebhook sha256 hmac (wc_secret c) sourceId (sh_keyId headers) (sh_timestamp headers) (sh_nonce headers) rawBody
                  \<noteq> sh_signature headers
          then Inl BadSignature
          else Inr (wc_keyId c))"

definition MIN_SECRET_BYTES :: nat where
  "MIN_SECRET_BYTES = 32"

definition byteLength :: "string \<Rightarrow> nat" where
  "byteLength s = sum_list (map (\<lambda>c. if (of_char c :: nat) < 128 then 1 else 2) s)"

fun check_credentials :: "string \<Rightarrow> string list \<Rightarrow> webhook_credential list \<Rightarrow> unit result" where
  "check_credentials sourceId seen [] = Inr ()"
| "check_credentials sourceId seen (c # cs) =
     (if wc_keyId c \<in> set seen then Inl (Err (''Push source '' @ sourceId @ '' has duplicate keyId '' @ wc_keyId c))
      else if byteLength (wc_secret c) < MIN_SECRET_BYTES
      then Inl (Err (''Push source '' @ sourceId @ '' key '' @ wc_keyId c @ '' secret is shorter than '' @ big_to_string (int MIN_SECRET_BYTES) @ '' bytes''))
      else check_credentials sourceId (wc_keyId c # seen) cs)"

definition assertCredentialsUsable :: "string \<Rightarrow> webhook_credential list \<Rightarrow> unit result" where
  "assertCredentialsUsable sourceId credentials =
     (if credentials = [] then Inl (Err (''Push source '' @ sourceId @ '' has no webhook credentials''))
      else check_credentials sourceId [] credentials)"

section \<open>Nonces\<close>

datatype claim_outcome = Fresh | Replayed | Full

record nonce_store =
  ns_entries :: "(string, time_ms) jmap"
  ns_capacity :: int

definition sweep :: "time_ms \<Rightarrow> nonce_store \<Rightarrow> nonce_store" where
  "sweep now s = s\<lparr>ns_entries := filter (\<lambda>(k, e). \<not> e \<le> now) (ns_entries s)\<rparr>"

definition nonce_claim :: "string \<Rightarrow> time_ms \<Rightarrow> time_ms \<Rightarrow> nonce_store \<Rightarrow> claim_outcome \<times> nonce_store" where
  "nonce_claim key expiresAt now s =
     (let existing = map_of (ns_entries s) key in
      if (case existing of None \<Rightarrow> False | Some e \<Rightarrow> e > now) then (Replayed, s)
      else let s1 = (if existing = None \<and> int (length (ns_entries s)) \<ge> ns_capacity s then sweep now s else s) in
        if existing = None \<and> int (length (ns_entries s1)) \<ge> ns_capacity s1 then (Full, s1)
        else (Fresh, s1\<lparr>ns_entries := js_set key expiresAt (ns_entries s1)\<rparr>))"

definition empty_nonces :: "int \<Rightarrow> nonce_store" where
  "empty_nonces capacity = \<lparr>ns_entries = [], ns_capacity = capacity\<rparr>"

section \<open>What a store of nonces promises\<close>

text \<open>The interface \<open>NonceStore\<close>: a claim that is fresh is remembered until it expires, whatever
  is claimed meanwhile, and while it is remembered the same key is not fresh again.\<close>

locale nonce_memory =
  fixes claim :: "string \<Rightarrow> time_ms \<Rightarrow> time_ms \<Rightarrow> 's \<Rightarrow> claim_outcome \<times> 's"
    and live :: "'s \<Rightarrow> string \<Rightarrow> time_ms \<Rightarrow> bool"
  assumes fresh_live: "claim k e now s = (Fresh, s') \<Longrightarrow> live s' k e"
    and live_kept: "live s k e \<Longrightarrow> now < e \<Longrightarrow> claim k' e' now s = (r, s') \<Longrightarrow> live s' k e"
    and live_not_fresh: "live s k e \<Longrightarrow> now < e \<Longrightarrow> claim k e' now s = (r, s') \<Longrightarrow> r \<noteq> Fresh"
begin

lemma claims_live:
  "live s k e \<Longrightarrow> \<forall>(k', e', now) \<in> set cs. now < e \<Longrightarrow> live (fold (\<lambda>(k', e', now) s. snd (claim k' e' now s)) cs s) k e"
proof (induction cs arbitrary: s)
  case (Cons c cs)
  obtain k' e' now where c: "c = (k', e', now)" by (cases c)
  obtain r s' where s': "claim k' e' now s = (r, s')" by (cases "claim k' e' now s")
  have "live s' k e" by (rule live_kept [OF Cons.prems(1) _ s']) (use Cons.prems(2) c in simp)
  then show ?case using Cons.IH [of s'] Cons.prems(2) c s' by simp
qed simp

lemma claimed_once:
  assumes "claim k e now s = (Fresh, s')" "\<forall>(k', e', t) \<in> set cs. t < e" "now' < e"
  shows "fst (claim k e'' now' (fold (\<lambda>(k', e', t) s. snd (claim k' e' t s)) cs s')) \<noteq> Fresh"
  using live_not_fresh [OF claims_live [OF fresh_live [OF assms(1)] assms(2)] assms(3)] by (metis prod.collapse)

end

definition nonce_live :: "nonce_store \<Rightarrow> string \<Rightarrow> time_ms \<Rightarrow> bool" where
  "nonce_live s k e \<longleftrightarrow> map_of (ns_entries s) k = Some e"

lemma map_of_filter_keep: "map_of m k = Some e \<Longrightarrow> P (k, e) \<Longrightarrow> map_of (filter P m) k = Some e"
  by (induction m) (auto split: if_splits)

lemma sweep_keeps: "nonce_live s k e \<Longrightarrow> now < e \<Longrightarrow> nonce_live (sweep now s) k e"
  by (simp add: nonce_live_def sweep_def map_of_filter_keep)

interpretation nonces: nonce_memory nonce_claim nonce_live
proof
  fix k e now s s'
  assume "nonce_claim k e now s = (Fresh, s')"
  then show "nonce_live s' k e" by (auto simp: nonce_claim_def nonce_live_def Let_def split: if_splits)
next
  fix s k e now k' e' r s'
  assume l: "nonce_live s k e" "now < e" and c: "nonce_claim k' e' now s = (r, s')"
  have sw: "nonce_live (sweep now s) k e" by (rule sweep_keeps [OF l])
  show "nonce_live s' k e"
    using c l sw by (auto simp: nonce_claim_def nonce_live_def Let_def split: if_splits)
next
  fix s k e now e' r s'
  assume "nonce_live s k e" "now < e" "nonce_claim k e' now s = (r, s')"
  then show "r \<noteq> Fresh" by (auto simp: nonce_claim_def nonce_live_def Let_def)
qed

section \<open>What a signature binds\<close>

lemma append_sep_eq:
  assumes "a @ c # s = b @ c # t" "c \<notin> set a" "c \<notin> set b"
  shows "a = b \<and> s = t"
  using assms by (induction a arbitrary: b) (auto simp: Cons_eq_append_conv append_eq_Cons_conv)

lemma nonce_no_newline: "NONCE_PATTERN s \<Longrightarrow> CHR 0x0A \<notin> set s"
  by (auto simp: NONCE_PATTERN_def list_all_iff nonce_char_def char_in_def is_digit_def)

lemma big_to_string_no_newline: "CHR 0x0A \<notin> set (big_to_string z)"
proof -
  have "CHR 0x0A \<notin> set (dec_digits n)" for n using digits_dec_digits [of n] by (auto simp: list_all_iff is_digit_def)
  then show ?thesis by (simp add: big_to_string_def)
qed

lemma big_to_string_inj: "0 \<le> a \<Longrightarrow> 0 \<le> b \<Longrightarrow> big_to_string a = big_to_string b \<Longrightarrow> a = b"
  using dec_value_digits by (metis big_to_string_def eq_nat_nat_iff not_less)

text \<open>The signed string determines everything it is built from but the body, and of that the
  hash.\<close>

lemma signing_string_binds:
  assumes "buildSigningString H a k t n body = buildSigningString H a' k' t' n' body'"
    and "CHR 0x0A \<notin> set a" "CHR 0x0A \<notin> set a'" "CHR 0x0A \<notin> set k" "CHR 0x0A \<notin> set k'"
    and "NONCE_PATTERN n" "NONCE_PATTERN n'" "0 \<le> t" "0 \<le> t'"
  shows "a = a' \<and> k = k' \<and> t = t' \<and> n = n' \<and> H body = H body'"
proof -
  let ?c = "CHR 0x0A"
  have e: "a @ ?c # k @ ?c # big_to_string t @ ?c # n @ ?c # H body = a' @ ?c # k' @ ?c # big_to_string t' @ ?c # n' @ ?c # H body'"
    using assms(1) by (simp add: buildSigningString_def newline_def)
  note 1 = append_sep_eq [OF e assms(2,3)]
  note 2 = append_sep_eq [OF conjunct2 [OF 1] assms(4,5)]
  note 3 = append_sep_eq [OF conjunct2 [OF 2] big_to_string_no_newline big_to_string_no_newline]
  note 4 = append_sep_eq [OF conjunct2 [OF 3] nonce_no_newline [OF assms(6)] nonce_no_newline [OF assms(7)]]
  show ?thesis using 1 2 3 4 big_to_string_inj [OF assms(8,9)] by simp
qed

lemma headers_nonneg: "readSignatureHeaders b = Inr h \<Longrightarrow> 0 \<le> sh_timestamp h \<and> NONCE_PATTERN (sh_nonce h)"
  by (auto simp: readSignatureHeaders_def split: option.splits if_splits)

lemma verified:
  assumes "verifyWebhookSignature H M src creds h body now skew = Inr key"
  obtains c where "c \<in> set creds" "wc_keyId c = sh_keyId h" "\<bar>now - sh_timestamp h * 1000\<bar> \<le> skew"
    "sh_signature h = ''v1='' @ M (wc_secret c) (buildSigningString H src (sh_keyId h) (sh_timestamp h) (sh_nonce h) body)"
    "\<forall>t. wc_notBefore c = Some t \<longrightarrow> t \<le> now" "\<forall>t. wc_notAfter c = Some t \<longrightarrow> now < t"
proof -
  obtain c where c: "List.find (\<lambda>c. wc_keyId c = sh_keyId h) creds = Some c"
    using assms by (auto simp: verifyWebhookSignature_def split: option.splits)
  then have "c \<in> set creds" "wc_keyId c = sh_keyId h" by (auto simp: find_Some_iff)
  then show thesis
    using that [of c] assms unfolding verifyWebhookSignature_def signWebhook_def c
    by (auto simp: not_le not_less split: option.splits if_splits)
qed

end
