(* ===== verification/Ingestion.thy ===== *)
theory Ingestion
  imports Signed_Webhook
begin

text \<open>
  The entry point of oracle readings (\<open>oracle/sources/oracle-ingestion.pipeline.ts\<close>), with the
  records of \<open>oracle/sources/oracle-source.ts\<close> and the JSON push source of
  \<open>oracle/sources/json-push-source.ts\<close>. The state holds the registered sources, the last accepted
  reading per source and feed, the nonces and every reading handed to the sinks. Between its
  awaits the pipeline runs to completion, so each call is one step. The JSON parser is an
  argument, beside the hash and the HMAC; a pull source is its polling function.
\<close>

section \<open>Readings and sources\<close>

datatype json = JNull | JBool bool | JNum js_number | JStr string | JArr "json list" | JObj "(string \<times> json) list"

record source_reading =
  rg_feedId :: string
  rg_coverageType :: string
  rg_value :: js_number
  rg_observedAt :: js_number
  rg_sequence :: "int option"

datatype ingest_mode = PullMode | PushMode

record ingested_reading = source_reading +
  ig_sourceId :: string
  ig_mode :: ingest_mode
  ig_receivedAt :: time_ms

datatype source_kind = Pull "time_ms \<Rightarrow> source_reading list result" | Push "webhook_credential list" "json \<Rightarrow> source_reading list result"

record source_adapter =
  so_id :: string
  so_feeds :: "string list"
  so_kind :: source_kind

definition mode_of :: "source_adapter \<Rightarrow> ingest_mode" where
  "mode_of a = (case so_kind a of Pull _ \<Rightarrow> PullMode | Push _ _ \<Rightarrow> PushMode)"

section \<open>The JSON push source\<close>

definition is_object :: "json \<Rightarrow> bool" where
  "is_object j \<longleftrightarrow> (case j of JObj _ \<Rightarrow> True | JArr _ \<Rightarrow> True | _ \<Rightarrow> False)"

definition jfield :: "string \<Rightarrow> json \<Rightarrow> json option" where
  "jfield k j = (case j of JObj fs \<Rightarrow> map_of fs k | _ \<Rightarrow> None)"

definition parse_reading :: "nat \<Rightarrow> json \<Rightarrow> source_reading result" where
  "parse_reading i raw =
     (let at_i = ''readings['' @ big_to_string (int i) @ '']'' in
      if \<not> is_object raw then Inl (Err (at_i @ '' must be an object''))
      else case (jfield ''feedId'' raw, jfield ''coverageType'' raw) of
        (Some (JStr f), Some (JStr c)) \<Rightarrow>
          (case (jfield ''value'' raw, jfield ''observedAt'' raw) of
             (Some (JNum v), Some (JNum t)) \<Rightarrow>
               (case jfield ''sequence'' raw of
                  None \<Rightarrow> Inr \<lparr>rg_feedId = f, rg_coverageType = c, rg_value = v, rg_observedAt = t, rg_sequence = None\<rparr>
                | Some (JNum n) \<Rightarrow>
                    if isInteger n
                    then Inr \<lparr>rg_feedId = f, rg_coverageType = c, rg_value = v, rg_observedAt = t, rg_sequence = Some \<lfloor>num_of n\<rfloor>\<rparr>
                    else Inl (Err (at_i @ ''.sequence must be an integer''))
                | Some _ \<Rightarrow> Inl (Err (at_i @ ''.sequence must be an integer'')))
           | _ \<Rightarrow> Inl (Err (at_i @ '' value/observedAt must be numbers'')))
      | _ \<Rightarrow> Inl (Err (at_i @ '' missing feedId/coverageType'')))"

fun parse_readings :: "nat \<Rightarrow> json list \<Rightarrow> source_reading list result" where
  "parse_readings i [] = Inr []"
| "parse_readings i (x # xs) = then_result (parse_reading i x) (\<lambda>r. then_result (parse_readings (Suc i) xs) (\<lambda>rs. Inr (r # rs)))"

definition json_push_parse :: "json \<Rightarrow> source_reading list result" where
  "json_push_parse body =
     (case jfield ''readings'' body of
        Some (JArr xs) \<Rightarrow> parse_readings 0 xs
      | _ \<Rightarrow> Inl (Err ''body.readings must be an array''))"

definition json_push_source :: "string \<Rightarrow> string list \<Rightarrow> webhook_credential list \<Rightarrow> source_adapter" where
  "json_push_source i fs cs = \<lparr>so_id = i, so_feeds = fs, so_kind = Push cs json_push_parse\<rparr>"

section \<open>The pipeline\<close>

record ingestion_config =
  ic_maxReadingAgeMs :: int
  ic_maxFutureSkewMs :: int
  ic_webhookMaxSkewMs :: int
  ic_maxWebhookBodyBytes :: int
  ic_maxReadingsPerDelivery :: int

definition DEFAULT_INGESTION_CONFIG :: ingestion_config where
  "DEFAULT_INGESTION_CONFIG = \<lparr>ic_maxReadingAgeMs = 5 * 60000, ic_maxFutureSkewMs = 30000, ic_webhookMaxSkewMs = 5 * 60000,
     ic_maxWebhookBodyBytes = 64 * 1024, ic_maxReadingsPerDelivery = 100\<rparr>"

datatype reading_reject =
    FeedNotRegistered | InvalidValue | StaleReading | FutureDated | NotNewerThanLast | SequenceNotIncreasing | AfterSignedTimestamp

record last_accepted =
  la_observedAt :: js_number
  la_sequence :: "int option"

record ingestion_result =
  ir_accepted :: "ingested_reading list"
  ir_rejected :: "(source_reading \<times> reading_reject) list"

datatype auth_reason = Rejected webhook_reject | UnknownSource

datatype body_reason = BodyTooLarge | InvalidJson | InvalidPayload | TooManyReadings

datatype webhook_result = WebhookOk ingestion_result | Unauthorized auth_reason | BadBody int body_reason

record inbound_webhook =
  iw_headers :: header_bag
  iw_rawBody :: "int list option"

record pipeline =
  ip_sources :: "(string, source_adapter) jmap"
  ip_last :: "(string, last_accepted) jmap"
  ip_nonces :: nonce_store
  ip_delivered :: "ingested_reading list"

definition new_pipeline :: pipeline where
  "new_pipeline = \<lparr>ip_sources = [], ip_last = [], ip_nonces = empty_nonces 100000, ip_delivered = []\<rparr>"

definition source_id_ok :: "string \<Rightarrow> bool" where
  "source_id_ok s \<longleftrightarrow> 1 \<le> length s \<and> length s \<le> 64 \<and> list_all (\<lambda>c. nonce_char c \<or> c = CHR ''.'') s"

definition register_source :: "source_adapter \<Rightarrow> pipeline \<Rightarrow> unit result \<times> pipeline" where
  "register_source a s =
     (if \<not> source_id_ok (so_id a) then (Inl (Err (''Invalid oracle source id: '' @ so_id a)), s)
      else if js_has (so_id a) (ip_sources s) then (Inl (Err (''Oracle source '' @ so_id a @ '' already registered'')), s)
      else if so_feeds a = [] then (Inl (Err (''Oracle source '' @ so_id a @ '' has no feeds'')), s)
      else case (case so_kind a of Pull _ \<Rightarrow> Inr () | Push cs _ \<Rightarrow> assertCredentialsUsable (so_id a) cs) of
             Inl e \<Rightarrow> (Inl e, s)
           | Inr _ \<Rightarrow> (Inr (), s\<lparr>ip_sources := js_set (so_id a) a (ip_sources s)\<rparr>))"

definition stream_key :: "string \<Rightarrow> string \<Rightarrow> string" where
  "stream_key sourceId feedId = sourceId @ '':'' @ feedId"

definition check_reading ::
  "ingestion_config \<Rightarrow> source_adapter \<Rightarrow> source_reading \<Rightarrow> time_ms \<Rightarrow> int option \<Rightarrow> (string, last_accepted) jmap \<Rightarrow> reading_reject option" where
  "check_reading cfg a r now signedAtMs lastAccepted =
     (if rg_feedId r \<notin> set (so_feeds a) then Some FeedNotRegistered
      else if \<not> isFinite (rg_value r) \<or> \<not> isFinite (rg_observedAt r) then Some InvalidValue
      else if js_less (Num (of_int (now + ic_maxFutureSkewMs cfg))) (rg_observedAt r) then Some FutureDated
      else if (case signedAtMs of None \<Rightarrow> False | Some t \<Rightarrow> js_less (Num (of_int (t + ic_maxFutureSkewMs cfg))) (rg_observedAt r))
      then Some AfterSignedTimestamp
      else if of_int now - num_of (rg_observedAt r) > of_int (ic_maxReadingAgeMs cfg) then Some StaleReading
      else case map_of lastAccepted (stream_key (so_id a) (rg_feedId r)) of
        None \<Rightarrow> None
      | Some l \<Rightarrow>
          if js_le (rg_observedAt r) (la_observedAt l) then Some NotNewerThanLast
          else (case la_sequence l of
                  None \<Rightarrow> None
                | Some n \<Rightarrow> (case rg_sequence r of
                               None \<Rightarrow> Some SequenceNotIncreasing
                             | Some m \<Rightarrow> if m \<le> n then Some SequenceNotIncreasing else None)))"

text \<open>The comparator: the time, and the sequence number where the times do not decide, which is
  also the case of a time that is not a number.\<close>

definition reading_before :: "source_reading \<Rightarrow> source_reading \<Rightarrow> bool" where
  "reading_before a b \<longleftrightarrow> js_less (rg_observedAt a) (rg_observedAt b)
     \<or> \<not> js_less (rg_observedAt b) (rg_observedAt a)
        \<and> (case rg_sequence a of None \<Rightarrow> 0 | Some n \<Rightarrow> n) \<le> (case rg_sequence b of None \<Rightarrow> 0 | Some n \<Rightarrow> n)"

definition tagged :: "source_adapter \<Rightarrow> time_ms \<Rightarrow> source_reading \<Rightarrow> ingested_reading" where
  "tagged a now r = source_reading.extend r (ingested_reading.fields (so_id a) (mode_of a) now)"

fun accept_ordered ::
  "ingestion_config \<Rightarrow> source_adapter \<Rightarrow> time_ms \<Rightarrow> int option \<Rightarrow> source_reading list \<Rightarrow> (string, last_accepted) jmap
     \<Rightarrow> ingestion_result \<times> (string, last_accepted) jmap" where
  "accept_ordered cfg a now signedAtMs [] m = (\<lparr>ir_accepted = [], ir_rejected = []\<rparr>, m)"
| "accept_ordered cfg a now signedAtMs (r # rs) m =
     (case check_reading cfg a r now signedAtMs m of
        Some reason \<Rightarrow>
          (case accept_ordered cfg a now signedAtMs rs m of (res, m') \<Rightarrow> (res\<lparr>ir_rejected := (r, reason) # ir_rejected res\<rparr>, m'))
      | None \<Rightarrow>
          (case accept_ordered cfg a now signedAtMs rs
                  (js_set (stream_key (so_id a) (rg_feedId r)) \<lparr>la_observedAt = rg_observedAt r, la_sequence = rg_sequence r\<rparr> m) of
             (res, m') \<Rightarrow> (res\<lparr>ir_accepted := tagged a now r # ir_accepted res\<rparr>, m')))"

definition accept ::
  "ingestion_config \<Rightarrow> source_adapter \<Rightarrow> source_reading list \<Rightarrow> time_ms \<Rightarrow> int option \<Rightarrow> pipeline \<Rightarrow> ingestion_result \<times> pipeline" where
  "accept cfg a readings now signedAtMs s =
     (case accept_ordered cfg a now signedAtMs (js_sort reading_before readings) (ip_last s) of
        (res, m) \<Rightarrow> (res, s\<lparr>ip_last := m, ip_delivered := ip_delivered s @ ir_accepted res\<rparr>))"

definition ingestPull :: "ingestion_config \<Rightarrow> string \<Rightarrow> time_ms \<Rightarrow> pipeline \<Rightarrow> ingestion_result result \<times> pipeline" where
  "ingestPull cfg sourceId now s =
     (case map_of (ip_sources s) sourceId of
        None \<Rightarrow> (Inl (Err (''No pull source registered as '' @ sourceId)), s)
      | Some a \<Rightarrow>
          (case so_kind a of
             Push _ _ \<Rightarrow> (Inl (Err (''No pull source registered as '' @ sourceId)), s)
           | Pull poll \<Rightarrow>
               (case poll now of
                  Inl e \<Rightarrow> (Inl e, s)
                | Inr readings \<Rightarrow> (case accept cfg a readings now None s of (res, s') \<Rightarrow> (Inr res, s')))))"

record webhook_env =
  we_config :: ingestion_config
  we_sha256 :: "int list \<Rightarrow> string"
  we_hmac :: "string \<Rightarrow> string \<Rightarrow> string"
  we_parse :: "int list \<Rightarrow> json option"

definition deliver_body ::
  "webhook_env \<Rightarrow> source_adapter \<Rightarrow> (json \<Rightarrow> source_reading list result) \<Rightarrow> signed_headers \<Rightarrow> int list \<Rightarrow> time_ms \<Rightarrow> pipeline
     \<Rightarrow> webhook_result \<times> pipeline" where
  "deliver_body w a parse headers rawBody now s =
     (case we_parse w rawBody of
        None \<Rightarrow> (BadBody 400 InvalidJson, s)
      | Some body \<Rightarrow>
          (case parse body of
             Inl _ \<Rightarrow> (BadBody 400 InvalidPayload, s)
           | Inr readings \<Rightarrow>
               if int (length readings) > ic_maxReadingsPerDelivery (we_config w) then (BadBody 400 TooManyReadings, s)
               else case accept (we_config w) a readings now (Some (sh_timestamp headers * 1000)) s of
                      (res, s') \<Rightarrow> (WebhookOk res, s')))"

definition ingestWebhook :: "webhook_env \<Rightarrow> string \<Rightarrow> inbound_webhook \<Rightarrow> time_ms \<Rightarrow> pipeline \<Rightarrow> webhook_result \<times> pipeline" where
  "ingestWebhook w sourceId request now s =
     (case map_of (ip_sources s) sourceId of
        None \<Rightarrow> (Unauthorized UnknownSource, s)
      | Some a \<Rightarrow>
          (case so_kind a of
             Pull _ \<Rightarrow> (Unauthorized UnknownSource, s)
           | Push credentials parse \<Rightarrow>
               let rawBody = (case iw_rawBody request of None \<Rightarrow> [] | Some b \<Rightarrow> b) in
               if int (length rawBody) > ic_maxWebhookBodyBytes (we_config w) then (BadBody 413 BodyTooLarge, s)
               else case readSignatureHeaders (iw_headers request) of
                 Inl reason \<Rightarrow> (Unauthorized (Rejected reason), s)
               | Inr headers \<Rightarrow>
                   (case verifyWebhookSignature (we_sha256 w) (we_hmac w) sourceId credentials headers rawBody now (ic_webhookMaxSkewMs (we_config w)) of
                      Inl reason \<Rightarrow> (Unauthorized (Rejected reason), s)
                    | Inr _ \<Rightarrow>
                        (case nonce_claim (sourceId @ '':'' @ sh_nonce headers)
                                (sh_timestamp headers * 1000 + ic_webhookMaxSkewMs (we_config w) + 1) now (ip_nonces s) of
                           (Replayed, n) \<Rightarrow> (Unauthorized (Rejected ReplayedNonce), s\<lparr>ip_nonces := n\<rparr>)
                         | (Full, n) \<Rightarrow> (Unauthorized (Rejected NonceStoreFull), s\<lparr>ip_nonces := n\<rparr>)
                         | (Fresh, n) \<Rightarrow> deliver_body w a parse headers rawBody now (s\<lparr>ip_nonces := n\<rparr>)))))"

datatype pipeline_call = CRegister source_adapter | CPull string time_ms | CWebhook string inbound_webhook time_ms

fun pipeline_step :: "webhook_env \<Rightarrow> pipeline_call \<Rightarrow> pipeline \<Rightarrow> pipeline" where
  "pipeline_step w (CRegister a) s = snd (register_source a s)"
| "pipeline_step w (CPull i now) s = snd (ingestPull (we_config w) i now s)"
| "pipeline_step w (CWebhook i rq now) s = snd (ingestWebhook w i rq now s)"

fun call_time :: "pipeline_call \<Rightarrow> time_ms option" where
  "call_time (CRegister _) = None"
| "call_time (CPull _ now) = Some now"
| "call_time (CWebhook _ _ now) = Some now"

section \<open>No delivery is accepted twice\<close>

lemma accept_keeps: "accept cfg a rs now sg s = (res, s') \<Longrightarrow> ip_nonces s' = ip_nonces s \<and> ip_sources s' = ip_sources s"
  by (auto simp: accept_def split: prod.splits)

lemma deliver_keeps [simp]:
  "ip_nonces (snd (deliver_body w a p h b now s)) = ip_nonces s" "ip_sources (snd (deliver_body w a p h b now s)) = ip_sources s"
  by (auto simp: deliver_body_def dest: accept_keeps split: prod.split option.split sum.split)

lemma pull_keeps [simp]: "ip_nonces (snd (ingestPull cfg i now s)) = ip_nonces s" "ip_sources (snd (ingestPull cfg i now s)) = ip_sources s"
  by (auto simp: ingestPull_def dest: accept_keeps split: prod.split option.split sum.split source_kind.split)

lemma register_keeps [simp]: "ip_nonces (snd (register_source a s)) = ip_nonces s"
  by (simp add: register_source_def split: sum.split)

lemma claim_branch:
  "ip_nonces (snd (case nonce_claim k e now (ip_nonces s) of
      (Replayed, n) \<Rightarrow> (x, s\<lparr>ip_nonces := n\<rparr>)
    | (Full, n) \<Rightarrow> (y, s\<lparr>ip_nonces := n\<rparr>)
    | (Fresh, n) \<Rightarrow> deliver_body w a p h b now (s\<lparr>ip_nonces := n\<rparr>))) = snd (nonce_claim k e now (ip_nonces s))"
  by (simp split: prod.split claim_outcome.split)

text \<open>A webhook leaves the nonces alone or makes one claim.\<close>

lemma webhook_nonces:
  "ip_nonces (snd (ingestWebhook w i rq now s)) = ip_nonces s
   \<or> (\<exists>k e. ip_nonces (snd (ingestWebhook w i rq now s)) = snd (nonce_claim k e now (ip_nonces s)))"
  unfolding ingestWebhook_def Let_def
  by (simp add: claim_branch split: option.split source_kind.split sum.split) blast

lemma step_live:
  assumes "nonce_live (ip_nonces s) k e" "\<forall>t. call_time c = Some t \<longrightarrow> t < e"
  shows "nonce_live (ip_nonces (pipeline_step w c s)) k e"
proof (cases c)
  case (CWebhook i rq now)
  then show ?thesis using webhook_nonces [of w i rq now s] assms nonces.live_kept [of "ip_nonces s" k e now]
    by simp (metis prod.collapse)
qed (use assms in simp_all)

lemma run_live:
  "nonce_live (ip_nonces s) k e \<Longrightarrow> \<forall>c \<in> set cs. \<forall>t. call_time c = Some t \<longrightarrow> t < e
   \<Longrightarrow> nonce_live (ip_nonces (fold (pipeline_step w) cs s)) k e"
  by (induction cs arbitrary: s) (simp_all add: step_live)

lemma webhook_ok:
  assumes "ingestWebhook w i rq now s = (WebhookOk res, s')"
  obtains a creds parse h key n where "map_of (ip_sources s) i = Some a" "so_kind a = Push creds parse"
    "readSignatureHeaders (iw_headers rq) = Inr h"
    "verifyWebhookSignature (we_sha256 w) (we_hmac w) i creds h (case iw_rawBody rq of None \<Rightarrow> [] | Some b \<Rightarrow> b) now
       (ic_webhookMaxSkewMs (we_config w)) = Inr key"
    "nonce_claim (i @ '':'' @ sh_nonce h) (sh_timestamp h * 1000 + ic_webhookMaxSkewMs (we_config w) + 1) now (ip_nonces s) = (Fresh, n)"
    "ip_nonces s' = n"
proof -
  have d: "ip_nonces s' = ip_nonces s0" if "deliver_body w a p h b now s0 = (WebhookOk res, s')" for a p h b s0
    using deliver_keeps(1) [of w a p h b now s0] that by simp
  show ?thesis using assms d
    by (auto simp: ingestWebhook_def Let_def intro!: that split: option.splits source_kind.splits sum.splits prod.splits claim_outcome.splits if_splits)
qed

text \<open>C32. A signed delivery is accepted at most once. After a webhook has been accepted, whatever
  sources register and whatever is pulled or delivered meanwhile, a request to the same source
  that carries the same nonce and the same signed time is not accepted again, at no later time:
  either the time has left the window, or the nonce is still remembered. The clock may stand
  still; no call before the second request is assumed to be later than it.\<close>

theorem delivery_accepted_once:
  assumes "ingestWebhook w i rq now s = (WebhookOk res, s1)"
    and "s2 = fold (pipeline_step w) calls s1" "\<forall>c \<in> set calls. \<forall>t. call_time c = Some t \<longrightarrow> t \<le> now'"
    and "readSignatureHeaders (iw_headers rq) = Inr h" "readSignatureHeaders (iw_headers rq') = Inr h'"
    and "sh_nonce h' = sh_nonce h" "sh_timestamp h' = sh_timestamp h"
  shows "fst (ingestWebhook w i rq' now' s2) \<noteq> WebhookOk res'"
proof
  assume "fst (ingestWebhook w i rq' now' s2) = WebhookOk res'"
  then obtain s3 where again: "ingestWebhook w i rq' now' s2 = (WebhookOk res', s3)" by (metis prod.collapse)
  define e where "e = sh_timestamp h * 1000 + ic_webhookMaxSkewMs (we_config w) + 1"
  from assms(1) have first: "nonce_live (ip_nonces s1) (i @ '':'' @ sh_nonce h) e"
    by (rule webhook_ok) (use assms(4) nonces.fresh_live in \<open>auto simp: e_def\<close>)
  from again show False
  proof (rule webhook_ok)
    fix a creds parse g key n
    assume g: "readSignatureHeaders (iw_headers rq') = Inr g"
      and v: "verifyWebhookSignature (we_sha256 w) (we_hmac w) i creds g (case iw_rawBody rq' of None \<Rightarrow> [] | Some b \<Rightarrow> b) now'
         (ic_webhookMaxSkewMs (we_config w)) = Inr key"
      and c: "nonce_claim (i @ '':'' @ sh_nonce g) (sh_timestamp g * 1000 + ic_webhookMaxSkewMs (we_config w) + 1) now' (ip_nonces s2) = (Fresh, n)"
    have gh: "sh_nonce g = sh_nonce h" "sh_timestamp g = sh_timestamp h" using g assms(5-7) by simp_all
    from v have "now' < e" by (rule verified) (use gh in \<open>auto simp: e_def abs_le_iff\<close>)
    then have "nonce_live (ip_nonces s2) (i @ '':'' @ sh_nonce h) e"
      using run_live [OF first, of calls w] assms(2,3) by fastforce
    then show False using nonces.live_not_fresh [OF _ \<open>now' < e\<close> c] gh by simp
  qed
qed

section \<open>What reaches the sinks\<close>

text \<open>A later reading of a source and feed is newer, and once a reading has a sequence number
  every later one has a greater one.\<close>

definition newer :: "ingested_reading \<Rightarrow> ingested_reading \<Rightarrow> bool" where
  "newer x y \<longleftrightarrow> num_of (rg_observedAt x) < num_of (rg_observedAt y)
     \<and> (case rg_sequence x of None \<Rightarrow> True | Some n \<Rightarrow> (case rg_sequence y of None \<Rightarrow> False | Some m \<Rightarrow> n < m))"

definition stream :: "string \<Rightarrow> string \<Rightarrow> ingested_reading list \<Rightarrow> ingested_reading list" where
  "stream src feed xs = filter (\<lambda>x. ig_sourceId x = src \<and> rg_feedId x = feed) xs"

definition plausible :: "ingestion_config \<Rightarrow> (string, source_adapter) jmap \<Rightarrow> ingested_reading \<Rightarrow> bool" where
  "plausible cfg sources x \<longleftrightarrow> (\<exists>a. map_of sources (ig_sourceId x) = Some a \<and> rg_feedId x \<in> set (so_feeds a))
     \<and> isFinite (rg_value x) \<and> isFinite (rg_observedAt x)
     \<and> of_int (ig_receivedAt x - ic_maxReadingAgeMs cfg) \<le> num_of (rg_observedAt x)
     \<and> num_of (rg_observedAt x) \<le> of_int (ig_receivedAt x + ic_maxFutureSkewMs cfg)"

lemma newer_trans: "newer x y \<Longrightarrow> newer y z \<Longrightarrow> newer x z"
  by (auto simp: newer_def split: option.splits)

definition last_of :: "ingested_reading list \<Rightarrow> last_accepted option" where
  "last_of xs = (if xs = [] then None else Some \<lparr>la_observedAt = rg_observedAt (last xs), la_sequence = rg_sequence (last xs)\<rparr>)"

definition streams_ok :: "(string, last_accepted) jmap \<Rightarrow> ingested_reading list \<Rightarrow> bool" where
  "streams_ok m sent \<longleftrightarrow> (\<forall>src feed. source_id_ok src \<longrightarrow>
     sorted_wrt newer (stream src feed sent) \<and> map_of m (stream_key src feed) = last_of (stream src feed sent))
   \<and> (\<forall>x \<in> set sent. isFinite (rg_observedAt x))"

lemma source_id_no_colon: "source_id_ok s \<Longrightarrow> CHR '':'' \<notin> set s"
  by (auto simp: source_id_ok_def list_all_iff nonce_char_def char_in_def is_digit_def)

lemma stream_key_inj:
  assumes "source_id_ok a" "source_id_ok b"
  shows "stream_key a f = stream_key b g \<longleftrightarrow> a = b \<and> f = g"
  using append_sep_eq [of a "CHR '':''" f b g] source_id_no_colon [OF assms(1)] source_id_no_colon [OF assms(2)]
  by (auto simp: stream_key_def)

lemma tagged_simps [simp]:
  "rg_feedId (tagged a now r) = rg_feedId r" "rg_value (tagged a now r) = rg_value r"
  "rg_observedAt (tagged a now r) = rg_observedAt r" "rg_sequence (tagged a now r) = rg_sequence r"
  "ig_sourceId (tagged a now r) = so_id a" "ig_receivedAt (tagged a now r) = now"
  by (simp_all add: tagged_def source_reading.defs ingested_reading.defs)

lemma stream_append: "stream src feed (xs @ ys) = stream src feed xs @ stream src feed ys"
  by (simp add: stream_def)

lemma stream_tagged: "stream src feed [tagged a now r] = (if src = so_id a \<and> feed = rg_feedId r then [tagged a now r] else [])"
  by (auto simp: stream_def)

lemma sorted_wrt_snoc:
  assumes "sorted_wrt newer xs" "xs \<noteq> [] \<Longrightarrow> newer (last xs) x"
  shows "sorted_wrt newer (xs @ [x])"
proof (cases "xs = []")
  case False
  then obtain ys y where xs: "xs = ys @ [y]" by (metis rev_exhaust)
  then show ?thesis using assms newer_trans by (auto simp: sorted_wrt_append)
qed simp

lemma check_newer:
  assumes "check_reading cfg a r now sg m = None" "map_of m (stream_key (so_id a) (rg_feedId r)) = last_of xs" "xs \<noteq> []"
    and "isFinite (rg_observedAt (last xs))"
  shows "newer (last xs) (tagged a now r)"
proof -
  have fin: "isFinite (rg_observedAt r)" using assms(1) by (auto simp: check_reading_def split: if_splits)
  have le: "\<not> js_le (rg_observedAt r) (rg_observedAt (last xs))"
    using assms(1-3) by (auto simp: check_reading_def last_of_def split: if_splits)
  have "num_of (rg_observedAt (last xs)) < num_of (rg_observedAt r)"
    using le fin assms(4) by (cases "rg_observedAt r"; cases "rg_observedAt (last xs)") simp_all
  moreover have "case rg_sequence (last xs) of None \<Rightarrow> True | Some n \<Rightarrow> (case rg_sequence r of None \<Rightarrow> False | Some k \<Rightarrow> n < k)"
    using assms(1-3) by (auto simp: check_reading_def last_of_def split: if_splits option.splits)
  ultimately show ?thesis by (auto simp: newer_def split: option.splits)
qed

lemma check_plausible:
  assumes "check_reading cfg a r now sg m = None" "map_of sources (so_id a) = Some a"
  shows "plausible cfg sources (tagged a now r)"
proof -
  have "isFinite (rg_observedAt r)" using assms(1) by (auto simp: check_reading_def split: if_splits)
  then obtain t where t: "rg_observedAt r = Num t" by (cases "rg_observedAt r") auto
  from assms(1) t have "rg_feedId r \<in> set (so_feeds a)" "isFinite (rg_value r)" "t \<le> of_int (now + ic_maxFutureSkewMs cfg)"
    "of_int now - t \<le> of_int (ic_maxReadingAgeMs cfg)"
    by (simp_all add: check_reading_def not_less split: if_splits)
  then show ?thesis using assms(2) t by (simp add: plausible_def)
qed

lemma one_accepted:
  assumes ok: "streams_ok m sent" and id: "source_id_ok (so_id a)" and check: "check_reading cfg a r now sg m = None"
  shows "streams_ok (js_set (stream_key (so_id a) (rg_feedId r)) \<lparr>la_observedAt = rg_observedAt r, la_sequence = rg_sequence r\<rparr> m)
           (sent @ [tagged a now r])"
proof -
  let ?xs = "stream (so_id a) (rg_feedId r) sent"
  have fin: "isFinite (rg_observedAt r)" using check by (auto simp: check_reading_def split: if_splits)
  have m: "map_of m (stream_key (so_id a) (rg_feedId r)) = last_of ?xs" "sorted_wrt newer ?xs" and f: "\<forall>x \<in> set sent. isFinite (rg_observedAt x)"
    using ok id by (auto simp: streams_ok_def)
  have "newer (last ?xs) (tagged a now r)" if "?xs \<noteq> []"
  proof (rule check_newer [OF check m(1) that])
    have "last ?xs \<in> set sent" using last_in_set [OF that] by (simp add: stream_def)
    then show "isFinite (rg_observedAt (last ?xs))" using f by blast
  qed
  then have "sorted_wrt newer (?xs @ [tagged a now r])" by (rule sorted_wrt_snoc [OF m(2)])
  note sorted = this
  show ?thesis unfolding streams_ok_def
  proof (intro conjI allI impI)
    fix src feed assume src: "source_id_ok src"
    have same: "stream_key (so_id a) (rg_feedId r) = stream_key src feed \<longleftrightarrow> src = so_id a \<and> feed = rg_feedId r"
      using stream_key_inj [OF id src] by auto
    have old: "sorted_wrt newer (stream src feed sent)" "map_of m (stream_key src feed) = last_of (stream src feed sent)"
      using ok src by (simp_all add: streams_ok_def)
    show "sorted_wrt newer (stream src feed (sent @ [tagged a now r]))"
      using sorted old by (simp add: stream_append stream_tagged)
    show "map_of (js_set (stream_key (so_id a) (rg_feedId r)) \<lparr>la_observedAt = rg_observedAt r, la_sequence = rg_sequence r\<rparr> m) (stream_key src feed)
        = last_of (stream src feed (sent @ [tagged a now r]))"
      using old(2) same by (auto simp: stream_append stream_tagged last_of_def)
  qed (use f fin in simp)
qed

lemma accept_ordered_ok:
  assumes "streams_ok m sent" "source_id_ok (so_id a)" "map_of sources (so_id a) = Some a" "\<forall>x \<in> set sent. plausible cfg sources x"
    and "accept_ordered cfg a now sg rs m = (res, m')"
  shows "streams_ok m' (sent @ ir_accepted res) \<and> (\<forall>x \<in> set (sent @ ir_accepted res). plausible cfg sources x)"
  using assms
proof (induction rs arbitrary: m sent res)
  case (Cons r rs)
  show ?case
  proof (cases "check_reading cfg a r now sg m")
    case None
    let ?m = "js_set (stream_key (so_id a) (rg_feedId r)) \<lparr>la_observedAt = rg_observedAt r, la_sequence = rg_sequence r\<rparr> m"
    obtain res1 m1 where r1: "accept_ordered cfg a now sg rs ?m = (res1, m1)" by (cases "accept_ordered cfg a now sg rs ?m")
    have "m1 = m'" and r: "res = res1\<lparr>ir_accepted := tagged a now r # ir_accepted res1\<rparr>"
      using Cons.prems(5) unfolding accept_ordered.simps None r1 option.case prod.case by simp_all
    have p: "\<forall>x \<in> set (sent @ [tagged a now r]). plausible cfg sources x"
      using Cons.prems(4) check_plausible [OF None Cons.prems(3)] by simp
    have "streams_ok m' ((sent @ [tagged a now r]) @ ir_accepted res1)
        \<and> (\<forall>x \<in> set ((sent @ [tagged a now r]) @ ir_accepted res1). plausible cfg sources x)"
      by (rule Cons.IH [OF one_accepted [OF Cons.prems(1,2) None] Cons.prems(2,3) p r1 [unfolded \<open>m1 = m'\<close>]])
    then show ?thesis by (simp add: r)
  next
    case (Some reason)
    obtain res1 m1 where r1: "accept_ordered cfg a now sg rs m = (res1, m1)" by (cases "accept_ordered cfg a now sg rs m")
    have m1: "m1 = m'" and "ir_accepted res = ir_accepted res1"
      using Cons.prems(5) unfolding accept_ordered.simps Some r1 option.case prod.case by auto
    then show ?thesis using Cons.IH [OF Cons.prems(1-4) r1 [unfolded m1]] by simp
  qed
qed simp

definition pipeline_ok :: "ingestion_config \<Rightarrow> pipeline \<Rightarrow> bool" where
  "pipeline_ok cfg s \<longleftrightarrow> (\<forall>i a. map_of (ip_sources s) i = Some a \<longrightarrow> so_id a = i \<and> source_id_ok i)
     \<and> streams_ok (ip_last s) (ip_delivered s) \<and> (\<forall>x \<in> set (ip_delivered s). plausible cfg (ip_sources s) x)"

lemma accept_ok:
  assumes "pipeline_ok cfg s" "map_of (ip_sources s) i = Some a" "accept cfg a rs now sg s = (res, s')"
  shows "pipeline_ok cfg s'"
proof -
  have a: "so_id a = i" "source_id_ok i" using assms(1,2) by (auto simp: pipeline_ok_def)
  obtain m where m: "accept_ordered cfg a now sg (js_sort reading_before rs) (ip_last s) = (res, m)"
    and s': "s' = s\<lparr>ip_last := m, ip_delivered := ip_delivered s @ ir_accepted res\<rparr>"
    using assms(3) by (auto simp: accept_def split: prod.splits)
  show ?thesis using accept_ordered_ok [OF _ _ _ _ m, of "ip_delivered s" "ip_sources s"] assms(1,2) a s'
    by (simp add: pipeline_ok_def)
qed

lemma register_ok: "pipeline_ok cfg s \<Longrightarrow> pipeline_ok cfg (snd (register_source a s))"
  by (auto simp: register_source_def pipeline_ok_def plausible_def js_has_def split: sum.split)

lemma deliver_ok:
  assumes "pipeline_ok (we_config w) s" "map_of (ip_sources s) i = Some a"
  shows "pipeline_ok (we_config w) (snd (deliver_body w a p h b now s))"
  using assms by (auto simp: deliver_body_def intro: accept_ok split: option.split sum.split prod.split)

lemma nonces_irrelevant [simp]: "pipeline_ok cfg (s\<lparr>ip_nonces := n\<rparr>) \<longleftrightarrow> pipeline_ok cfg s"
  by (simp add: pipeline_ok_def)

lemma webhook_keeps_ok: "pipeline_ok (we_config w) s \<Longrightarrow> pipeline_ok (we_config w) (snd (ingestWebhook w i rq now s))"
  by (simp add: ingestWebhook_def Let_def deliver_ok split: option.split source_kind.split sum.split prod.split claim_outcome.split)

lemma pull_ok: "pipeline_ok cfg s \<Longrightarrow> pipeline_ok cfg (snd (ingestPull cfg i now s))"
  by (auto simp: ingestPull_def intro: accept_ok split: option.split source_kind.split sum.split prod.split)

lemma run_pipeline_ok: "pipeline_ok (we_config w) s \<Longrightarrow> pipeline_ok (we_config w) (fold (pipeline_step w) cs s)"
proof (induction cs arbitrary: s)
  case (Cons c cs)
  have "pipeline_ok (we_config w) (pipeline_step w c s)"
    using Cons.prems by (cases c) (simp_all add: register_ok pull_ok webhook_keeps_ok)
  then show ?case using Cons.IH by simp
qed simp

text \<open>C33. What the pipeline hands to its sinks is plausible and in order. Whatever sources register
  and whatever is pulled or delivered, in any order and at any times: every reading handed on has
  a finite value, is of a feed that its registered source publishes, and was neither older nor
  further in the future than the limits when it was received; and the readings of one source
  and feed come with strictly increasing times, and with strictly increasing sequence numbers from
  the first that has one.\<close>

theorem delivered_streams_ordered:
  assumes "s = fold (pipeline_step w) calls new_pipeline"
  shows "(\<forall>x \<in> set (ip_delivered s). plausible (we_config w) (ip_sources s) x)
    \<and> sorted_wrt newer (stream src feed (ip_delivered s))"
proof -
  have "pipeline_ok (we_config w) new_pipeline"
    by (simp add: pipeline_ok_def new_pipeline_def streams_ok_def stream_def last_of_def)
  then have ok: "pipeline_ok (we_config w) s" unfolding assms by (rule run_pipeline_ok)
  then have p: "\<forall>x \<in> set (ip_delivered s). plausible (we_config w) (ip_sources s) x" by (simp add: pipeline_ok_def)
  moreover have "sorted_wrt newer (stream src feed (ip_delivered s))"
  proof (cases "source_id_ok src")
    case False
    then have "stream src feed (ip_delivered s) = []"
      using ok p by (fastforce simp: stream_def filter_empty_conv plausible_def pipeline_ok_def)
    then show ?thesis by simp
  qed (use ok in \<open>simp add: pipeline_ok_def streams_ok_def\<close>)
  ultimately show ?thesis by blast
qed

section \<open>A source at work\<close>

definition sample_key :: webhook_credential where
  "sample_key = \<lparr>wc_keyId = ''k1'', wc_secret = replicate 32 (CHR ''s''), wc_notBefore = None, wc_notAfter = Some 9000000\<rparr>"

definition sample_source :: source_adapter where
  "sample_source = json_push_source ''acme'' [''usdc-usd''] [sample_key]"

text \<open>Bodies stand for themselves: the first byte is the value in percent, the second the age of
  the reading in seconds before 1000.\<close>

definition sample_body :: "int list \<Rightarrow> json option" where
  "sample_body b = (case b of
     [v, age] \<Rightarrow> Some (JObj [(''readings'', JArr [JObj [(''feedId'', JStr ''usdc-usd''), (''coverageType'', JStr ''StablecoinDepeg''),
       (''value'', JNum (Num (of_int v / 100))), (''observedAt'', JNum (Num (of_int (1000000 - age * 1000)))), (''sequence'', JNum (Num (of_int (100 - age))))]])])
   | _ \<Rightarrow> None)"

definition webhook_sample :: webhook_env where
  "webhook_sample = \<lparr>we_config = DEFAULT_INGESTION_CONFIG, we_sha256 = (\<lambda>b. ''00''), we_hmac = (\<lambda>k m. replicate 64 (CHR ''a'')), we_parse = sample_body\<rparr>"

definition sample_request :: "string \<Rightarrow> int list \<Rightarrow> inbound_webhook" where
  "sample_request nonce b = \<lparr>iw_headers = map_of [(''x-refract-key-id'', One ''k1''), (''x-refract-timestamp'', One ''1000''),
     (''x-refract-nonce'', One nonce), (''x-refract-signature'', One (''v1='' @ replicate 64 (CHR ''a'')))], iw_rawBody = Some b\<rparr>"

definition sample_deliveries :: "pipeline_call list" where
  "sample_deliveries = [CRegister sample_source, CWebhook ''acme'' (sample_request ''nonce-0123456789'' [98, 20]) 1000000,
     CWebhook ''acme'' (sample_request ''nonce-1123456789'' [97, 30]) 1010000, CWebhook ''acme'' (sample_request ''nonce-2123456789'' [96, 10]) 1020000,
     CWebhook ''acme'' (sample_request ''nonce-2123456789'' [96, 5]) 1020000]"

theorem delivered_streams_ordered_witness:
  "let s = fold (pipeline_step webhook_sample) sample_deliveries new_pipeline
   in map rg_value (stream ''acme'' ''usdc-usd'' (ip_delivered s)) = [Num (98 / 100), Num (96 / 100)]
      \<and> sorted_wrt newer (stream ''acme'' ''usdc-usd'' (ip_delivered s))"
proof -
  have "map rg_value (stream ''acme'' ''usdc-usd'' (ip_delivered (fold (pipeline_step webhook_sample) sample_deliveries new_pipeline)))
      = [Num (98 / 100), Num (96 / 100)]" by code_simp
  then show ?thesis using delivered_streams_ordered [OF refl, of webhook_sample sample_deliveries "''acme''" "''usdc-usd''"]
    by (simp add: Let_def)
qed

definition accepted_webhook :: "webhook_result \<Rightarrow> bool" where
  "accepted_webhook r \<longleftrightarrow> (case r of WebhookOk _ \<Rightarrow> True | _ \<Rightarrow> False)"

theorem delivery_accepted_once_witness:
  "let rq = sample_request ''nonce-0123456789'' [98, 20];
       s0 = pipeline_step webhook_sample (CRegister sample_source) new_pipeline;
       s1 = snd (ingestWebhook webhook_sample ''acme'' rq 1000000 s0);
       s2 = fold (pipeline_step webhook_sample) [CWebhook ''acme'' (sample_request ''nonce-1123456789'' [97, 30]) 1010000] s1
   in accepted_webhook (fst (ingestWebhook webhook_sample ''acme'' rq 1000000 s0))
      \<and> \<not> accepted_webhook (fst (ingestWebhook webhook_sample ''acme'' rq 1200000 s2))"
proof -
  let ?rq = "sample_request ''nonce-0123456789'' [98, 20]"
  let ?s0 = "pipeline_step webhook_sample (CRegister sample_source) new_pipeline"
  let ?calls = "[CWebhook ''acme'' (sample_request ''nonce-1123456789'' [97, 30]) 1010000]"
  have e: "accepted_webhook (fst (ingestWebhook webhook_sample ''acme'' ?rq 1000000 ?s0)) \<and> is_ok (readSignatureHeaders (iw_headers ?rq))"
    by code_simp
  then obtain res h where r: "fst (ingestWebhook webhook_sample ''acme'' ?rq 1000000 ?s0) = WebhookOk res"
    and h: "readSignatureHeaders (iw_headers ?rq) = Inr h"
    by (auto simp: accepted_webhook_def is_ok_iff split: webhook_result.splits)
  obtain s1 where s1: "ingestWebhook webhook_sample ''acme'' ?rq 1000000 ?s0 = (WebhookOk res, s1)" using r by (metis prod.collapse)
  have "fst (ingestWebhook webhook_sample ''acme'' ?rq 1200000 (fold (pipeline_step webhook_sample) ?calls s1)) \<noteq> WebhookOk res'" for res'
    by (rule delivery_accepted_once [OF s1 refl _ h h refl refl]) simp
  then have "\<not> accepted_webhook (fst (ingestWebhook webhook_sample ''acme'' ?rq 1200000 (fold (pipeline_step webhook_sample) ?calls s1)))"
    by (auto simp: accepted_webhook_def split: webhook_result.splits)
  then show ?thesis using e s1 by (simp add: Let_def)
qed

end
